(* ===== verification/Prelude.thy ===== *)
theory Prelude
  imports Complex_Main
begin

text \<open>
  Shared vocabulary of the development.

  \<^item> Python floats that measure seconds are exact rationals (type \<open>seconds\<close>), Python integers
    are \<open>int\<close>, and Python strings are \<open>string\<close>, so a character is a code point below 256.
  \<^item> An operation that may raise returns \<open>exn + 'a\<close> (the exceptions are in theory
    \<open>Exceptions\<close>); one with effects takes the state and returns it updated.
  \<^item> The collections \<open>breaker_defs\<close>, \<open>guard_defs\<close> and \<open>cache_defs\<close> gather the unfolding equations
    of a component, so that a proof names the component and not its twenty definitions;
    \<open>upkeep_rules\<close> are the introduction rules of a walk over a whole program.
\<close>

type_synonym seconds = rat

named_theorems breaker_defs "unfolding equations of the circuit breaker"
named_theorems guard_defs "unfolding equations of the guard around a dependency call"
named_theorems cache_defs "unfolding equations of the article cache"
named_theorems service_defs "unfolding equations of the article service"
named_theorems upkeep_rules "what each construct keeps, its parts keep"

subsection \<open>Lists\<close>

lemma set_takeWhile_all: "x \<in> set (takeWhile P xs) \<Longrightarrow> P x"
  by (rule set_takeWhileD [THEN conjunct2])

lemma last_snoc_two [simp]: "last (xs @ [x, y]) = y"
  by simp

lemma takeWhile_append_stop:
  "\<forall>x \<in> set xs. P x \<Longrightarrow> \<not> P y \<Longrightarrow> takeWhile P (xs @ y # ys) = xs"
  by (induction xs) auto

lemma dropWhile_append_stop:
  "\<forall>x \<in> set xs. P x \<Longrightarrow> \<not> P y \<Longrightarrow> dropWhile P (xs @ y # ys) = y # ys"
  by (induction xs) auto

subsection \<open>Sums\<close>

text \<open>\<open>sum_bind m f\<close> runs \<open>f\<close> on a result and passes an exception through.\<close>

definition sum_bind :: "'e + 'a \<Rightarrow> ('a \<Rightarrow> 'e + 'b) \<Rightarrow> 'e + 'b" where
  "sum_bind m f = (case m of Inl e \<Rightarrow> Inl e | Inr a \<Rightarrow> f a)"

lemma sum_bind_simps [simp]:
  "sum_bind (Inl e) f = Inl e"
  "sum_bind (Inr a) f = f a"
  by (simp_all add: sum_bind_def)

lemma sum_bind_eq_Inr: "sum_bind m f = Inr b \<longleftrightarrow> (\<exists>a. m = Inr a \<and> f a = Inr b)"
  by (cases m) auto

subsection \<open>Python rounding\<close>

text \<open>
  \<open>round(x)\<close> of a float with no digits argument: to the nearest integer, and to the even one at
  a tie.
\<close>

definition py_round :: "seconds \<Rightarrow> int" where
  "py_round x =
     (let f = \<lfloor>x\<rfloor>; d = x - of_int f in
      if d < 1 / 2 then f else if 1 / 2 < d then f + 1 else if even f then f else f + 1)"

lemma py_round_of_int [simp]: "py_round (of_int n) = n"
  by (simp add: py_round_def)

lemma py_round_le: "of_int (py_round x) \<le> x + 1 / 2"
proof -
  have "of_int \<lfloor>x\<rfloor> \<le> x" by simp
  then have "of_int \<lfloor>x\<rfloor> \<le> x + 1 / 2" by linarith
  then show ?thesis by (auto simp: py_round_def Let_def not_less)
qed

lemma py_round_ge: "x - 1 / 2 \<le> of_int (py_round x)"
proof -
  have "x < of_int \<lfloor>x\<rfloor> + 1" by linarith
  then show ?thesis by (auto simp: py_round_def Let_def not_less)
qed

lemma py_round_mono_int_low: "of_int n \<le> x \<Longrightarrow> n \<le> py_round x"
  using floor_mono [of "of_int n" x] by (auto simp: py_round_def Let_def)

lemma py_round_mono_int_high:
  assumes "x \<le> of_int n"
  shows "py_round x \<le> n"
proof (rule ccontr)
  assume "\<not> py_round x \<le> n"
  then have "n + 1 \<le> py_round x" by simp
  then have "of_int (n + 1) \<le> (of_int (py_round x) :: rat)" by (simp only: of_int_le_iff)
  with py_round_le [of x] assms show False by simp
qed

end
