(* ===== verification/PyText.thy ===== *)
theory PyText
  imports Prelude
begin

text \<open>
  The string operations of Python that the source uses, on strings whose code points are below 256:
  character classes, \<open>lower\<close>, \<open>strip\<close>, \<open>partition\<close> on one character, decimal numerals. Code point
  classes follow Python's Unicode tables for that range, so \<open>is_space\<close> holds of the separators
  28 to 31, of 133 and of 160.
\<close>

subsection \<open>Character classes\<close>

definition is_space :: "char \<Rightarrow> bool" where
  "is_space c \<longleftrightarrow> (of_char c :: nat) \<in> {9, 10, 11, 12, 13, 28, 29, 30, 31, 32, 133, 160}"

definition is_ascii_letter :: "char \<Rightarrow> bool" where
  "is_ascii_letter c \<longleftrightarrow>
     (65 \<le> (of_char c :: nat) \<and> (of_char c :: nat) \<le> 90)
     \<or> (97 \<le> (of_char c :: nat) \<and> (of_char c :: nat) \<le> 122)"

definition is_ascii_digit :: "char \<Rightarrow> bool" where
  "is_ascii_digit c \<longleftrightarrow> 48 \<le> (of_char c :: nat) \<and> (of_char c :: nat) \<le> 57"

definition is_ascii :: "char \<Rightarrow> bool" where
  "is_ascii c \<longleftrightarrow> (of_char c :: nat) < 128"

definition lower_char :: "char \<Rightarrow> char" where
  "lower_char c =
     (let n = (of_char c :: nat) in
      if (65 \<le> n \<and> n \<le> 90) \<or> (192 \<le> n \<and> n \<le> 222 \<and> n \<noteq> 215) then char_of (n + 32) else c)"

definition upper_ascii_char :: "char \<Rightarrow> char" where
  "upper_ascii_char c =
     (let n = (of_char c :: nat) in if 97 \<le> n \<and> n \<le> 122 then char_of (n - 32) else c)"

definition lower :: "string \<Rightarrow> string" where
  "lower s = map lower_char s"

lemma lower_char_idem [simp]: "lower_char (lower_char c) = lower_char c"
proof -
  let ?n = "of_char c :: nat"
  have "?n < 256" by simp
  then show ?thesis
    by (auto simp: lower_char_def Let_def of_char_of)
qed

lemma lower_idem [simp]: "lower (lower s) = lower s"
  by (simp add: lower_def)

lemma length_lower [simp]: "length (lower s) = length s"
  by (simp add: lower_def)

subsection \<open>strip, rstrip, startswith, partition\<close>

definition strip_with :: "(char \<Rightarrow> bool) \<Rightarrow> string \<Rightarrow> string" where
  "strip_with p s = rev (dropWhile p (rev (dropWhile p s)))"

definition strip :: "string \<Rightarrow> string" where
  "strip = strip_with is_space"

definition rstrip_char :: "char \<Rightarrow> string \<Rightarrow> string" where
  "rstrip_char c s = rev (dropWhile (\<lambda>x. x = c) (rev s))"

lemma strip_with_Nil [simp]: "strip_with p [] = []"
  by (simp add: strip_with_def)

lemma strip_Nil [simp]: "strip [] = []"
  by (simp add: strip_def)

definition startswith :: "string \<Rightarrow> string \<Rightarrow> bool" where
  "startswith s prefix \<longleftrightarrow> take (length prefix) s = prefix"

lemma startswith_append [simp]: "startswith (p @ s) p"
  by (simp add: startswith_def)

lemma startswith_take: "startswith s p \<Longrightarrow> k \<le> length p \<Longrightarrow> take k s = take k p"
  by (metis min.absorb1 startswith_def take_take)

text \<open>\<open>partition c s\<close>: the part before the first \<open>c\<close>, whether there is one, and the part after it.\<close>

definition partition_char :: "char \<Rightarrow> string \<Rightarrow> string \<times> bool \<times> string" where
  "partition_char c s =
     (case dropWhile (\<lambda>x. x \<noteq> c) s of
        [] \<Rightarrow> (s, False, [])
      | _ # r \<Rightarrow> (takeWhile (\<lambda>x. x \<noteq> c) s, True, r))"

lemma partition_char_found:
  assumes "c \<notin> set a"
  shows "partition_char c (a @ c # b) = (a, True, b)"
proof -
  have "dropWhile (\<lambda>x. x \<noteq> c) (a @ c # b) = c # b"
    by (rule dropWhile_append_stop) (use assms in auto)
  moreover have "takeWhile (\<lambda>x. x \<noteq> c) (a @ c # b) = a"
    by (rule takeWhile_append_stop) (use assms in auto)
  ultimately show ?thesis unfolding partition_char_def by simp
qed

lemma partition_char_absent: "c \<notin> set s \<Longrightarrow> partition_char c s = (s, False, [])"
proof -
  assume "c \<notin> set s"
  then have "dropWhile (\<lambda>x. x \<noteq> c) s = []" by auto
  then show ?thesis unfolding partition_char_def by (simp only: list.case)
qed

lemma rstrip_char_replicate:
  "s = [] \<or> last s \<noteq> c \<Longrightarrow> rstrip_char c (s @ replicate n c) = s"
proof -
  assume a: "s = [] \<or> last s \<noteq> c"
  have "dropWhile (\<lambda>x. x = c) (replicate n c @ rev s) = dropWhile (\<lambda>x. x = c) (rev s)"
    by (induction n) auto
  moreover have "dropWhile (\<lambda>x. x = c) (rev s) = rev s"
    using a by (cases s rule: rev_cases) auto
  ultimately show ?thesis by (simp add: rstrip_char_def)
qed

subsection \<open>Decimal numerals\<close>

definition digit_char :: "nat \<Rightarrow> char" where
  "digit_char n = char_of (48 + n)"

fun dec_nat :: "nat \<Rightarrow> string" where
  "dec_nat n = (if n < 10 then [digit_char n] else dec_nat (n div 10) @ [digit_char (n mod 10)])"

declare dec_nat.simps [simp del]

definition nat_of_dec :: "string \<Rightarrow> nat" where
  "nat_of_dec s = foldl (\<lambda>a c. 10 * a + (of_char c - 48)) 0 s"

text \<open>\<open>str(i)\<close> of a Python integer.\<close>

definition str_int :: "int \<Rightarrow> string" where
  "str_int i = (if i < 0 then CHR ''-'' # dec_nat (nat (- i)) else dec_nat (nat i))"

lemma of_char_digit: "n < 10 \<Longrightarrow> of_char (digit_char n) = 48 + n"
  by (simp add: digit_char_def of_char_of)

lemma is_digit_digit_char: "n < 10 \<Longrightarrow> is_ascii_digit (digit_char n)"
  by (simp add: is_ascii_digit_def of_char_digit)

lemma dec_nat_not_Nil [simp]: "dec_nat n \<noteq> []"
  by (subst dec_nat.simps) simp

lemma dec_nat_digits: "c \<in> set (dec_nat n) \<Longrightarrow> is_ascii_digit c"
proof (induction n rule: dec_nat.induct)
  case (1 n)
  then show ?case
    by (subst (asm) (2) dec_nat.simps) (auto simp: is_digit_digit_char split: if_splits)
qed

lemma nat_of_dec_dec_nat [simp]: "nat_of_dec (dec_nat n) = n"
proof (induction n rule: dec_nat.induct)
  case (1 n)
  show ?case
  proof (cases "n < 10")
    case True
    then show ?thesis
      by (subst dec_nat.simps) (simp add: nat_of_dec_def of_char_digit)
  next
    case False
    with 1 have "nat_of_dec (dec_nat (n div 10)) = n div 10" by simp
    with False show ?thesis
      by (subst dec_nat.simps) (simp add: nat_of_dec_def of_char_digit)
  qed
qed

lemma dec_nat_inject [simp]: "dec_nat m = dec_nat n \<longleftrightarrow> m = n"
  by (metis nat_of_dec_dec_nat)

lemma dash_not_digit [simp]: "\<not> is_ascii_digit CHR ''-''"
  by (simp add: is_ascii_digit_def)

lemma colon_not_digit [simp]: "\<not> is_ascii_digit CHR '':''"
  by (simp add: is_ascii_digit_def)

lemma dec_nat_not_dash: "dec_nat n \<noteq> CHR ''-'' # s"
  by (metis dash_not_digit dec_nat_digits list.set_intros(1))

lemma str_int_inject [simp]: "str_int i = str_int j \<longleftrightarrow> i = j"
  using dec_nat_not_dash dec_nat_not_dash [symmetric]
  by (auto simp: str_int_def split: if_splits)

lemma str_int_nonneg: "0 \<le> i \<Longrightarrow> str_int i = dec_nat (nat i)"
  by (simp add: str_int_def)

lemma str_int_chars: "c \<in> set (str_int i) \<Longrightarrow> is_ascii_digit c \<or> c = CHR ''-''"
  by (auto simp: str_int_def dest: dec_nat_digits split: if_splits)

lemma colon_not_in_str_int [simp]: "CHR '':'' \<notin> set (str_int i)"
  by (auto dest: str_int_chars)

lemma colon_not_in_dec_nat [simp]: "CHR '':'' \<notin> set (dec_nat i)"
  by (auto dest: dec_nat_digits)

lemma length_dec_nat: "n < 10 ^ Suc k \<Longrightarrow> length (dec_nat n) \<le> Suc k"
proof (induction k arbitrary: n)
  case 0
  then show ?case by (subst dec_nat.simps) simp
next
  case (Suc k)
  then have "n div 10 < 10 ^ Suc k" by auto
  with Suc.IH have "length (dec_nat (n div 10)) \<le> Suc k" by blast
  then show ?case by (subst dec_nat.simps) simp
qed

end
