(* ===== verification/Json.thy ===== *)
theory Json
  imports PyText "HOL-Library.Countable"
begin

text \<open>
  The values \<open>json.loads\<close> of Python returns, with the operations the source applies to them:
  subscription, iteration, truth, \<open>int(...)\<close>. An object is its association list, later entries
  already dropped when a name occurs twice. Python's parser and printer are parameters where they
  are used.
\<close>

datatype json =
    JNull
  | JBool bool
  | JInt int
  | JFloat rat
  | JInfinity        \<comment> \<open>\<open>Infinity\<close> or \<open>-Infinity\<close>, which Python reads as floats\<close>
  | JNaN
  | JStr string
  | JList "json list"
  | JObj "(string \<times> json) list"

instance json :: countable by countable_datatype

text \<open>What a subscript or a conversion can raise.\<close>

datatype py_error = PyTypeError | PyValueError | PyKeyError | PyIndexError | PyOverflowError

fun json_truthy :: "json \<Rightarrow> bool" where
  "json_truthy JNull = False"
| "json_truthy (JBool b) = b"
| "json_truthy (JInt i) = (i \<noteq> 0)"
| "json_truthy (JFloat x) = (x \<noteq> 0)"
| "json_truthy (JStr s) = (s \<noteq> [])"
| "json_truthy (JList xs) = (xs \<noteq> [])"
| "json_truthy (JObj kvs) = (kvs \<noteq> [])"
| "json_truthy _ = True"

text \<open>\<open>value[name]\<close> with a text name\<close>

fun json_item :: "json \<Rightarrow> string \<Rightarrow> py_error + json" where
  "json_item (JObj kvs) name =
     (case map_of kvs name of None \<Rightarrow> Inl PyKeyError | Some v \<Rightarrow> Inr v)"
| "json_item _ name = Inl PyTypeError"

text \<open>\<open>value[index]\<close> with a natural index: an object has no integer keys\<close>

fun json_nth :: "json \<Rightarrow> nat \<Rightarrow> py_error + json" where
  "json_nth (JList xs) i = (if i < length xs then Inr (xs ! i) else Inl PyIndexError)"
| "json_nth (JStr s) i = (if i < length s then Inr (JStr [s ! i]) else Inl PyIndexError)"
| "json_nth (JObj kvs) i = Inl PyKeyError"
| "json_nth _ i = Inl PyTypeError"

text \<open>\<open>for item in value\<close>\<close>

fun json_iter :: "json \<Rightarrow> py_error + json list" where
  "json_iter (JList xs) = Inr xs"
| "json_iter (JStr s) = Inr (map (\<lambda>c. JStr [c]) s)"
| "json_iter (JObj kvs) = Inr (map (JStr \<circ> fst) kvs)"
| "json_iter _ = Inl PyTypeError"

text \<open>
  \<open>int(text)\<close> of Python on text below code point 256: white space around, a sign, digits with single
  underscores between them, at most 4300 digits.
\<close>

fun underscored :: "bool \<Rightarrow> string \<Rightarrow> bool" where
  "underscored digit_before [] = digit_before"
| "underscored digit_before (c # s) =
     (if c = CHR ''_'' then digit_before \<and> s \<noteq> [] \<and> underscored False s
      else is_ascii_digit c \<and> underscored True s)"

definition py_int :: "string \<Rightarrow> int option" where
  "py_int text =
     (let t = strip text;
          signed = (t \<noteq> [] \<and> (hd t = CHR ''-'' \<or> hd t = CHR ''+''));
          body = (if signed then tl t else t);
          digits = filter is_ascii_digit body in
      if underscored False body \<and> length digits \<le> 4300
      then Some (if signed \<and> hd t = CHR ''-'' then - int (nat_of_dec digits)
                 else int (nat_of_dec digits))
      else None)"

text \<open>\<open>int(value)\<close>; a float is cut towards zero\<close>

fun json_int :: "json \<Rightarrow> py_error + int" where
  "json_int (JInt i) = Inr i"
| "json_int (JBool b) = Inr (if b then 1 else 0)"
| "json_int (JFloat x) = Inr (if 0 \<le> x then \<lfloor>x\<rfloor> else \<lceil>x\<rceil>)"
| "json_int JInfinity = Inl PyOverflowError"
| "json_int JNaN = Inl PyValueError"
| "json_int (JStr s) = (case py_int s of None \<Rightarrow> Inl PyValueError | Some i \<Rightarrow> Inr i)"
| "json_int _ = Inl PyTypeError"

text \<open>A decimal numeral is read back.\<close>

lemma underscored_digits: "\<forall>c \<in> set s. is_ascii_digit c \<Longrightarrow> underscored b s \<longleftrightarrow> b \<or> s \<noteq> []"
proof (induction s arbitrary: b)
  case (Cons c s)
  then have "c \<noteq> CHR ''_''" by (auto simp: is_ascii_digit_def)
  with Cons show ?case by simp
qed simp

lemma digit_not_space: "is_ascii_digit c \<Longrightarrow> \<not> is_space c"
  by (auto simp: is_ascii_digit_def is_space_def)

lemma strip_clean:
  assumes "\<forall>c \<in> set s. \<not> is_space c"
  shows "strip s = s"
proof -
  have "dropWhile is_space s = s" using assms by (cases s) auto
  moreover have "dropWhile is_space (rev s) = rev s" using assms by (cases "rev s") auto
  ultimately show ?thesis by (simp add: strip_def strip_with_def)
qed

lemma py_int_numeral:
  assumes "0 \<le> i" and "i < 10 ^ 20"
  shows "py_int (str_int i) = Some i"
proof -
  let ?s = "dec_nat (nat i)"
  have d: "\<forall>c \<in> set ?s. is_ascii_digit c" using dec_nat_digits by blast
  then have st: "strip ?s = ?s" using digit_not_space by (intro strip_clean) blast
  have hd: "hd ?s \<noteq> CHR ''-'' \<and> hd ?s \<noteq> CHR ''+''"
  proof -
    have "is_ascii_digit (hd ?s)" using d hd_in_set [OF dec_nat_not_Nil] by blast
    then show ?thesis by (auto simp: is_ascii_digit_def)
  qed
  have f: "filter is_ascii_digit ?s = ?s" using d by (simp add: filter_id_conv)
  have "nat i < 10 ^ Suc 19" using assms by simp
  from length_dec_nat [OF this] have "length ?s \<le> 4300" by simp
  then show ?thesis
    using assms(1) hd underscored_digits [OF d, of False]
    by (simp add: py_int_def str_int_nonneg st f Let_def)
qed

subsection \<open>A text for every value\<close>

text \<open>
  Concrete codecs of the witnesses write a value as the numeral of its number, which is read back.
\<close>

definition number_text :: "'a :: countable \<Rightarrow> string" where
  "number_text x = dec_nat (to_nat x)"

definition text_number :: "string \<Rightarrow> 'a :: countable" where
  "text_number s = from_nat (nat_of_dec s)"

lemma text_number_number_text [simp]: "text_number (number_text x) = x"
  by (simp add: text_number_def number_text_def)

end
