(* ===== verification/Exceptions.thy ===== *)
theory Exceptions
  imports Json
begin

text \<open>
  The exceptions a request can meet: \<open>app/services/exceptions.py\<close>, and the classes of the
  drivers and of Python that the error-handling code of the repository tells apart.

  No raise site under \<open>app/\<close> passes \<open>details\<close>, so a domain error carries its message and, for
  the two dependency errors, the number of seconds of \<open>retry_after\<close>; \<open>details\<close> is the empty
  dictionary. \<open>CancelledError\<close> is Python's cancellation, the one class here that is a
  \<open>BaseException\<close> and not an \<open>Exception\<close>.
\<close>

datatype domain_error =
    UnauthenticatedError string
  | ForbiddenError string
  | ArticleNotFoundError string
  | ConflictError string
  | PreconditionRequiredError string
  | InvalidCursorError string
  | UpstreamTimeoutError string seconds
  | DependencyUnavailableError string seconds

datatype exn =
    Domain domain_error
  | OperationalError string        \<comment> \<open>\<open>sqlalchemy.exc\<close>\<close>
  | InterfaceError string
  | DisconnectionError string
  | IntegrityError string
  | SQLAlchemyError string         \<comment> \<open>every other SQLAlchemy error\<close>
  | RedisConnectionError string    \<comment> \<open>\<open>redis.exceptions\<close>, subclasses of \<open>RedisError\<close>\<close>
  | RedisTimeoutError string
  | RedisError string              \<comment> \<open>every other Redis error\<close>
  | TimeoutError                   \<comment> \<open>the built-in one, a subclass of \<open>OSError\<close>\<close>
  | OSError string
  | ValueError string
  | KeyError string
  | OverflowError string
  | RuntimeError string
  | CancelledError
  | RequestValidationError json    \<comment> \<open>FastAPI's, with \<open>jsonable_encoder(exc.errors())\<close>\<close>
  | OtherException string

text \<open>\<open>isinstance(error, Exception)\<close>\<close>

fun is_exception :: "exn \<Rightarrow> bool" where
  "is_exception CancelledError = False"
| "is_exception _ = True"

text \<open>\<open>isinstance(error, DependencyDownError)\<close>\<close>

fun is_dependency_down :: "exn \<Rightarrow> bool" where
  "is_dependency_down (Domain (UpstreamTimeoutError _ _)) = True"
| "is_dependency_down (Domain (DependencyUnavailableError _ _)) = True"
| "is_dependency_down _ = False"

lemma is_dependency_down_cases:
  assumes "is_dependency_down e"
  obtains m r where "e = Domain (UpstreamTimeoutError m r)"
    | m r where "e = Domain (DependencyUnavailableError m r)"
  using assms by (cases e rule: is_dependency_down.cases) auto

text \<open>\<open>exc.message\<close>\<close>

fun error_message :: "domain_error \<Rightarrow> string" where
  "error_message (UnauthenticatedError m) = m"
| "error_message (ForbiddenError m) = m"
| "error_message (ArticleNotFoundError m) = m"
| "error_message (ConflictError m) = m"
| "error_message (PreconditionRequiredError m) = m"
| "error_message (InvalidCursorError m) = m"
| "error_message (UpstreamTimeoutError m _) = m"
| "error_message (DependencyUnavailableError m _) = m"

end
