(* ===== verification/Settings.thy ===== *)
theory Settings
  imports Exceptions
begin

text \<open>
  \<open>app/config.py\<close>: the settings of the process, field by field with their defaults, the signing
  key check and the database URLs. Reading the environment is Pydantic's work and is left out.
  Times that the source writes as floats are exact rationals.
\<close>

record settings =
  app_env :: string
  app_port :: int
  log_level :: string
  log_format :: string
  mysql_host :: string
  mysql_port :: int
  mysql_db :: string
  mysql_user :: string
  mysql_password :: string
  db_pool_size :: int
  db_max_overflow :: int
  db_pool_timeout :: seconds
  db_pool_recycle :: int
  redis_url :: string
  redis_socket_timeout :: seconds
  redis_socket_connect_timeout :: seconds
  redis_max_connections :: int
  cache_enabled :: bool
  cache_article_ttl_seconds :: int
  cache_list_ttl_seconds :: int
  cache_ttl_jitter :: rat
  cache_lock_timeout_seconds :: seconds
  jwt_secret :: string
  jwt_algorithm :: string
  jwt_expire_seconds :: int
  password_hash_max_threads :: int
  db_connect_timeout_seconds :: seconds
  db_statement_timeout_seconds :: seconds
  db_call_timeout_seconds :: seconds
  db_retry_attempts :: int
  retry_backoff_base_seconds :: seconds
  retry_backoff_max_seconds :: seconds
  breaker_failure_threshold :: int
  breaker_reset_seconds :: seconds
  breaker_half_open_max_calls :: int
  max_inflight_requests :: int
  shed_retry_after_seconds :: seconds
  readiness_timeout_seconds :: seconds
  otel_exporter_otlp_endpoint :: string
  otel_service_name :: string

definition default_settings :: settings where
  "default_settings =
     \<lparr>app_env = ''dev'', app_port = 8000, log_level = ''INFO'', log_format = ''json'',
      mysql_host = ''localhost'', mysql_port = 3306, mysql_db = ''content_platform'',
      mysql_user = ''app'', mysql_password = [],
      db_pool_size = 10, db_max_overflow = 5, db_pool_timeout = 10, db_pool_recycle = 1800,
      redis_url = ''redis://localhost:6379/0'', redis_socket_timeout = 2,
      redis_socket_connect_timeout = 2, redis_max_connections = 50,
      cache_enabled = True, cache_article_ttl_seconds = 300, cache_list_ttl_seconds = 60,
      cache_ttl_jitter = 1 / 5, cache_lock_timeout_seconds = 2,
      jwt_secret = [], jwt_algorithm = ''HS256'', jwt_expire_seconds = 900,
      password_hash_max_threads = 4,
      db_connect_timeout_seconds = 5, db_statement_timeout_seconds = 2,
      db_call_timeout_seconds = 3, db_retry_attempts = 2,
      retry_backoff_base_seconds = 1 / 20, retry_backoff_max_seconds = 1 / 2,
      breaker_failure_threshold = 5, breaker_reset_seconds = 10, breaker_half_open_max_calls = 1,
      max_inflight_requests = 90, shed_retry_after_seconds = 1, readiness_timeout_seconds = 2,
      otel_exporter_otlp_endpoint = [], otel_service_name = ''scalable-content-platform''\<rparr>"

definition require_signing_key :: "settings \<Rightarrow> exn + string" where
  "require_signing_key s =
     (if jwt_secret s = []
      then Inl (RuntimeError ''JWT_SECRET is not configured; refusing to sign or verify tokens.'')
      else Inr (jwt_secret s))"

subsection \<open>Client settings, validated\<close>

text \<open>
  \<open>build_redis_kwargs\<close> of \<open>app/cache/client.py\<close>: the keyword arguments of the client, or the
  refusal. The reason part of a message is kept to its first clause here and below.
\<close>

record redis_kwargs =
  decode_responses :: bool
  socket_timeout :: seconds
  socket_connect_timeout :: seconds
  max_connections :: int

definition build_redis_kwargs :: "settings \<Rightarrow> exn + redis_kwargs" where
  "build_redis_kwargs s =
     (if redis_max_connections s \<le> 0
      then Inl (ValueError (''REDIS_MAX_CONNECTIONS must be positive; redis-py reads a non-positive value as '' @
        ''an unbounded pool, so a stalled server opens a socket per waiting caller.''))
      else Inr \<lparr>decode_responses = True, socket_timeout = redis_socket_timeout s,
                socket_connect_timeout = redis_socket_connect_timeout s,
                max_connections = redis_max_connections s\<rparr>)"

text \<open>
  \<open>build_engine_kwargs\<close> of \<open>app/db/session.py\<close>. \<open>int(x)\<close> of a float truncates toward zero; the
  statement timeout is positive when it is reached, so it is the floor.
\<close>

record engine_kwargs =
  pool_size :: int
  max_overflow :: int
  pool_timeout :: seconds
  pool_recycle :: int
  pool_pre_ping :: bool
  connect_timeout :: seconds
  max_execution_time_ms :: int   \<comment> \<open>the number in \<open>init_command\<close>\<close>

definition py_int_of_float :: "rat \<Rightarrow> int" where
  "py_int_of_float x = (if 0 \<le> x then \<lfloor>x\<rfloor> else - \<lfloor>- x\<rfloor>)"

definition build_engine_kwargs :: "settings \<Rightarrow> exn + engine_kwargs" where
  "build_engine_kwargs s =
     (if db_pool_timeout s \<le> 0 then Inl (ValueError (''DB_POOL_TIMEOUT must be positive; a non-positive value waits for a connection '' @
        ''forever, so a saturated pool stalls instead of failing.''))
      else if db_max_overflow s < 0 then Inl (ValueError (''DB_MAX_OVERFLOW must not be negative; SQLAlchemy reads a negative value as '' @
        ''unlimited overflow, which removes the ceiling the capacity model assumes.''))
      else if db_connect_timeout_seconds s \<le> 0
      then Inl (ValueError (''DB_CONNECT_TIMEOUT_SECONDS must be positive; aiomysql reads a non-positive value '' @
        ''as no timeout, so a blackholed host holds the request until the kernel gives up.''))
      else if db_statement_timeout_seconds s \<le> 0
      then Inl (ValueError (''DB_STATEMENT_TIMEOUT_SECONDS must be positive; MySQL reads max_execution_time=0 '' @
        ''as no limit, so a runaway query keeps its connection until it finishes.''))
      else Inr \<lparr>pool_size = db_pool_size s, max_overflow = db_max_overflow s,
                pool_timeout = db_pool_timeout s, pool_recycle = db_pool_recycle s,
                pool_pre_ping = True, connect_timeout = db_connect_timeout_seconds s,
                max_execution_time_ms =
                  py_int_of_float (db_statement_timeout_seconds s * 1000)\<rparr>)"

lemma build_engine_kwargs_Inr:
  "build_engine_kwargs s = Inr k \<longleftrightarrow>
     0 < db_pool_timeout s \<and> 0 \<le> db_max_overflow s \<and> 0 < db_connect_timeout_seconds s
     \<and> 0 < db_statement_timeout_seconds s
     \<and> k = \<lparr>pool_size = db_pool_size s, max_overflow = db_max_overflow s,
             pool_timeout = db_pool_timeout s, pool_recycle = db_pool_recycle s,
             pool_pre_ping = True, connect_timeout = db_connect_timeout_seconds s,
             max_execution_time_ms = py_int_of_float (db_statement_timeout_seconds s * 1000)\<rparr>"
  by (auto simp: build_engine_kwargs_def)

subsection \<open>Database URLs\<close>

text \<open>
  \<open>urllib.parse.quote_plus\<close>: letters, digits and \<open>_.-~\<close> stand for themselves, a space becomes a
  plus sign, and every other character becomes the percent escapes of its UTF-8 bytes.
\<close>

definition url_safe :: "char \<Rightarrow> bool" where
  "url_safe c \<longleftrightarrow>
     (let n = (of_char c :: nat) in
      (65 \<le> n \<and> n \<le> 90) \<or> (97 \<le> n \<and> n \<le> 122) \<or> (48 \<le> n \<and> n \<le> 57)
      \<or> n = 95 \<or> n = 46 \<or> n = 45 \<or> n = 126)"

definition utf8_bytes :: "char \<Rightarrow> nat list" where
  "utf8_bytes c =
     (let n = (of_char c :: nat) in if n < 128 then [n] else [192 + n div 64, 128 + n mod 64])"

definition hex_digit :: "nat \<Rightarrow> char" where
  "hex_digit n = (if n < 10 then char_of (48 + n) else char_of (55 + n))"

definition percent :: "nat \<Rightarrow> string" where
  "percent n = [CHR ''%'', hex_digit (n div 16), hex_digit (n mod 16)]"

definition quote_char :: "char \<Rightarrow> string" where
  "quote_char c =
     (if url_safe c then [c]
      else if c = CHR '' '' then ''+''
      else concat (map percent (utf8_bytes c)))"

definition quote_plus :: "string \<Rightarrow> string" where
  "quote_plus s = concat (map quote_char s)"

definition database_url :: "(int \<Rightarrow> string) \<Rightarrow> string \<Rightarrow> settings \<Rightarrow> string" where
  "database_url str driver s =
     ''mysql+'' @ driver @ ''://''
       @ (if mysql_password s \<noteq> []
          then quote_plus (mysql_user s) @ '':'' @ quote_plus (mysql_password s)
          else quote_plus (mysql_user s))
       @ ''@'' @ mysql_host s @ '':'' @ str (mysql_port s) @ ''/'' @ mysql_db s"

subsection \<open>The statement bound\<close>

text \<open>The start-up checks of the engine and the server bound they build. A statement timeout of at
  least a millisecond becomes a positive bound, never above the timeout and less than a millisecond
  below it; but a positive timeout under a millisecond passes the check and is cut to zero, which MySQL
  reads as no limit at all.\<close>

theorem statement_bound:
  assumes "build_engine_kwargs s = Inr k"
  shows "(1 / 1000 \<le> db_statement_timeout_seconds s \<longleftrightarrow> 1 \<le> max_execution_time_ms k)
    \<and> of_int (max_execution_time_ms k) \<le> db_statement_timeout_seconds s * 1000
    \<and> db_statement_timeout_seconds s * 1000 < of_int (max_execution_time_ms k) + 1
    \<and> (0 < db_statement_timeout_seconds s \<and> db_statement_timeout_seconds s < 1 / 1000
        \<longrightarrow> max_execution_time_ms k = 0)"
proof -
  from assms have k: "max_execution_time_ms k = \<lfloor>db_statement_timeout_seconds s * 1000\<rfloor>"
    and p: "0 < db_statement_timeout_seconds s"
    by (auto simp: build_engine_kwargs_Inr py_int_of_float_def)
  let ?x = "db_statement_timeout_seconds s * 1000"
  have "1 \<le> \<lfloor>?x\<rfloor> \<longleftrightarrow> 1 \<le> ?x" by (simp add: le_floor_iff)
  moreover have "of_int \<lfloor>?x\<rfloor> \<le> ?x" "?x < of_int \<lfloor>?x\<rfloor> + 1" by linarith+
  moreover have "\<lfloor>?x\<rfloor> = 0" if "?x < 1" using that p by (simp add: floor_eq_iff)
  ultimately show ?thesis unfolding k by (simp add: field_simps)
qed

theorem statement_bound_witness:
  "\<exists>k. build_engine_kwargs (default_settings\<lparr>db_statement_timeout_seconds := 1 / 2000\<rparr>) = Inr k
     \<and> max_execution_time_ms k = 0"
proof -
  obtain k where k: "build_engine_kwargs (default_settings\<lparr>db_statement_timeout_seconds := 1 / 2000\<rparr>) = Inr k"
    by (simp add: build_engine_kwargs_def default_settings_def)
  from statement_bound [OF this] k show ?thesis by simp
qed

end
