(* ===== verification/Policy.thy ===== *)
theory Policy
  imports Settings
begin

text \<open>
  \<open>app/resilience/policy.py\<close>: the budget of each dependency, validated before use. The checks run
  in the order of the source and the first that fails names its environment variable; the message of
  the last one, which quotes numbers, is kept to its first clause.
\<close>

record dependency_policy =
  pol_name :: string
  call_timeout_seconds :: seconds
  attempts :: int
  backoff_base_seconds :: seconds
  backoff_max_seconds :: seconds
  pol_failure_threshold :: int
  pol_reset_seconds :: seconds
  pol_half_open_max_calls :: int

text \<open>The longest wait after attempt number \<open>index + 1\<close>, under full jitter.\<close>

definition backoff_bound :: "dependency_policy \<Rightarrow> nat \<Rightarrow> seconds" where
  "backoff_bound p index = min (backoff_base_seconds p * 2 ^ index) (backoff_max_seconds p)"

definition worst_case_backoff_seconds :: "dependency_policy \<Rightarrow> seconds" where
  "worst_case_backoff_seconds p =
     sum_list (map (backoff_bound p) [0..<nat (max (attempts p - 1) 0)])"

definition require_positive :: "rat \<Rightarrow> string \<Rightarrow> string \<Rightarrow> (exn + 'a) \<Rightarrow> exn + 'a" where
  "require_positive value variable reason k =
     (if value \<le> 0 then Inl (ValueError (variable @ '' must be positive; '' @ reason)) else k)"

definition database_policy :: "settings \<Rightarrow> dependency_policy" where
  "database_policy s =
     \<lparr>pol_name = ''mysql'', call_timeout_seconds = db_call_timeout_seconds s,
      attempts = db_retry_attempts s,
      backoff_base_seconds = retry_backoff_base_seconds s,
      backoff_max_seconds = retry_backoff_max_seconds s,
      pol_failure_threshold = breaker_failure_threshold s,
      pol_reset_seconds = breaker_reset_seconds s,
      pol_half_open_max_calls = breaker_half_open_max_calls s\<rparr>"

definition cache_policy :: "settings \<Rightarrow> dependency_policy" where
  "cache_policy s =
     \<lparr>pol_name = ''redis'', call_timeout_seconds = redis_socket_timeout s, attempts = 1,
      backoff_base_seconds = retry_backoff_base_seconds s,
      backoff_max_seconds = retry_backoff_max_seconds s,
      pol_failure_threshold = breaker_failure_threshold s,
      pol_reset_seconds = breaker_reset_seconds s,
      pol_half_open_max_calls = breaker_half_open_max_calls s\<rparr>"

definition build_policies :: "settings \<Rightarrow> exn + (string \<rightharpoonup> dependency_policy)" where
  "build_policies s =
     require_positive (db_connect_timeout_seconds s) ''DB_CONNECT_TIMEOUT_SECONDS'' 
       (''aiomysql reads a non-positive value as no timeout, so a blackholed host holds the '' @
        ''request until the kernel gives up.'') (
     require_positive (db_statement_timeout_seconds s) ''DB_STATEMENT_TIMEOUT_SECONDS'' 
       (''MySQL reads max_execution_time=0 as no limit, so a runaway query keeps its '' @
        ''connection until it finishes.'') (
     require_positive (db_call_timeout_seconds s) ''DB_CALL_TIMEOUT_SECONDS'' 
       (''a call with no ceiling turns one unresponsive dependency into an unresponsive API.'') (
     require_positive (redis_socket_timeout s) ''REDIS_SOCKET_TIMEOUT'' 
       (''an unbounded cache read makes the cache a dependency instead of an optimization.'') (
     require_positive (retry_backoff_base_seconds s) ''RETRY_BACKOFF_BASE_SECONDS'' 
       (''a zero base retries at once, which adds load to a dependency that is already failing.'') (
     require_positive (breaker_reset_seconds s) ''BREAKER_RESET_SECONDS'' 
       (''an open circuit that never probes never closes.'') (
     if db_retry_attempts s < 1
     then Inl (ValueError (''DB_RETRY_ATTEMPTS must be at least 1; it counts attempts, not retries, so a '' @
       ''value below 1 makes no call at all.''))
     else if breaker_failure_threshold s < 1
     then Inl (ValueError (''BREAKER_FAILURE_THRESHOLD must be at least 1; a threshold of 0 opens the circuit '' @
       ''before anything fails.''))
     else if breaker_half_open_max_calls s < 1
     then Inl (ValueError (''BREAKER_HALF_OPEN_MAX_CALLS must be at least 1; a half-open circuit that admits '' @
       ''no probe never learns that the dependency came back.''))
     else if retry_backoff_max_seconds s < retry_backoff_base_seconds s
     then Inl (ValueError (''RETRY_BACKOFF_MAX_SECONDS must not be below RETRY_BACKOFF_BASE_SECONDS; the cap '' @
       ''would silently replace the base and every wait would be the same length.''))
     else if db_call_timeout_seconds s \<le> db_statement_timeout_seconds s
     then Inl (ValueError (''DB_CALL_TIMEOUT_SECONDS must exceed DB_STATEMENT_TIMEOUT_SECONDS; otherwise the '' @
       ''client abandons the query before the server kills it, and the connection stays '' @
       ''pinned to work nobody is waiting for.''))
     else let database = database_policy s in
       if call_timeout_seconds database \<le> worst_case_backoff_seconds database
       then Inl (ValueError ''DB_RETRY_ATTEMPTS is too high for the budget'')
       else Inr [''mysql'' \<mapsto> database, ''redis'' \<mapsto> cache_policy s]))))))"

definition get_policy :: "string \<Rightarrow> settings \<Rightarrow> exn + dependency_policy" where
  "get_policy dependency s =
     sum_bind (build_policies s)
       (\<lambda>policies. case policies dependency of None \<Rightarrow> Inl (KeyError dependency) | Some p \<Rightarrow> Inr p)"

subsection \<open>What an accepted policy promises\<close>

definition policy_ok :: "dependency_policy \<Rightarrow> bool" where
  "policy_ok p \<longleftrightarrow>
     0 < call_timeout_seconds p \<and> 1 \<le> attempts p
     \<and> 0 < backoff_base_seconds p \<and> backoff_base_seconds p \<le> backoff_max_seconds p
     \<and> 1 \<le> pol_failure_threshold p \<and> 0 < pol_reset_seconds p \<and> 1 \<le> pol_half_open_max_calls p
     \<and> worst_case_backoff_seconds p < call_timeout_seconds p"

lemma require_positive_Inr:
  "require_positive v n reason k = Inr r \<longleftrightarrow> 0 < v \<and> k = Inr r"
  by (auto simp: require_positive_def)

lemma worst_case_single [simp]:
  "attempts p \<le> 1 \<Longrightarrow> worst_case_backoff_seconds p = 0"
  by (simp add: worst_case_backoff_seconds_def)

lemma backoff_bound_nonneg: "policy_ok p \<Longrightarrow> 0 \<le> backoff_bound p i"
  by (simp add: policy_ok_def backoff_bound_def)

lemma build_policies_accepted:
  assumes "build_policies s = Inr ps"
  shows "ps ''mysql'' = Some (database_policy s) \<and> policy_ok (database_policy s)
    \<and> ps ''redis'' = Some (cache_policy s) \<and> policy_ok (cache_policy s)
    \<and> attempts (cache_policy s) = 1 \<and> dom ps = {''mysql'', ''redis''}
    \<and> db_statement_timeout_seconds s < call_timeout_seconds (database_policy s)"
  using assms
  by (auto simp: build_policies_def require_positive_Inr Let_def policy_ok_def database_policy_def
      cache_policy_def split: if_splits)

lemma build_policies_accepts:
  "(\<exists>ps. build_policies s = Inr ps) \<longleftrightarrow>
     0 < db_connect_timeout_seconds s \<and> 0 < db_statement_timeout_seconds s
     \<and> 0 < db_call_timeout_seconds s \<and> 0 < redis_socket_timeout s
     \<and> 0 < retry_backoff_base_seconds s \<and> 0 < breaker_reset_seconds s
     \<and> 1 \<le> db_retry_attempts s \<and> 1 \<le> breaker_failure_threshold s
     \<and> 1 \<le> breaker_half_open_max_calls s
     \<and> retry_backoff_base_seconds s \<le> retry_backoff_max_seconds s
     \<and> db_statement_timeout_seconds s < db_call_timeout_seconds s
     \<and> worst_case_backoff_seconds (database_policy s) < db_call_timeout_seconds s"
  by (auto simp: build_policies_def require_positive_def Let_def database_policy_def not_less
      not_le)

lemma default_worst_case: "worst_case_backoff_seconds (database_policy default_settings) = 1 / 20"
  by (simp add: worst_case_backoff_seconds_def backoff_bound_def database_policy_def
      default_settings_def)

lemma build_policies_default:
  "build_policies default_settings =
     Inr [''mysql'' \<mapsto> database_policy default_settings, ''redis'' \<mapsto> cache_policy default_settings]"
  using default_worst_case
  by (simp add: build_policies_def require_positive_def Let_def)
    (simp add: database_policy_def default_settings_def)

text \<open>The start-up check accepts exactly the settings whose every ceiling is positive, whose
  counts are at least one, whose backoff cap is not below its base and whose call timeout exceeds
  both the statement timeout and the longest total wait. The two policies it then returns are sound:
  every bound is positive, at least one attempt and one probe are allowed, and the waits between
  attempts fit inside the call budget. The server kills a statement before the client abandons the
  call, and the cache never retries.\<close>

theorem build_policies_sound:
  "((\<exists>ps. build_policies s = Inr ps) \<longleftrightarrow>
     0 < db_connect_timeout_seconds s \<and> 0 < db_statement_timeout_seconds s
     \<and> 0 < db_call_timeout_seconds s \<and> 0 < redis_socket_timeout s
     \<and> 0 < retry_backoff_base_seconds s \<and> 0 < breaker_reset_seconds s
     \<and> 1 \<le> db_retry_attempts s \<and> 1 \<le> breaker_failure_threshold s
     \<and> 1 \<le> breaker_half_open_max_calls s
     \<and> retry_backoff_base_seconds s \<le> retry_backoff_max_seconds s
     \<and> db_statement_timeout_seconds s < db_call_timeout_seconds s
     \<and> worst_case_backoff_seconds (database_policy s) < db_call_timeout_seconds s)
   \<and> (\<forall>ps. build_policies s = Inr ps \<longrightarrow>
        ps ''mysql'' = Some (database_policy s) \<and> policy_ok (database_policy s)
        \<and> ps ''redis'' = Some (cache_policy s) \<and> policy_ok (cache_policy s)
        \<and> attempts (cache_policy s) = 1 \<and> dom ps = {''mysql'', ''redis''}
        \<and> db_statement_timeout_seconds s < call_timeout_seconds (database_policy s))"
proof (rule conjI)
  show "\<forall>ps. build_policies s = Inr ps \<longrightarrow>
        ps ''mysql'' = Some (database_policy s) \<and> policy_ok (database_policy s)
        \<and> ps ''redis'' = Some (cache_policy s) \<and> policy_ok (cache_policy s)
        \<and> attempts (cache_policy s) = 1 \<and> dom ps = {''mysql'', ''redis''}
        \<and> db_statement_timeout_seconds s < call_timeout_seconds (database_policy s)"
    by (intro allI impI) (rule build_policies_accepted)
qed (rule build_policies_accepts)

theorem build_policies_sound_witness:
  "policy_ok (database_policy default_settings) \<and> policy_ok (cache_policy default_settings)"
  using conjunct2 [OF build_policies_sound, rule_format, OF build_policies_default] by simp

end
