(* ===== verification/Metrics.thy ===== *)
theory Metrics
  imports PyText
begin

text \<open>
  \<open>app/observability/metrics.py\<close>: the closed label sets, the bucketing functions that keep every
  label inside its set, and the calls the observers make on the Prometheus collectors.

  The Prometheus client is not part of the repository. An observer is therefore modelled by the
  collector calls it issues, in order (type \<open>metric_call\<close>), appended to a log; nothing is
  assumed of what the client does with them.
\<close>

datatype metric_call =
    CounterInc string "string list"          \<comment> \<open>\<open>counter.labels(...).inc()\<close>\<close>
  | GaugeSet string "string list" int        \<comment> \<open>\<open>gauge.labels(...).set(v)\<close>\<close>
  | GaugeInc string int                      \<comment> \<open>\<open>gauge.inc(delta)\<close>\<close>
  | HistogramObserve string "string list" seconds

type_synonym metric_log = "metric_call list"

subsection \<open>Closed label sets\<close>

definition METRICS_PATH :: string where "METRICS_PATH = ''/metrics''"

definition PROBE_PATHS :: "string set" where
  "PROBE_PATHS = {''/health/live'', ''/health/ready''}"

definition SQL_OPERATIONS :: "string set" where
  "SQL_OPERATIONS = {''select'', ''insert'', ''update'', ''delete'', ''other''}"

definition CACHE_ENTITIES :: "string set" where
  "CACHE_ENTITIES = {''article'', ''list'', ''other''}"

definition CACHE_OPERATIONS :: "string set" where
  "CACHE_OPERATIONS = {''get'', ''set'', ''delete'', ''incr'', ''lock'', ''other''}"

definition DEPENDENCIES :: "string set" where
  "DEPENDENCIES = {''mysql'', ''redis'', ''other''}"

definition RETRY_OUTCOMES :: "string set" where
  "RETRY_OUTCOMES = {''success'', ''exhausted'', ''other''}"

definition DEGRADED_REASONS :: "string set" where
  "DEGRADED_REASONS = {''load_shed'', ''breaker_open'', ''upstream_timeout'', ''other''}"

definition BREAKER_STATE_VALUES :: "string \<Rightarrow> int option" where
  "BREAKER_STATE_VALUES = [''closed'' \<mapsto> 0, ''half_open'' \<mapsto> 1, ''open'' \<mapsto> 2]"

definition BREAKER_STATES :: "string set" where
  "BREAKER_STATES = {''closed'', ''half_open'', ''open'', ''other''}"

definition cache_entity :: "string \<Rightarrow> string" where
  "cache_entity entity = (if entity \<in> CACHE_ENTITIES then entity else ''other'')"

definition cache_operation :: "string \<Rightarrow> string" where
  "cache_operation operation = (if operation \<in> CACHE_OPERATIONS then operation else ''other'')"

definition dependency_label :: "string \<Rightarrow> string" where
  "dependency_label dependency = (if dependency \<in> DEPENDENCIES then dependency else ''other'')"

definition retry_outcome :: "string \<Rightarrow> string" where
  "retry_outcome outcome = (if outcome \<in> RETRY_OUTCOMES then outcome else ''other'')"

definition breaker_state_label :: "string \<Rightarrow> string" where
  "breaker_state_label state = (if state \<in> BREAKER_STATES then state else ''other'')"

definition degraded_reason :: "string \<Rightarrow> string" where
  "degraded_reason reason = (if reason \<in> DEGRADED_REASONS then reason else ''other'')"

text \<open>
  The six functions above share one contract: a bucketing function maps into a closed set and
  leaves the members of the set alone.
\<close>

locale label_bucket =
  fixes labels :: "string set" and bucket :: "string \<Rightarrow> string"
  assumes other_label: "''other'' \<in> labels"
    and bucket_def: "bucket x = (if x \<in> labels then x else ''other'')"
begin

lemma closed: "bucket x \<in> labels"
  by (simp add: bucket_def other_label)

lemma keeps: "x \<in> labels \<Longrightarrow> bucket x = x"
  by (simp add: bucket_def)

lemma idem: "bucket (bucket x) = bucket x"
  by (rule keeps) (rule closed)

lemma range_bucket: "range bucket = labels"
  using closed keeps by (metis image_subset_iff rangeI subsetI subset_antisym)

end

interpretation entity_bucket: label_bucket CACHE_ENTITIES cache_entity
  by unfold_locales (simp_all add: CACHE_ENTITIES_def cache_entity_def)

interpretation operation_bucket: label_bucket CACHE_OPERATIONS cache_operation
  by unfold_locales (simp_all add: CACHE_OPERATIONS_def cache_operation_def)

interpretation dependency_bucket: label_bucket DEPENDENCIES dependency_label
  by unfold_locales (simp_all add: DEPENDENCIES_def dependency_label_def)

interpretation outcome_bucket: label_bucket RETRY_OUTCOMES retry_outcome
  by unfold_locales (simp_all add: RETRY_OUTCOMES_def retry_outcome_def)

interpretation breaker_bucket: label_bucket BREAKER_STATES breaker_state_label
  by unfold_locales (simp_all add: BREAKER_STATES_def breaker_state_label_def)

interpretation reason_bucket: label_bucket DEGRADED_REASONS degraded_reason
  by unfold_locales (simp_all add: DEGRADED_REASONS_def degraded_reason_def)

subsection \<open>The SQL verb bucket\<close>

text \<open>
  The regular expression \<open>_LEADING_NOISE\<close> matches, at the start of the statement, a run of white
  space, block comments (to the first closing mark), line comments (with their newline) and
  opening parentheses. \<open>strip_noise\<close> removes the same prefix one alternative at a time; an
  unclosed block comment ends the run, as it does in the expression.
\<close>

text \<open>The text after the first \<open>*/\<close>, if there is one.\<close>

fun after_close :: "string \<Rightarrow> string option" where
  "after_close (a # b # s) =
     (if a = CHR ''*'' \<and> b = CHR ''/'' then Some s else after_close (b # s))"
| "after_close _ = None"

lemma after_close_length: "after_close s = Some t \<Longrightarrow> length t < length s"
  by (induction s rule: after_close.induct) (auto split: if_splits)

function strip_noise :: "string \<Rightarrow> string" where
  "strip_noise s =
     (case s of
        [] \<Rightarrow> []
      | c # r \<Rightarrow>
          if is_space c \<or> c = CHR ''('' then strip_noise r
          else if take 2 s = ''/*'' then
            (case after_close (drop 2 s) of None \<Rightarrow> s | Some t \<Rightarrow> strip_noise t)
          else if take 2 s = ''--'' then
            strip_noise (drop 1 (dropWhile (\<lambda>x. x \<noteq> CHR 0x0A) (drop 2 s)))
          else s)"
  by pat_completeness auto
termination
proof (relation "measure length", goal_cases)
  case 1
  then show ?case by simp
next
  case (2 s c r)
  then show ?case by simp
next
  case (3 s c r t)
  from after_close_length [OF 3(4)] have "length t < length (drop 2 s)" .
  then show ?case by simp
next
  case (4 s c r)
  have "length (dropWhile (\<lambda>x. x \<noteq> CHR 0x0A) (drop 2 s)) \<le> length (drop 2 s)"
    by (rule length_dropWhile_le)
  with 4 show ?case by simp
qed

definition sql_verb_alias :: "string \<Rightarrow> string" where
  "sql_verb_alias verb = (if verb = ''with'' then ''select'' else verb)"

text \<open>A statement that is not a string is bucketed as \<open>other\<close>; it is \<open>None\<close> here.\<close>

definition sql_operation :: "string option \<Rightarrow> string" where
  "sql_operation statement =
     (case statement of
        None \<Rightarrow> ''other''
      | Some s \<Rightarrow>
          (let word = takeWhile is_ascii_letter (strip_noise s) in
           if word = [] then ''other''
           else let verb = sql_verb_alias (lower word) in
             if verb \<in> SQL_OPERATIONS then verb else ''other''))"

declare strip_noise.simps [simp del]

lemma sql_operation_closed: "sql_operation s \<in> SQL_OPERATIONS"
  by (auto simp: sql_operation_def Let_def SQL_OPERATIONS_def split: option.splits)

lemma strip_noise_space: "is_space c \<Longrightarrow> strip_noise (c # s) = strip_noise s"
  by (subst strip_noise.simps) simp

lemma strip_noise_paren: "strip_noise (CHR ''('' # s) = strip_noise s"
  by (subst strip_noise.simps) simp

lemma after_close_append:
  "\<forall>c \<in> set xs. c \<noteq> CHR ''*'' \<Longrightarrow> after_close (xs @ ''*/'' @ s) = Some s"
proof (induction xs)
  case (Cons x xs)
  then show ?case by (cases "xs @ ''*/'' @ s") auto
qed simp

lemma strip_noise_block:
  assumes "\<forall>c \<in> set xs. c \<noteq> CHR ''*''"
  shows "strip_noise (''/*'' @ xs @ ''*/'' @ s) = strip_noise s"
  using after_close_append [OF assms, of s]
  by (subst strip_noise.simps) (simp add: is_space_def)

lemma strip_noise_line:
  assumes "\<forall>c \<in> set xs. c \<noteq> CHR 0x0A"
  shows "strip_noise (''--'' @ xs @ CHR 0x0A # s) = strip_noise s"
  using dropWhile_append_stop [of xs "\<lambda>x. x \<noteq> CHR 0x0A" "CHR 0x0A" s] assms
  by (subst strip_noise.simps) (simp add: is_space_def)

subsection \<open>The collectors and the observers\<close>

datatype collector_kind = Counter | Gauge | Histogram

text \<open>
  The bucket boundaries of the two latency histograms, \<open>None\<close> for infinity. They ascend, and the two
  bounds of the service level objective (200 ms and 450 ms) are edges, so that a quantile read at
  them is not interpolated.
\<close>

definition HTTP_LATENCY_BUCKETS :: "seconds option list" where
  "HTTP_LATENCY_BUCKETS =
     map Some [5 / 1000, 1 / 100, 25 / 1000, 5 / 100, 75 / 1000, 1 / 10, 15 / 100, 2 / 10, 3 / 10,
               45 / 100, 6 / 10, 1, 5 / 2, 5, 10] @ [None]"

definition DB_LATENCY_BUCKETS :: "seconds option list" where
  "DB_LATENCY_BUCKETS =
     map Some [1 / 1000, 25 / 10000, 5 / 1000, 1 / 100, 25 / 1000, 5 / 100, 1 / 10, 25 / 100, 5 / 10,
               1, 5 / 2] @ [None]"

definition ascending :: "seconds option list \<Rightarrow> bool" where
  "ascending bs \<longleftrightarrow>
     sorted_wrt (\<lambda>x y. case (x, y) of (Some a, Some b) \<Rightarrow> a < b | (Some _, None) \<Rightarrow> True | _ \<Rightarrow> False) bs"

lemma latency_buckets:
  "ascending HTTP_LATENCY_BUCKETS" "ascending DB_LATENCY_BUCKETS"
  "last HTTP_LATENCY_BUCKETS = None" "last DB_LATENCY_BUCKETS = None"
  "{Some (200 / 1000), Some (450 / 1000)} \<subseteq> set HTTP_LATENCY_BUCKETS"
  by (simp_all add: ascending_def HTTP_LATENCY_BUCKETS_def DB_LATENCY_BUCKETS_def)

text \<open>\<open>build_metrics\<close>: every collector with its kind and its label names.\<close>

definition build_metrics :: "(string \<times> collector_kind \<times> string list) list" where
  "build_metrics =
     [(''http_requests_total'', Counter, [''route'', ''method'', ''status'']),
      (''http_request_duration_seconds'', Histogram, [''route'', ''method'']),
      (''db_query_duration_seconds'', Histogram, [''query'']),
      (''cache_hits_total'', Counter, [''entity'']),
      (''cache_misses_total'', Counter, [''entity'']),
      (''cache_errors_total'', Counter, [''operation'']),
      (''dependency_timeouts_total'', Counter, [''dependency'']),
      (''dependency_retries_total'', Counter, [''dependency'', ''outcome'']),
      (''circuit_breaker_state'', Gauge, [''dependency'']),
      (''circuit_breaker_transitions_total'', Counter, [''dependency'', ''to_state'']),
      (''degraded_responses_total'', Counter, [''route'', ''reason'']),
      (''inflight_requests'', Gauge, [])]"

definition observe_request ::
  "string \<Rightarrow> string \<Rightarrow> string \<Rightarrow> seconds \<Rightarrow> metric_log \<Rightarrow> metric_log" where
  "observe_request route mthd status duration_seconds calls =
     calls @ [CounterInc ''http_requests_total'' [route, mthd, status],
            HistogramObserve ''http_request_duration_seconds'' [route, mthd]
              (max duration_seconds 0)]"

definition observe_cache_hit :: "string \<Rightarrow> metric_log \<Rightarrow> metric_log" where
  "observe_cache_hit entity calls = calls @ [CounterInc ''cache_hits_total'' [cache_entity entity]]"

definition observe_cache_miss :: "string \<Rightarrow> metric_log \<Rightarrow> metric_log" where
  "observe_cache_miss entity calls = calls @ [CounterInc ''cache_misses_total'' [cache_entity entity]]"

definition observe_cache_error :: "string \<Rightarrow> metric_log \<Rightarrow> metric_log" where
  "observe_cache_error operation calls =
     calls @ [CounterInc ''cache_errors_total'' [cache_operation operation]]"

definition observe_dependency_timeout :: "string \<Rightarrow> metric_log \<Rightarrow> metric_log" where
  "observe_dependency_timeout dependency calls =
     calls @ [CounterInc ''dependency_timeouts_total'' [dependency_label dependency]]"

definition observe_retry :: "string \<Rightarrow> string \<Rightarrow> metric_log \<Rightarrow> metric_log" where
  "observe_retry dependency outcome calls =
     calls @ [CounterInc ''dependency_retries_total''
              [dependency_label dependency, retry_outcome outcome]]"

definition set_breaker_state :: "string \<Rightarrow> string \<Rightarrow> metric_log \<Rightarrow> metric_log" where
  "set_breaker_state dependency state calls =
     (let label = breaker_state_label state in
      calls @ [GaugeSet ''circuit_breaker_state'' [dependency_label dependency]
               (case BREAKER_STATE_VALUES label of None \<Rightarrow> 0 | Some v \<Rightarrow> v)])"

definition observe_breaker_transition :: "string \<Rightarrow> string \<Rightarrow> metric_log \<Rightarrow> metric_log" where
  "observe_breaker_transition dependency to_state calls =
     set_breaker_state dependency to_state calls
       @ [CounterInc ''circuit_breaker_transitions_total''
            [dependency_label dependency, breaker_state_label to_state]]"

definition observe_degraded_response :: "string \<Rightarrow> string \<Rightarrow> metric_log \<Rightarrow> metric_log" where
  "observe_degraded_response route reason calls =
     calls @ [CounterInc ''degraded_responses_total'' [route, degraded_reason reason]]"

definition track_inflight :: "int \<Rightarrow> metric_log \<Rightarrow> metric_log" where
  "track_inflight delta calls = calls @ [GaugeInc ''inflight_requests'' delta]"

definition observe_query :: "string option \<Rightarrow> seconds \<Rightarrow> metric_log \<Rightarrow> metric_log" where
  "observe_query statement duration_seconds calls =
     calls @ [HistogramObserve ''db_query_duration_seconds'' [sql_operation statement]
              (max duration_seconds 0)]"

lemmas observer_defs =
  observe_request_def observe_cache_hit_def observe_cache_miss_def observe_cache_error_def
  observe_dependency_timeout_def observe_retry_def set_breaker_state_def
  observe_breaker_transition_def observe_degraded_response_def track_inflight_def
  observe_query_def

text \<open>A call conforms when it names a declared collector of its kind, with one value per label.\<close>

fun conforms :: "metric_call \<Rightarrow> bool" where
  "conforms (CounterInc n ls) =
     (\<exists>c \<in> set build_metrics. fst c = n \<and> fst (snd c) = Counter \<and> length (snd (snd c)) = length ls)"
| "conforms (GaugeSet n ls _) =
     (\<exists>c \<in> set build_metrics. fst c = n \<and> fst (snd c) = Gauge \<and> length (snd (snd c)) = length ls)"
| "conforms (GaugeInc n _) =
     (\<exists>c \<in> set build_metrics. fst c = n \<and> fst (snd c) = Gauge \<and> snd (snd c) = [])"
| "conforms (HistogramObserve n ls x) =
     ((\<exists>c \<in> set build_metrics.
         fst c = n \<and> fst (snd c) = Histogram \<and> length (snd (snd c)) = length ls)
      \<and> 0 \<le> x)"

definition log_conforms :: "metric_log \<Rightarrow> bool" where
  "log_conforms calls \<longleftrightarrow> (\<forall>c \<in> set calls. conforms c)"

lemma log_conforms_append [simp]:
  "log_conforms (xs @ ys) \<longleftrightarrow> log_conforms xs \<and> log_conforms ys"
  by (auto simp: log_conforms_def)

lemma log_conforms_Nil [simp]: "log_conforms []"
  by (simp add: log_conforms_def)

lemma observers_conform:
  assumes "log_conforms calls"
  shows "log_conforms (observe_request route mthd status d calls)"
    and "log_conforms (observe_cache_hit e calls)"
    and "log_conforms (observe_cache_miss e calls)"
    and "log_conforms (observe_cache_error op calls)"
    and "log_conforms (observe_dependency_timeout dep calls)"
    and "log_conforms (observe_retry dep out calls)"
    and "log_conforms (set_breaker_state dep st calls)"
    and "log_conforms (observe_breaker_transition dep st calls)"
    and "log_conforms (observe_degraded_response route reason calls)"
    and "log_conforms (track_inflight delta calls)"
    and "log_conforms (observe_query stmt d calls)"
  using assms by (simp_all add: observer_defs Let_def log_conforms_def build_metrics_def)

text \<open>
  The values a label may take. The templates of the routes and the methods of HTTP are given; the
  statuses are those the service answers, and those the framework answers for it (a redirect, an
  unknown path, a known path with another method).
\<close>

definition answered_statuses :: "int set" where
  "answered_statuses = {200, 201, 204, 307, 401, 403, 404, 405, 409, 422, 500, 503, 504}"

definition label_domain :: "string set \<Rightarrow> string set \<Rightarrow> string \<Rightarrow> string set" where
  "label_domain routes methods label =
     (if label = ''route'' then routes else if label = ''method'' then methods
      else if label = ''status'' then str_int ` answered_statuses
      else if label = ''query'' then SQL_OPERATIONS else if label = ''entity'' then CACHE_ENTITIES
      else if label = ''operation'' then CACHE_OPERATIONS
      else if label = ''dependency'' then DEPENDENCIES else if label = ''outcome'' then RETRY_OUTCOMES
      else if label = ''to_state'' then BREAKER_STATES
      else if label = ''reason'' then DEGRADED_REASONS else {})"

text \<open>The series a call touches, and the series there can be.\<close>

fun series_of :: "metric_call \<Rightarrow> collector_kind \<times> string \<times> string list" where
  "series_of (CounterInc n ls) = (Counter, n, ls)"
| "series_of (GaugeSet n ls _) = (Gauge, n, ls)"
| "series_of (GaugeInc n _) = (Gauge, n, [])"
| "series_of (HistogramObserve n ls _) = (Histogram, n, ls)"

definition declared_series ::
  "string set \<Rightarrow> string set \<Rightarrow> (collector_kind \<times> string \<times> string list) set" where
  "declared_series routes methods =
     (\<Union>(n, k, labels) \<in> set build_metrics.
        (\<lambda>values. (k, n, values)) ` listset (map (label_domain routes methods) labels))"

definition labelled :: "string set \<Rightarrow> string set \<Rightarrow> metric_call \<Rightarrow> bool" where
  "labelled routes methods c \<longleftrightarrow> series_of c \<in> declared_series routes methods"

lemma declared_iff:
  "(k, n, values) \<in> declared_series routes methods \<longleftrightarrow>
     (\<exists>c \<in> set build_metrics. fst c = n \<and> fst (snd c) = k
        \<and> values \<in> listset (map (label_domain routes methods) (snd (snd c))))"
  by (force simp: declared_series_def)

lemma labelled_calls [simp]:
  "labelled R M (CounterInc ''cache_hits_total'' [cache_entity e])"
  "labelled R M (CounterInc ''cache_misses_total'' [cache_entity e])"
  "labelled R M (CounterInc ''cache_errors_total'' [cache_operation p])"
  "labelled R M (CounterInc ''dependency_timeouts_total'' [dependency_label d])"
  "labelled R M (CounterInc ''dependency_retries_total'' [dependency_label d, retry_outcome r])"
  "labelled R M (GaugeSet ''circuit_breaker_state'' [dependency_label d] x)"
  "labelled R M (CounterInc ''circuit_breaker_transitions_total''
     [dependency_label d, breaker_state_label st])"
  "labelled R M (GaugeInc ''inflight_requests'' y)"
  "labelled R M (HistogramObserve ''db_query_duration_seconds'' [sql_operation q] z)"
  unfolding labelled_def series_of.simps
  by (simp_all add: declared_iff build_metrics_def label_domain_def set_Cons_def entity_bucket.closed
      operation_bucket.closed dependency_bucket.closed outcome_bucket.closed breaker_bucket.closed
      sql_operation_closed)

lemma labelled_route_calls:
  assumes "route \<in> R"
  shows "labelled R M (CounterInc ''degraded_responses_total'' [route, degraded_reason reason])"
    and "verb \<in> M \<Longrightarrow> status \<in> answered_statuses \<Longrightarrow>
      labelled R M (CounterInc ''http_requests_total'' [route, verb, str_int status])"
    and "verb \<in> M \<Longrightarrow>
      labelled R M (HistogramObserve ''http_request_duration_seconds'' [route, verb] z)"
  unfolding labelled_def series_of.simps
  using assms
  by (simp_all add: declared_iff build_metrics_def label_domain_def set_Cons_def reason_bucket.closed)

text \<open>How many there are: the product of the sizes of the label sets, added over the collectors.\<close>

lemma listset_size:
  assumes "\<forall>A \<in> set As. finite A"
  shows "finite (listset As) \<and> card (listset As) = prod_list (map card As)"
  using assms
proof (induction As)
  case (Cons A As)
  have "listset (A # As) = (\<lambda>(x, xs). x # xs) ` (A \<times> listset As)"
    by (auto simp: set_Cons_def)
  moreover have "inj_on (\<lambda>(x, xs). x # xs) (A \<times> listset As)" by (auto simp: inj_on_def)
  ultimately show ?case using Cons by (simp add: card_image card_cartesian_product)
qed simp

lemma closed_sets:
  "finite answered_statuses" "card (str_int ` answered_statuses) \<le> 13"
  "finite SQL_OPERATIONS" "card SQL_OPERATIONS = 5" "finite CACHE_ENTITIES" "card CACHE_ENTITIES = 3"
  "finite CACHE_OPERATIONS" "card CACHE_OPERATIONS = 6" "finite DEPENDENCIES" "card DEPENDENCIES = 3"
  "finite RETRY_OUTCOMES" "card RETRY_OUTCOMES = 3" "finite BREAKER_STATES" "card BREAKER_STATES = 4"
  "finite DEGRADED_REASONS" "card DEGRADED_REASONS = 4"
proof -
  have "card (str_int ` answered_statuses) \<le> card answered_statuses"
    by (rule card_image_le) (simp add: answered_statuses_def)
  then show "card (str_int ` answered_statuses) \<le> 13" by (simp add: answered_statuses_def)
qed (auto simp: answered_statuses_def SQL_OPERATIONS_def CACHE_ENTITIES_def CACHE_OPERATIONS_def
    DEPENDENCIES_def RETRY_OUTCOMES_def BREAKER_STATES_def BREAKER_STATE_VALUES_def
    DEGRADED_REASONS_def dom_def)

lemma declared_series_bounded:
  assumes "finite R" and "finite M"
  shows "finite (declared_series R M)
    \<and> card (declared_series R M) \<le> 14 * (card R * card M) + 4 * card R + 45"
proof -
  let ?part = "\<lambda>(n, k, labels). (\<lambda>values. (k, n, values)) ` listset (map (label_domain R M) labels)"
  let ?size = "\<lambda>(n, k, labels). prod_list (map (\<lambda>l. card (label_domain R M l)) labels)"
  have fin: "finite (label_domain R M l)" for l
    using assms closed_sets by (simp add: label_domain_def)
  then have part: "finite (?part c) \<and> card (?part c) \<le> ?size c" for c
    using listset_size [of "map (label_domain R M) (snd (snd c))"]
      card_image_le [of "listset (map (label_domain R M) (snd (snd c)))" "\<lambda>values. (fst (snd c), fst c, values)"]
    by (auto simp: case_prod_beta comp_def)
  have total: "card (\<Union> (?part ` set cs)) \<le> sum_list (map ?size cs)" for cs
  proof (induction cs)
    case (Cons c cs)
    have "card (?part c \<union> \<Union> (?part ` set cs)) \<le> card (?part c) + card (\<Union> (?part ` set cs))"
      by (rule card_Un_le)
    with Cons part [of c] show ?case by simp
  qed simp
  moreover have "sum_list (map ?size build_metrics)
      = card R * (card M * card (str_int ` answered_statuses)) + card R * card M + card R * 4 + 45"
    by (simp add: build_metrics_def label_domain_def closed_sets)
  moreover have "card R * (card M * card (str_int ` answered_statuses)) \<le> card R * (card M * 13)"
    using closed_sets(2) by (intro mult_le_mono le_refl)
  ultimately have "card (declared_series R M) \<le> 14 * (card R * card M) + 4 * card R + 45"
    unfolding declared_series_def using total [of build_metrics] by linarith
  moreover have "finite (declared_series R M)"
    unfolding declared_series_def using part by (intro finite_UN_I) blast+
  ultimately show ?thesis by simp
qed

subsection \<open>The connection pool collector\<close>

definition POOL_STATES :: "string list" where
  "POOL_STATES = [''in_use'', ''available'', ''overflow'']"

text \<open>
  \<open>_PoolCollector.collect\<close>: the argument is what the pool reports (\<open>checkedout\<close>, \<open>checkedin\<close>,
  \<open>overflow\<close>), or \<open>None\<close> when reading it raised; the result is the samples of the one gauge, or
  no metric at all.
\<close>

definition pool_collect :: "(int \<times> int \<times> int) option \<Rightarrow> (string \<times> int) list option" where
  "pool_collect pool =
     (case pool of
        None \<Rightarrow> None
      | Some (checkedout, checkedin, overflow) \<Rightarrow>
          Some (zip POOL_STATES [checkedout, checkedin, max 0 overflow]))"

text \<open>\<open>register_pool_metrics\<close>: a registry is the list of the kinds of its collectors.\<close>

datatype collector = PoolCollector | OtherCollector string

definition register_pool_metrics :: "collector list \<Rightarrow> collector list" where
  "register_pool_metrics registry =
     (if PoolCollector \<in> set registry then registry else registry @ [PoolCollector])"

lemma register_pool_metrics_idem:
  "register_pool_metrics (register_pool_metrics r) = register_pool_metrics r"
  by (simp add: register_pool_metrics_def)

subsection \<open>Timing of statements\<close>

text \<open>
  \<open>attach_query_metrics\<close>: an engine holds the flag and how many pairs of listeners it calls; the pair
  keeps the start of a statement in \<open>conn.info\<close>, here \<open>None\<close> when the key is absent.
\<close>

record engine_hooks =
  listeners_attached :: bool
  listener_pairs :: nat

definition attach_query_metrics :: "engine_hooks \<Rightarrow> engine_hooks" where
  "attach_query_metrics e =
     (if listeners_attached e then e
      else e\<lparr>listener_pairs := listener_pairs e + 1, listeners_attached := True\<rparr>)"

datatype cursor_event =
    BeforeCursor seconds                        \<comment> \<open>the reading of \<open>perf_counter\<close>\<close>
  | AfterCursor "string option" seconds

definition before_cursor_execute :: "seconds \<Rightarrow> seconds option \<Rightarrow> seconds option" where
  "before_cursor_execute t started = Some t"

definition after_cursor_execute ::
  "string option \<Rightarrow> seconds \<Rightarrow> seconds option \<Rightarrow> metric_log \<Rightarrow> seconds option \<times> metric_log" where
  "after_cursor_execute statement t started calls =
     (None, case started of None \<Rightarrow> calls | Some s \<Rightarrow> observe_query statement (t - s) calls)"

fun cursor_events :: "cursor_event list \<Rightarrow> seconds option \<Rightarrow> metric_log \<Rightarrow> seconds option \<times> metric_log" where
  "cursor_events [] started calls = (started, calls)"
| "cursor_events (BeforeCursor t # es) started calls =
     cursor_events es (before_cursor_execute t started) calls"
| "cursor_events (AfterCursor statement t # es) started calls =
     (let (started', calls') = after_cursor_execute statement t started calls in
      cursor_events es started' calls')"

text \<open>
  What one connection sees of a statement: it begins, and ends at a later reading of the clock, or it
  fails, and only its beginning is seen.
\<close>

record statement_run =
  run_text :: "string option"
  run_begin :: seconds
  run_end :: "seconds option"

fun events_of :: "statement_run list \<Rightarrow> cursor_event list" where
  "events_of [] = []"
| "events_of (r # rs) =
     (case run_end r of
        None \<Rightarrow> [BeforeCursor (run_begin r)]
      | Some t \<Rightarrow> [BeforeCursor (run_begin r), AfterCursor (run_text r) t]) @ events_of rs"

fun timings :: "statement_run list \<Rightarrow> metric_log" where
  "timings [] = []"
| "timings (r # rs) =
     (case run_end r of
        None \<Rightarrow> []
      | Some t \<Rightarrow>
          [HistogramObserve ''db_query_duration_seconds'' [sql_operation (run_text r)]
             (max (t - run_begin r) 0)]) @ timings rs"

lemma cursor_events_append:
  "cursor_events (es @ es') started calls =
     (case cursor_events es started calls of (s, c) \<Rightarrow> cursor_events es' s c)"
  by (induction es started calls rule: cursor_events.induct) (auto split: prod.split)

text \<open>Every statement that completes is timed exactly once, with its own start: a statement that
  failed in between, and left its start behind on the connection, never lends it to the next. Attaching
  the listeners again, as every construction of the engine does, does not double the counts.\<close>

theorem statements_timed_once:
  "snd (cursor_events (events_of rs) started calls) = calls @ timings rs
   \<and> listener_pairs (attach_query_metrics (attach_query_metrics e)) = listener_pairs (attach_query_metrics e)
   \<and> (\<forall>c \<in> set (timings rs). conforms c)"
proof (intro conjI)
  show "snd (cursor_events (events_of rs) started calls) = calls @ timings rs"
  proof (induction rs arbitrary: started calls)
    case (Cons r rs)
    then show ?case
      by (cases "run_end r")
        (simp_all add: before_cursor_execute_def after_cursor_execute_def observe_query_def)
  qed simp
  show "listener_pairs (attach_query_metrics (attach_query_metrics e)) = listener_pairs (attach_query_metrics e)"
    by (simp add: attach_query_metrics_def)
  show "\<forall>c \<in> set (timings rs). conforms c"
    by (induction rs) (auto simp: build_metrics_def split: option.split)
qed

theorem statements_timed_once_witness:
  "\<exists>c \<in> set (timings
      [\<lparr>run_text = Some ''SELECT 1'', run_begin = 1, run_end = None\<rparr>,
       \<lparr>run_text = Some ''select 2'', run_begin = 5, run_end = Some 7\<rparr>]).
     conforms c \<and> c = HistogramObserve ''db_query_duration_seconds'' [''select''] 2"
proof -
  let ?rs = "[\<lparr>run_text = Some ''SELECT 1'', run_begin = 1, run_end = None\<rparr>,
       \<lparr>run_text = Some ''select 2'', run_begin = 5, run_end = Some 7\<rparr>]"
  have "sql_operation (Some ''select 2'') = ''select''" by code_simp
  then have m: "HistogramObserve ''db_query_duration_seconds'' [''select''] 2 \<in> set (timings ?rs)" by simp
  with statements_timed_once [of ?rs None "[]" "\<lparr>listeners_attached = False, listener_pairs = 0\<rparr>"]
  show ?thesis by blast
qed

end
