(* ===== verification/Breaker.thy ===== *)
theory Breaker
  imports Metrics
begin

text \<open>
  \<open>app/resilience/breaker.py\<close>: the circuit breaker, one method per definition. The monotonic
  clock is injected in the source and an argument here; it is read once per method call. The field
  \<open>cb_metrics\<close> holds the calls this breaker has made on its \<open>_metrics\<close> object.
\<close>

datatype breaker_state = CLOSED | OPEN | HALF_OPEN

fun state_value :: "breaker_state \<Rightarrow> string" where
  "state_value CLOSED = ''closed''"
| "state_value OPEN = ''open''"
| "state_value HALF_OPEN = ''half_open''"

record circuit_breaker =
  cb_name :: string
  failure_threshold :: int
  reset_seconds :: seconds
  half_open_max_calls :: int
  cb_state :: breaker_state
  failures :: int
  opened_at :: seconds
  probes :: int
  cb_metrics :: metric_log

definition new_breaker ::
  "string \<Rightarrow> int \<Rightarrow> seconds \<Rightarrow> int \<Rightarrow> metric_log \<Rightarrow> circuit_breaker" where
  "new_breaker name threshold reset max_calls calls =
     \<lparr>cb_name = name, failure_threshold = threshold, reset_seconds = reset,
      half_open_max_calls = max_calls, cb_state = CLOSED, failures = 0, opened_at = 0, probes = 0,
      cb_metrics = set_breaker_state name (state_value CLOSED) calls\<rparr>"

definition transition :: "circuit_breaker \<Rightarrow> circuit_breaker" where
  "transition b =
     b\<lparr>cb_metrics := observe_breaker_transition (cb_name b) (state_value (cb_state b)) (cb_metrics b)\<rparr>"

definition to_open :: "seconds \<Rightarrow> circuit_breaker \<Rightarrow> circuit_breaker" where
  "to_open now b =
     transition (b\<lparr>cb_state := OPEN, opened_at := now, probes := 0, failures := 0\<rparr>)"

definition to_half_open :: "circuit_breaker \<Rightarrow> circuit_breaker" where
  "to_half_open b = transition (b\<lparr>cb_state := HALF_OPEN, probes := 0\<rparr>)"

definition to_closed :: "circuit_breaker \<Rightarrow> circuit_breaker" where
  "to_closed b = transition (b\<lparr>cb_state := CLOSED, failures := 0, probes := 0\<rparr>)"

definition admit_probe :: "circuit_breaker \<Rightarrow> bool \<times> circuit_breaker" where
  "admit_probe b =
     (if half_open_max_calls b \<le> probes b then (False, b) else (True, b\<lparr>probes := probes b + 1\<rparr>))"

definition allow :: "seconds \<Rightarrow> circuit_breaker \<Rightarrow> bool \<times> circuit_breaker" where
  "allow now b =
     (if cb_state b = CLOSED then (True, b)
      else if cb_state b = OPEN
      then (if now - opened_at b < reset_seconds b then (False, b)
            else admit_probe (to_half_open b))
      else admit_probe b)"

definition record_success :: "circuit_breaker \<Rightarrow> circuit_breaker" where
  "record_success b = (if cb_state b = HALF_OPEN then to_closed b else b\<lparr>failures := 0\<rparr>)"

definition record_failure :: "seconds \<Rightarrow> circuit_breaker \<Rightarrow> circuit_breaker" where
  "record_failure now b =
     (if cb_state b = HALF_OPEN then to_open now b
      else let b' = b\<lparr>failures := failures b + 1\<rparr> in
           if failure_threshold b' \<le> failures b' then to_open now b' else b')"

definition seconds_until_probe :: "seconds \<Rightarrow> circuit_breaker \<Rightarrow> seconds" where
  "seconds_until_probe now b =
     (if cb_state b \<noteq> OPEN then 0
      else max (reset_seconds b - (now - opened_at b)) (1 / 1000))"

declare transition_def [breaker_defs] to_open_def [breaker_defs] to_half_open_def [breaker_defs]
  to_closed_def [breaker_defs] admit_probe_def [breaker_defs] allow_def [breaker_defs]
  record_success_def [breaker_defs] record_failure_def [breaker_defs]
  seconds_until_probe_def [breaker_defs] new_breaker_def [breaker_defs]

subsection \<open>The configuration never changes\<close>

definition same_config :: "circuit_breaker \<Rightarrow> circuit_breaker \<Rightarrow> bool" where
  "same_config b c \<longleftrightarrow>
     cb_name b = cb_name c \<and> failure_threshold b = failure_threshold c
     \<and> reset_seconds b = reset_seconds c \<and> half_open_max_calls b = half_open_max_calls c"

lemma same_config_refl [simp]: "same_config b b"
  by (simp add: same_config_def)

lemma same_config_trans: "same_config a b \<Longrightarrow> same_config b c \<Longrightarrow> same_config a c"
  by (simp add: same_config_def)

lemma allow_config [simp]: "same_config b (snd (allow now b))"
  by (auto simp: same_config_def breaker_defs)

lemma record_success_config [simp]: "same_config b (record_success b)"
  by (auto simp: same_config_def breaker_defs)

lemma record_failure_config [simp]: "same_config b (record_failure now b)"
  by (auto simp: same_config_def breaker_defs Let_def)

subsection \<open>The invariant\<close>

text \<open>
  What the methods keep true between the fields of a breaker whose policy was validated
  (threshold and probe limit at least one, positive reset interval).
\<close>

definition breaker_ok :: "circuit_breaker \<Rightarrow> bool" where
  "breaker_ok b \<longleftrightarrow>
     1 \<le> failure_threshold b \<and> 0 < reset_seconds b \<and> 1 \<le> half_open_max_calls b
     \<and> 0 \<le> failures b \<and> failures b < failure_threshold b
     \<and> 0 \<le> probes b \<and> probes b \<le> half_open_max_calls b
     \<and> (cb_state b \<noteq> HALF_OPEN \<longrightarrow> probes b = 0)"

lemma new_breaker_ok:
  "1 \<le> t \<Longrightarrow> 0 < r \<Longrightarrow> 1 \<le> h \<Longrightarrow> breaker_ok (new_breaker name t r h calls)"
  by (simp add: breaker_ok_def new_breaker_def)

lemma allow_ok: "breaker_ok b \<Longrightarrow> breaker_ok (snd (allow now b))"
  by (cases "cb_state b") (auto simp: breaker_ok_def breaker_defs)

lemma record_success_ok: "breaker_ok b \<Longrightarrow> breaker_ok (record_success b)"
  by (cases "cb_state b") (auto simp: breaker_ok_def breaker_defs)

lemma record_failure_ok: "breaker_ok b \<Longrightarrow> breaker_ok (record_failure now b)"
  by (cases "cb_state b") (auto simp: breaker_ok_def breaker_defs Let_def)

subsection \<open>Runs\<close>

text \<open>
  What a caller does to a breaker over time: it asks, and it reports. \<open>Ask now\<close> is a call of
  \<open>allow\<close>, \<open>Good\<close> of \<open>record_success\<close>, \<open>Bad now\<close> of \<open>record_failure\<close>.
\<close>

datatype breaker_event = Ask seconds | Good | Bad seconds

fun breaker_step :: "breaker_event \<Rightarrow> circuit_breaker \<Rightarrow> circuit_breaker" where
  "breaker_step (Ask now) b = snd (allow now b)"
| "breaker_step Good b = record_success b"
| "breaker_step (Bad now) b = record_failure now b"

fun breaker_run :: "breaker_event list \<Rightarrow> circuit_breaker \<Rightarrow> circuit_breaker" where
  "breaker_run [] b = b"
| "breaker_run (e # es) b = breaker_run es (breaker_step e b)"

lemma breaker_run_append [simp]:
  "breaker_run (xs @ ys) b = breaker_run ys (breaker_run xs b)"
  by (induction xs arbitrary: b) auto

text \<open>
  The contract the guard and the cache rely on: three operations, an invariant all of them keep,
  a configuration none of them touches.
\<close>

locale breaker_contract =
  fixes inv :: "'b \<Rightarrow> bool"
    and config :: "'b \<Rightarrow> 'b \<Rightarrow> bool"
    and step :: "'e \<Rightarrow> 'b \<Rightarrow> 'b"
    and run :: "'e list \<Rightarrow> 'b \<Rightarrow> 'b"
  assumes run_Nil: "run [] b = b"
    and run_Cons: "run (e # es) b = run es (step e b)"
    and inv_step: "inv b \<Longrightarrow> inv (step e b)"
    and config_refl: "config b b"
    and config_trans: "config a b \<Longrightarrow> config b c \<Longrightarrow> config a c"
    and config_step: "config b (step e b)"
begin

lemma inv_run: "inv b \<Longrightarrow> inv (run es b)"
  by (induction es arbitrary: b) (auto simp: run_Nil run_Cons inv_step)

lemma config_run: "config b (run es b)"
proof (induction es arbitrary: b)
  case Nil
  show ?case by (simp add: run_Nil config_refl)
next
  case (Cons e es)
  show ?case
    unfolding run_Cons by (rule config_trans [OF config_step Cons.IH])
qed

end

lemma breaker_step_ok: "breaker_ok b \<Longrightarrow> breaker_ok (breaker_step e b)"
  by (cases e) (auto intro: allow_ok record_success_ok record_failure_ok)

lemma breaker_step_config: "same_config b (breaker_step e b)"
  by (cases e) auto

interpretation cb: breaker_contract breaker_ok same_config breaker_step breaker_run
  by unfold_locales
    (auto intro: breaker_step_ok breaker_step_config same_config_trans)

lemmas breaker_run_ok = cb.inv_run
lemmas breaker_run_config = cb.config_run

text \<open>Whatever sequence of calls a breaker with a validated policy receives, at whatever times,
  its fields stay consistent: fewer failures than the threshold are on the count, no more probes
  than the limit are out, and no probe is out unless it is half-open. Its configuration is the one it was built with.\<close>

theorem breaker_invariant:
  assumes "1 \<le> threshold" and "0 < reset" and "1 \<le> limit"
  shows "breaker_ok (breaker_run es (new_breaker name threshold reset limit calls))
    \<and> same_config (new_breaker name threshold reset limit calls)
        (breaker_run es (new_breaker name threshold reset limit calls))"
  using new_breaker_ok [OF assms] by (simp add: breaker_run_ok breaker_run_config)

theorem breaker_invariant_witness:
  "breaker_ok (breaker_run [Bad 1, Bad 2, Ask 3, Ask 13, Good]
     (new_breaker ''mysql'' 2 10 1 []))"
  using breaker_invariant [of 2 10 1 "[Bad 1, Bad 2, Ask 3, Ask 13, Good]" "''mysql''" "[]"]
  by simp

subsection \<open>Counting consecutive failures\<close>

text \<open>
  \<open>streak k es\<close> is the number of failures reported since the last success, when \<open>k\<close> were on the
  count before \<open>es\<close>; \<open>quiet n k es\<close> says that it stays below \<open>n\<close> all along \<open>es\<close>.
\<close>

fun streak :: "int \<Rightarrow> breaker_event list \<Rightarrow> int" where
  "streak k [] = k"
| "streak k (Ask _ # es) = streak k es"
| "streak k (Good # es) = streak 0 es"
| "streak k (Bad _ # es) = streak (k + 1) es"

fun quiet :: "int \<Rightarrow> int \<Rightarrow> breaker_event list \<Rightarrow> bool" where
  "quiet n k [] = True"
| "quiet n k (Ask _ # es) = quiet n k es"
| "quiet n k (Good # es) = quiet n 0 es"
| "quiet n k (Bad _ # es) = (k + 1 < n \<and> quiet n (k + 1) es)"

lemma closed_run_quiet:
  assumes "cb_state b = CLOSED" and "quiet (failure_threshold b) (failures b) es"
  shows "breaker_run es b = b\<lparr>failures := streak (failures b) es\<rparr>"
  using assms
proof (induction es arbitrary: b)
  case (Cons e es)
  show ?case
  proof (cases e)
    case (Ask t)
    with Cons.prems Cons.IH [of b] show ?thesis by (simp add: allow_def)
  next
    case Good
    with Cons.prems Cons.IH [of "b\<lparr>failures := 0\<rparr>"] show ?thesis
      by (simp add: record_success_def)
  next
    case (Bad t)
    with Cons.prems Cons.IH [of "b\<lparr>failures := failures b + 1\<rparr>"] show ?thesis
      by (simp add: record_failure_def Let_def)
  qed
qed simp

text \<open>A closed breaker opens on the failure that completes an unbroken run of
  \<open>failure_threshold\<close> failures, and on no other: as long as successes keep the run shorter, every
  caller is admitted and the breaker stays closed, and the next failure opens it exactly when it is
  the last one missing, with the interval starting at that failure.\<close>

theorem opens_on_consecutive_failures:
  assumes "cb_state b = CLOSED"
    and "quiet (failure_threshold b) (failures b) es"
  defines "b' \<equiv> breaker_run es b"
  shows "cb_state b' = CLOSED \<and> fst (allow now b')
    \<and> cb_state (record_failure now b') =
        (if failure_threshold b \<le> streak (failures b) es + 1 then OPEN else CLOSED)
    \<and> (failure_threshold b \<le> streak (failures b) es + 1
          \<longrightarrow> opened_at (record_failure now b') = now)"
  unfolding b'_def closed_run_quiet [OF assms(1,2)]
  using assms(1) by (simp_all add: breaker_defs Let_def)

theorem opens_on_consecutive_failures_witness:
  "cb_state (record_failure 9
     (breaker_run [Bad 1, Bad 2, Good, Bad 3, Ask 4, Bad 5] (new_breaker ''mysql'' 3 10 1 [])))
   = OPEN"
  using opens_on_consecutive_failures
    [of "new_breaker ''mysql'' 3 10 1 []" "[Bad 1, Bad 2, Good, Bad 3, Ask 4, Bad 5]" 9]
  by (simp add: new_breaker_def)

subsection \<open>An open breaker fails fast, and probes\<close>

fun asks_only :: "breaker_event list \<Rightarrow> bool" where
  "asks_only [] = True"
| "asks_only (Ask _ # es) = asks_only es"
| "asks_only _ = False"

text \<open>The callers \<open>allow\<close> admits along a run.\<close>

fun admitted :: "breaker_event list \<Rightarrow> circuit_breaker \<Rightarrow> int" where
  "admitted [] b = 0"
| "admitted (e # es) b =
     (case e of Ask now \<Rightarrow> (if fst (allow now b) then 1 else 0) | _ \<Rightarrow> 0)
     + admitted es (breaker_step e b)"

text \<open>While the circuit is open and the reset interval has not passed, every caller is refused
  at once and asking changes nothing: not the state, not the moment it opened, not a metric.\<close>

theorem open_fails_fast:
  assumes "cb_state b = OPEN"
    and "asks_only es"
    and "\<forall>t. Ask t \<in> set es \<longrightarrow> t - opened_at b < reset_seconds b"
  shows "breaker_run es b = b \<and> admitted es b = 0"
  using assms(2,3)
proof (induction es)
  case (Cons e es)
  from Cons.prems obtain t where e: "e = Ask t" by (cases e) auto
  with Cons.prems have "allow t b = (False, b)"
    using assms(1) by (simp add: allow_def)
  with Cons e show ?case by simp
qed simp

theorem open_fails_fast_witness:
  "admitted [Ask 6, Ask 9, Ask 14] (record_failure 5 (new_breaker ''redis'' 1 10 1 [])) = 0"
  using open_fails_fast [of "record_failure 5 (new_breaker ''redis'' 1 10 1 [])"
      "[Ask 6, Ask 9, Ask 14]"]
  by (simp add: breaker_defs)

lemma half_open_asks:
  assumes "cb_state b = HALF_OPEN" and "asks_only es" and "probes b \<le> half_open_max_calls b"
  shows "admitted es b \<le> half_open_max_calls b - probes b"
  using assms
proof (induction es arbitrary: b)
  case (Cons e es)
  from Cons.prems obtain t where e: "e = Ask t" by (cases e) auto
  show ?case
  proof (cases "half_open_max_calls b \<le> probes b")
    case True
    then have "allow t b = (False, b)"
      using Cons.prems(1) by (simp add: allow_def admit_probe_def)
    with e Cons.prems Cons.IH [of b] show ?thesis by simp
  next
    case False
    with e Cons.prems Cons.IH [of "b\<lparr>probes := probes b + 1\<rparr>"] show ?thesis
      by (simp add: allow_def admit_probe_def)
  qed
qed simp

text \<open>However many callers ask an open breaker, and whenever, at most
  \<open>half_open_max_calls\<close> of them are let through before one reports back: recovery is probed,
  never stampeded.\<close>

theorem probes_bounded:
  assumes "breaker_ok b" and "cb_state b = OPEN" and "asks_only es"
  shows "admitted es b \<le> half_open_max_calls b"
  using assms(3)
proof (induction es)
  case Nil
  from assms(1) show ?case by (simp add: breaker_ok_def)
next
  case (Cons e es)
  then obtain t where e: "e = Ask t" by (cases e) auto
  show ?case
  proof (cases "t - opened_at b < reset_seconds b")
    case True
    then have "allow t b = (False, b)" using assms(2) by (simp add: allow_def)
    with e Cons show ?thesis by simp
  next
    case False
    let ?h = "(to_half_open b)\<lparr>probes := 1\<rparr>"
    have "allow t b = (True, ?h)"
      using assms(1,2) False by (simp add: breaker_ok_def breaker_defs)
    moreover have "admitted es ?h \<le> half_open_max_calls b - 1"
      using half_open_asks [of ?h es] assms(1) Cons.prems e
      by (simp add: breaker_ok_def breaker_defs)
    ultimately show ?thesis using e by simp
  qed
qed

theorem probes_bounded_witness:
  "admitted [Ask 11, Ask 16, Ask 17, Ask 18]
     (record_failure 5 (new_breaker ''mysql'' 1 10 2 [])) \<le> 2"
  using probes_bounded [of "record_failure 5 (new_breaker ''mysql'' 1 10 2 [])"
      "[Ask 11, Ask 16, Ask 17, Ask 18]"]
  by (simp add: breaker_ok_def breaker_defs)

text \<open>C24. The verdict of a probe: once the reset interval has passed the first caller is admitted
  and the breaker is half-open; if the probe reports success the circuit closes with a clean count,
  and if it reports a failure the circuit opens again and the interval restarts.\<close>

theorem probe_verdict:
  assumes "breaker_ok b" and "cb_state b = OPEN" and "opened_at b + reset_seconds b \<le> now"
  defines "p \<equiv> snd (allow now b)"
  shows "fst (allow now b) \<and> cb_state p = HALF_OPEN
    \<and> cb_state (record_success p) = CLOSED \<and> failures (record_success p) = 0
    \<and> cb_state (record_failure later p) = OPEN \<and> opened_at (record_failure later p) = later"
  using assms by (auto simp: p_def breaker_ok_def breaker_defs)

theorem probe_verdict_witness:
  "cb_state (record_success (snd (allow 15 (record_failure 5 (new_breaker ''mysql'' 1 10 1 [])))))
   = CLOSED"
  using probe_verdict [of "record_failure 5 (new_breaker ''mysql'' 1 10 1 [])" 15]
  by (simp add: breaker_ok_def breaker_defs)

text \<open>The wait a refused caller is told is positive and sufficient: a caller that comes back
  after \<open>seconds_until_probe\<close> seconds finds the interval over, and is admitted if nobody else was
  before it.\<close>

theorem retry_after_suffices:
  assumes "breaker_ok b" and "cb_state b = OPEN"
  shows "0 < seconds_until_probe now b \<and> fst (allow (now + seconds_until_probe now b) b)"
proof
  show "0 < seconds_until_probe now b"
    using assms by (simp add: seconds_until_probe_def)
  have "reset_seconds b - (now - opened_at b) \<le> seconds_until_probe now b"
    using assms(2) by (simp add: seconds_until_probe_def)
  then have "opened_at b + reset_seconds b \<le> now + seconds_until_probe now b" by linarith
  with assms show "fst (allow (now + seconds_until_probe now b) b)"
    by (auto simp: breaker_ok_def breaker_defs)
qed

theorem retry_after_suffices_witness:
  "fst (allow (8 + seconds_until_probe 8 (record_failure 5 (new_breaker ''mysql'' 1 10 1 [])))
     (record_failure 5 (new_breaker ''mysql'' 1 10 1 [])))"
  by (rule conjunct2 [OF retry_after_suffices]) (simp_all add: breaker_ok_def breaker_defs)

text \<open>A probe that never reports back leaves the circuit shut for good. A half-open breaker
  whose probes are all out refuses every caller at every later time, and nothing but a report
  changes that: unlike the open state, the half-open state has no timer.\<close>

theorem half_open_waits_for_report:
  assumes "cb_state b = HALF_OPEN" and "half_open_max_calls b \<le> probes b" and "asks_only es"
  shows "breaker_run es b = b \<and> admitted es b = 0"
  using assms(3)
proof (induction es)
  case (Cons e es)
  then obtain t where "e = Ask t" by (cases e) auto
  moreover have "allow t b = (False, b)" using assms(1,2) by (simp add: allow_def admit_probe_def)
  ultimately show ?case using Cons by simp
qed simp

theorem half_open_waits_for_report_witness:
  "admitted [Ask 16, Ask 1000, Ask 1000000]
     (snd (allow 15 (record_failure 5 (new_breaker ''mysql'' 1 10 1 [])))) = 0"
  using half_open_waits_for_report
    [of "snd (allow 15 (record_failure 5 (new_breaker ''mysql'' 1 10 1 [])))"
      "[Ask 16, Ask 1000, Ask 1000000]"]
  by (simp add: breaker_defs)

subsection \<open>What the metrics say\<close>

text \<open>The value a gauge shows after a log of calls.\<close>

fun gauge_after :: "string \<Rightarrow> string list \<Rightarrow> int option \<Rightarrow> metric_log \<Rightarrow> int option" where
  "gauge_after g ls v [] = v"
| "gauge_after g ls v (GaugeSet h ks x # cs) =
     gauge_after g ls (if h = g \<and> ks = ls then Some x else v) cs"
| "gauge_after g ls v (_ # cs) = gauge_after g ls v cs"

lemma gauge_after_append [simp]:
  "gauge_after g ls v (xs @ ys) = gauge_after g ls (gauge_after g ls v xs) ys"
  by (induction g ls v xs rule: gauge_after.induct) auto

fun severity :: "breaker_state \<Rightarrow> int" where
  "severity CLOSED = 0"
| "severity HALF_OPEN = 1"
| "severity OPEN = 2"

definition gauge_agrees :: "circuit_breaker \<Rightarrow> bool" where
  "gauge_agrees b \<longleftrightarrow>
     gauge_after ''circuit_breaker_state'' [dependency_label (cb_name b)] None (cb_metrics b)
     = Some (severity (cb_state b))"

lemma gauge_agrees_transition: "gauge_agrees (transition b)"
  by (cases "cb_state b")
    (simp_all add: gauge_agrees_def transition_def observe_breaker_transition_def
      set_breaker_state_def breaker_state_label_def BREAKER_STATES_def BREAKER_STATE_VALUES_def)

lemma gauge_agrees_new: "gauge_agrees (new_breaker name t r h calls)"
  by (simp add: gauge_agrees_def new_breaker_def set_breaker_state_def breaker_state_label_def
      BREAKER_STATES_def BREAKER_STATE_VALUES_def)

lemma gauge_agrees_frame [simp]:
  "gauge_agrees (b\<lparr>failures := k\<rparr>) = gauge_agrees b"
  "gauge_agrees (b\<lparr>probes := k\<rparr>) = gauge_agrees b"
  by (simp_all add: gauge_agrees_def)

lemma gauge_agrees_step: "gauge_agrees b \<Longrightarrow> gauge_agrees (breaker_step e b)"
  by (cases e)
    (auto simp: allow_def admit_probe_def record_success_def record_failure_def to_open_def
      to_half_open_def to_closed_def Let_def gauge_agrees_transition)

text \<open>The gauge never lies: after any sequence of calls the last value a breaker published is
  the severity of the state it is in, from the moment it is built.\<close>

theorem gauge_tracks_state:
  "gauge_agrees (breaker_run es (new_breaker name t r h calls))"
proof -
  have "gauge_agrees b \<Longrightarrow> gauge_agrees (breaker_run es b)" for b
    by (induction es arbitrary: b) (auto intro: gauge_agrees_step)
  then show ?thesis by (simp add: gauge_agrees_new)
qed

text \<open>Failures that arrive while the circuit is already open (calls that were in flight when it
  opened) are counted too: the one that reaches the threshold opens the open circuit again, which
  restarts the reset interval and counts a transition although the state did not change.\<close>

theorem late_failures_reopen:
  assumes "cb_state b = OPEN" and "failure_threshold b \<le> failures b + 1"
  shows "cb_state (record_failure now b) = OPEN \<and> opened_at (record_failure now b) = now
    \<and> cb_metrics (record_failure now b) =
        observe_breaker_transition (cb_name b) ''open'' (cb_metrics b)"
  using assms by (simp add: breaker_defs Let_def)

theorem late_failures_reopen_witness:
  "opened_at (breaker_run [Bad 1, Bad 2, Bad 3, Bad 9] (new_breaker ''mysql'' 2 10 1 [])) = 9"
  using late_failures_reopen
    [of "breaker_run [Bad 1, Bad 2, Bad 3] (new_breaker ''mysql'' 2 10 1 [])" 9]
  by (simp add: breaker_defs Let_def)

end
