(* ===== verification/Retry.thy ===== *)
theory Retry
  imports Policy Breaker
begin

text \<open>
  \<open>app/resilience/retry.py\<close>: which exceptions are worth a second attempt, how a driver fault
  becomes a domain error, and the attempt loop.

  A coroutine is a function of the deadline that encloses it and of the state it runs in (type
  \<open>awaitable\<close>): it completes with a value or an exception, or the enclosing \<open>asyncio.timeout\<close>
  expires first. The state is the record \<open>proc\<close> of what the process holds (clock, breaker registry,
  metric calls) extended by whatever the coroutine works on. A coroutine may change all of it,
  because other tasks run while it awaits.
\<close>

record proc =
  now :: seconds
  breakers :: "string \<rightharpoonup> circuit_breaker"
  metrics :: metric_log

datatype 'a completion = Done "exn + 'a" | Expired

type_synonym ('w, 'a) awaitable = "seconds \<Rightarrow> 'w \<Rightarrow> 'a completion \<times> 'w"

text \<open>
  The documented behaviour of \<open>asyncio.timeout\<close> on a coroutine that yields to the event loop: it
  returns, or is cancelled, by the deadline, and time does not run backwards.
\<close>

definition prompt :: "('m proc_scheme, 'a) awaitable \<Rightarrow> bool" where
  "prompt op \<longleftrightarrow>
     (\<forall>dl w. now w \<le> dl \<longrightarrow> now w \<le> now (snd (op dl w)) \<and> now (snd (op dl w)) \<le> dl)"

definition log_metric :: "(metric_log \<Rightarrow> metric_log) \<Rightarrow> 'm proc_scheme \<Rightarrow> 'm proc_scheme" where
  "log_metric f w = w\<lparr>metrics := f (metrics w)\<rparr>"

lemma log_metric_fields [simp]:
  "now (log_metric f w) = now w"
  "breakers (log_metric f w) = breakers w"
  "proc.more (log_metric f w) = proc.more w"
  by (simp_all add: log_metric_def)

subsection \<open>Classification\<close>

fun is_transient :: "exn \<Rightarrow> bool" where
  "is_transient (OperationalError _) = True"
| "is_transient (InterfaceError _) = True"
| "is_transient (DisconnectionError _) = True"
| "is_transient (RedisConnectionError _) = True"
| "is_transient (RedisTimeoutError _) = True"
| "is_transient TimeoutError = True"
| "is_transient (OSError _) = True"
| "is_transient _ = False"

fun is_timeout :: "exn \<Rightarrow> bool" where
  "is_timeout TimeoutError = True"
| "is_timeout (RedisTimeoutError _) = True"
| "is_timeout _ = False"

definition translate :: "exn \<Rightarrow> string \<Rightarrow> seconds \<Rightarrow> exn" where
  "translate error dependency retry_after =
     (if is_timeout error
      then Domain (UpstreamTimeoutError (dependency @ '' did not answer inside its timeout'') retry_after)
      else Domain (DependencyUnavailableError (dependency @ '' is unavailable'') retry_after))"

lemma translate_not_transient [simp]: "\<not> is_transient (translate e d r)"
  by (simp add: translate_def)

lemma translate_down [simp]: "is_dependency_down (translate e d r)"
  by (simp add: translate_def)

lemma transient_is_exception: "is_transient e \<Longrightarrow> is_exception e"
  by (cases e) auto

lemma transient_not_down: "is_transient e \<Longrightarrow> \<not> is_dependency_down e"
  by (cases e) auto

subsection \<open>The attempt loop\<close>

text \<open>
  \<open>AsyncRetrying\<close> as the source configures it: the body runs; a transient exception before the
  last attempt is followed by a wait and another attempt; anything else ends the loop and is raised
  as it is (\<open>reraise=True\<close>). The waits are random, so the loop takes the wait after attempt \<open>k\<close> from
  the argument \<open>waits\<close>.
\<close>

definition asyncio_sleep :: "seconds \<Rightarrow> seconds \<Rightarrow> 'm proc_scheme \<Rightarrow> bool \<times> 'm proc_scheme" where
  "asyncio_sleep t dl w =
     (if now w + t < dl then (True, w\<lparr>now := now w + t\<rparr>) else (False, w\<lparr>now := max (now w) dl\<rparr>))"

definition attempt_body ::
  "('w, unit) awaitable option \<Rightarrow> ('w, 'a) awaitable \<Rightarrow> nat \<Rightarrow> ('w, 'a) awaitable" where
  "attempt_body on_retry operation k dl w =
     (case on_retry of
        None \<Rightarrow> operation dl w
      | Some hook \<Rightarrow>
          if 1 < k then
            (case hook dl w of
               (Done (Inr _), w') \<Rightarrow> operation dl w'
             | (Done (Inl e), w') \<Rightarrow> (Done (Inl e), w')
             | (Expired, w') \<Rightarrow> (Expired, w'))
          else operation dl w)"

function retry_loop ::
  "dependency_policy \<Rightarrow> (nat \<Rightarrow> seconds) \<Rightarrow> ('m proc_scheme, unit) awaitable option
   \<Rightarrow> ('m proc_scheme, 'a) awaitable \<Rightarrow> nat \<Rightarrow> seconds \<Rightarrow> 'm proc_scheme
   \<Rightarrow> nat \<times> 'a completion \<times> 'm proc_scheme" where
  "retry_loop policy waits on_retry operation k dl w =
     (case attempt_body on_retry operation k dl w of
        (Done (Inl e), w') \<Rightarrow>
          if is_transient e \<and> int k < attempts policy then
            (case asyncio_sleep (waits k) dl w' of
               (True, w'') \<Rightarrow> retry_loop policy waits on_retry operation (Suc k) dl w''
             | (False, w'') \<Rightarrow> (k, Expired, w''))
          else (k, Done (Inl e), w')
      | (c, w') \<Rightarrow> (k, c, w'))"
  by pat_completeness auto
termination
  by (relation "measure (\<lambda>(policy, _, _, _, k, _). nat (attempts policy - int k))") auto

declare retry_loop.simps [simp del]

definition with_retry ::
  "dependency_policy \<Rightarrow> string \<Rightarrow> (nat \<Rightarrow> seconds) \<Rightarrow> ('m proc_scheme, unit) awaitable option
   \<Rightarrow> ('m proc_scheme, 'a) awaitable \<Rightarrow> ('m proc_scheme, 'a) awaitable" where
  "with_retry policy dependency waits on_retry operation dl w =
     (case retry_loop policy waits on_retry operation 1 dl w of
        (n, Expired, w') \<Rightarrow> (Expired, w')
      | (n, Done (Inl e), w') \<Rightarrow>
          if \<not> is_exception e then (Done (Inl e), w')
          else if \<not> is_transient e then (Done (Inl e), w')
          else (Done (Inl (translate e dependency (pol_reset_seconds policy))),
                if 1 < n then log_metric (observe_retry dependency ''exhausted'') w' else w')
      | (n, Done (Inr r), w') \<Rightarrow>
          (Done (Inr r), if 1 < n then log_metric (observe_retry dependency ''success'') w' else w'))"

subsection \<open>Facts about the loop\<close>

text \<open>
  A preorder on states, indexed by the deadline, that sleeping and the count of retries respect. If the
  operation and the hook respect it too, so does the loop around them. It is used below for time
  and for the breaker registry.
\<close>

locale loop_relation =
  fixes R :: "seconds \<Rightarrow> 'm proc_scheme \<Rightarrow> 'm proc_scheme \<Rightarrow> bool"
  assumes refl: "R dl w w"
    and trans: "R dl u v \<Longrightarrow> R dl v w \<Longrightarrow> R dl u w"
    and sleep_step: "0 \<le> t \<Longrightarrow> R dl w (snd (asyncio_sleep t dl w))"
    and log_step: "R dl w (log_metric (observe_retry d outcome) w)"
begin

lemma body_step:
  assumes op: "\<And>w. R dl w (snd (op dl w))"
    and hook: "\<And>h w. hook = Some h \<Longrightarrow> R dl w (snd (h dl w))"
  shows "R dl w (snd (attempt_body hook op k dl w))"
proof (cases hook)
  case None
  then show ?thesis by (simp add: attempt_body_def op)
next
  case (Some h)
  obtain c w' where h: "h dl w = (c, w')" by fastforce
  with hook [OF Some, of w] have "R dl w w'" by simp
  moreover from this have "R dl w (snd (op dl w'))" by (rule trans) (rule op)
  ultimately show ?thesis
    using Some h op [of w]
    by (auto simp: attempt_body_def split: completion.splits sum.splits)
qed

lemma loop_step:
  assumes op: "\<And>w. R dl w (snd (op dl w))"
    and hook: "\<And>h w. hook = Some h \<Longrightarrow> R dl w (snd (h dl w))"
    and waits: "\<And>k. 0 \<le> waits k"
  shows "R dl w (snd (snd (retry_loop policy waits hook op k dl w)))"
proof (induction "nat (attempts policy - int k)" arbitrary: k w rule: less_induct)
  case less
  obtain c w' where body: "attempt_body hook op k dl w = (c, w')" by fastforce
  have "R dl w (snd (attempt_body hook op k dl w))"
    by (rule body_step) (auto intro: op hook)
  with body have R1: "R dl w w'" by simp
  show ?case
  proof (cases "\<exists>e. c = Done (Inl e) \<and> is_transient e \<and> int k < attempts policy")
    case False
    with body R1 show ?thesis
      by (subst retry_loop.simps) (auto split: completion.splits sum.splits)
  next
    case True
    then obtain e where e: "c = Done (Inl e)" "is_transient e" "int k < attempts policy" by blast
    obtain ok w'' where sl: "asyncio_sleep (waits k) dl w' = (ok, w'')" by fastforce
    with sleep_step [OF waits, of dl w' k] have "R dl w' w''" by simp
    with R1 have R2: "R dl w w''" by (rule trans)
    have "R dl w'' (snd (snd (retry_loop policy waits hook op (Suc k) dl w'')))"
      using e(3) by (intro less) simp
    with R2 have "R dl w (snd (snd (retry_loop policy waits hook op (Suc k) dl w'')))"
      by (rule trans)
    with body e sl R2 show ?thesis
      by (subst retry_loop.simps) (cases ok; simp)
  qed
qed

lemma retry_step:
  assumes op: "\<And>w. R dl w (snd (op dl w))"
    and hook: "\<And>h w. hook = Some h \<Longrightarrow> R dl w (snd (h dl w))"
    and waits: "\<And>k. 0 \<le> waits k"
  shows "R dl w (snd (with_retry policy dependency waits hook op dl w))"
proof -
  obtain n c w' where l: "retry_loop policy waits hook op 1 dl w = (n, c, w')"
    by (metis prod_cases3)
  have "R dl w (snd (snd (retry_loop policy waits hook op 1 dl w)))"
    by (rule loop_step) (auto intro: op hook waits)
  with l have R1: "R dl w w'" by simp
  moreover have "R dl w (log_metric (observe_retry d outcome) w')" for d outcome
    using R1 log_step by (rule trans)
  ultimately show ?thesis
    using l by (auto simp: with_retry_def split: completion.splits sum.splits)
qed

end

text \<open>Time: the loop returns between its start and its deadline.\<close>

definition time_within :: "seconds \<Rightarrow> 'm proc_scheme \<Rightarrow> 'm proc_scheme \<Rightarrow> bool" where
  "time_within dl u v \<longleftrightarrow> (now u \<le> dl \<longrightarrow> now u \<le> now v \<and> now v \<le> dl)"

text \<open>The registry: nobody else reports on a breaker while the call runs.\<close>

definition registry_kept :: "seconds \<Rightarrow> 'm proc_scheme \<Rightarrow> 'm proc_scheme \<Rightarrow> bool" where
  "registry_kept dl u v \<longleftrightarrow> breakers v = breakers u"

interpretation timing: loop_relation time_within
  by unfold_locales (auto simp: time_within_def asyncio_sleep_def max_def)

interpretation registry: loop_relation registry_kept
  by unfold_locales (auto simp: registry_kept_def asyncio_sleep_def)

lemma prompt_time_within: "prompt op \<Longrightarrow> time_within dl w (snd (op dl w))"
  by (simp add: prompt_def time_within_def)

definition lonely :: "('m proc_scheme, 'a) awaitable \<Rightarrow> bool" where
  "lonely op \<longleftrightarrow> (\<forall>dl w. breakers (snd (op dl w)) = breakers w)"

lemma with_retry_prompt:
  assumes "prompt op" and "\<And>h. hook = Some h \<Longrightarrow> prompt h" and "\<And>k. 0 \<le> waits k"
    and "now w \<le> dl"
  shows "now w \<le> now (snd (with_retry policy dependency waits hook op dl w))
    \<and> now (snd (with_retry policy dependency waits hook op dl w)) \<le> dl"
proof -
  have "time_within dl w (snd (with_retry policy dependency waits hook op dl w))"
    by (rule timing.retry_step) (use assms in \<open>auto intro: prompt_time_within\<close>)
  with assms(4) show ?thesis by (simp add: time_within_def)
qed

lemma with_retry_lonely:
  assumes "lonely op" and "\<And>h. hook = Some h \<Longrightarrow> lonely h" and "\<And>k. 0 \<le> waits k"
  shows "breakers (snd (with_retry policy dependency waits hook op dl w)) = breakers w"
proof -
  have "registry_kept dl w (snd (with_retry policy dependency waits hook op dl w))"
    by (rule registry.retry_step) (use assms in \<open>auto simp: lonely_def registry_kept_def\<close>)
  then show ?thesis by (simp add: registry_kept_def)
qed

text \<open>No driver fault leaves the retry layer: whatever it raises is an answer or a domain error.\<close>

lemma with_retry_translates:
  assumes "with_retry policy dependency waits hook op dl w = (Done (Inl e), w')"
  shows "\<not> is_transient e"
  using assms
  by (auto simp: with_retry_def transient_is_exception split: prod.splits completion.splits
      sum.splits if_splits)

text \<open>With a single attempt the loop runs the operation once and nothing else.\<close>

lemma retry_loop_single:
  assumes "attempts policy \<le> 1"
  shows "retry_loop policy waits hook op (Suc 0) dl w = (1, op dl w)"
  using assms
  by (subst retry_loop.simps)
    (auto simp: attempt_body_def split: option.splits completion.splits sum.splits prod.splits)

text \<open>
  Executions of the operation: if every run of it adds at most one to a count, and the hook adds
  none, the loop adds at most one per attempt.
\<close>

lemma asyncio_sleep_more [simp]: "proc.more (snd (asyncio_sleep t dl w)) = proc.more w"
  by (simp add: asyncio_sleep_def)

lemma attempt_body_count:
  fixes c :: "'m \<Rightarrow> nat"
  assumes op: "\<And>w. c (proc.more (snd (op dl w))) \<le> Suc (c (proc.more w))"
    and hook: "\<And>h w. hook = Some h \<Longrightarrow> c (proc.more (snd (h dl w))) \<le> c (proc.more w)"
  shows "c (proc.more (snd (attempt_body hook op k dl w))) \<le> Suc (c (proc.more w))"
proof (cases hook)
  case None
  then show ?thesis by (simp add: attempt_body_def op)
next
  case (Some h)
  obtain x w' where h: "h dl w = (x, w')" by fastforce
  with hook [OF Some, of w] have "c (proc.more w') \<le> c (proc.more w)" by simp
  with op [of w'] have "c (proc.more (snd (op dl w'))) \<le> Suc (c (proc.more w))" by simp
  with Some h op [of w] \<open>c (proc.more w') \<le> c (proc.more w)\<close> show ?thesis
    by (auto simp: attempt_body_def split: completion.splits sum.splits)
qed

lemma retry_loop_count:
  fixes c :: "'m \<Rightarrow> nat"
  assumes op: "\<And>w. c (proc.more (snd (op dl w))) \<le> Suc (c (proc.more w))"
    and hook: "\<And>h w. hook = Some h \<Longrightarrow> c (proc.more (snd (h dl w))) \<le> c (proc.more w)"
  shows "c (proc.more (snd (snd (retry_loop policy waits hook op k dl w))))
    \<le> c (proc.more w) + Suc (nat (attempts policy - int k))"
proof (induction "nat (attempts policy - int k)" arbitrary: k w rule: less_induct)
  case less
  obtain x w' where body: "attempt_body hook op k dl w = (x, w')" by fastforce
  have "c (proc.more (snd (attempt_body hook op k dl w))) \<le> Suc (c (proc.more w))"
    by (rule attempt_body_count) (auto intro: op hook)
  with body have C1: "c (proc.more w') \<le> Suc (c (proc.more w))" by simp
  show ?case
  proof (cases "\<exists>e. x = Done (Inl e) \<and> is_transient e \<and> int k < attempts policy")
    case False
    with body C1 show ?thesis
      by (subst retry_loop.simps) (auto split: completion.splits sum.splits)
  next
    case True
    then obtain e where e: "x = Done (Inl e)" "is_transient e" "int k < attempts policy" by blast
    obtain ok w'' where sl: "asyncio_sleep (waits k) dl w' = (ok, w'')" by fastforce
    then have m: "proc.more w'' = proc.more w'" by (metis asyncio_sleep_more snd_conv)
    have "c (proc.more (snd (snd (retry_loop policy waits hook op (Suc k) dl w''))))
      \<le> c (proc.more w'') + Suc (nat (attempts policy - int (Suc k)))"
      using e(3) by (intro less) simp
    with C1 m e(3) have "c (proc.more (snd (snd (retry_loop policy waits hook op (Suc k) dl w''))))
      \<le> c (proc.more w) + Suc (nat (attempts policy - int k))" by simp
    with body e sl C1 m show ?thesis
      by (subst retry_loop.simps) (cases ok; simp)
  qed
qed

lemma with_retry_count:
  fixes c :: "'m \<Rightarrow> nat"
  assumes op: "\<And>w. c (proc.more (snd (op dl w))) \<le> Suc (c (proc.more w))"
    and hook: "\<And>h w. hook = Some h \<Longrightarrow> c (proc.more (snd (h dl w))) \<le> c (proc.more w)"
    and "1 \<le> attempts policy"
  shows "c (proc.more (snd (with_retry policy dependency waits hook op dl w)))
    \<le> c (proc.more w) + nat (attempts policy)"
proof -
  obtain n x w' where l: "retry_loop policy waits hook op 1 dl w = (n, x, w')"
    by (metis prod_cases3)
  have "c (proc.more (snd (snd (retry_loop policy waits hook op 1 dl w))))
    \<le> c (proc.more w) + Suc (nat (attempts policy - int 1))"
    by (rule retry_loop_count) (auto intro: op hook)
  moreover have "Suc (nat (attempts policy - int 1)) = nat (attempts policy)"
    using assms(3) by linarith
  ultimately have "c (proc.more w') \<le> c (proc.more w) + nat (attempts policy)"
    using l by simp
  then show ?thesis
    using l by (auto simp: with_retry_def split: completion.splits sum.splits)
qed

end
