(* ===== verification/Guard.thy ===== *)
theory Guard
  imports Retry
begin

text \<open>
  \<open>app/resilience/guard.py\<close> and the registry of \<open>app/resilience/breaker.py\<close>: the composition of
  breaker, timeout and retry around one dependency call.
\<close>

subsection \<open>The registry\<close>

text \<open>
  \<open>get_breaker\<close>: the process-wide breaker, built on first use from the policy. The result is the
  state in which the breaker exists.
\<close>

definition get_breaker :: "string \<Rightarrow> dependency_policy \<Rightarrow> 'm proc_scheme \<Rightarrow> 'm proc_scheme" where
  "get_breaker dependency policy w =
     (case breakers w dependency of
        Some _ \<Rightarrow> w
      | None \<Rightarrow>
          let b = new_breaker dependency (pol_failure_threshold policy) (pol_reset_seconds policy)
                    (pol_half_open_max_calls policy) [] in
          w\<lparr>breakers := (breakers w)(dependency \<mapsto> b)\<rparr>)"

definition reset_breakers :: "'m proc_scheme \<Rightarrow> 'm proc_scheme" where
  "reset_breakers w = w\<lparr>breakers := Map.empty\<rparr>"

definition update_breaker ::
  "string \<Rightarrow> (circuit_breaker \<Rightarrow> circuit_breaker) \<Rightarrow> 'm proc_scheme \<Rightarrow> 'm proc_scheme" where
  "update_breaker dependency f w =
     w\<lparr>breakers := (breakers w)(dependency := map_option f (breakers w dependency))\<rparr>"

definition breaker_succeeds :: "string \<Rightarrow> 'm proc_scheme \<Rightarrow> 'm proc_scheme" where
  "breaker_succeeds dependency = update_breaker dependency record_success"

definition breaker_fails :: "string \<Rightarrow> 'm proc_scheme \<Rightarrow> 'm proc_scheme" where
  "breaker_fails dependency w = update_breaker dependency (record_failure (now w)) w"

lemma update_breaker_fields [simp]:
  "now (update_breaker d f w) = now w"
  "metrics (update_breaker d f w) = metrics w"
  "proc.more (update_breaker d f w) = proc.more w"
  "breakers (update_breaker d f w) = (breakers w)(d := map_option f (breakers w d))"
  by (simp_all add: update_breaker_def)

lemma verdict_fields [simp]:
  "now (breaker_succeeds d w) = now w"
  "now (breaker_fails d w) = now w"
  "proc.more (breaker_succeeds d w) = proc.more w"
  "proc.more (breaker_fails d w) = proc.more w"
  by (simp_all add: breaker_succeeds_def breaker_fails_def)

lemma verdict_breakers:
  "breakers (breaker_succeeds d w) = (breakers w)(d := map_option record_success (breakers w d))"
  "breakers (breaker_fails d w) =
     (breakers w)(d := map_option (record_failure (now w)) (breakers w d))"
  by (simp_all add: breaker_succeeds_def breaker_fails_def)

subsection \<open>The guarded call\<close>

text \<open>How a call that ran ends: the \<open>try\<close> statement around the timeout, clause by clause.\<close>

definition conclude ::
  "string \<Rightarrow> dependency_policy \<Rightarrow> 'a completion \<Rightarrow> 'm proc_scheme
   \<Rightarrow> (exn + 'a) \<times> 'm proc_scheme" where
  "conclude dependency policy c w =
     (case c of
        Expired \<Rightarrow>
          (Inl (translate TimeoutError dependency (pol_reset_seconds policy)),
           breaker_fails dependency (log_metric (observe_dependency_timeout dependency) w))
      | Done (Inr r) \<Rightarrow> (Inr r, breaker_succeeds dependency w)
      | Done (Inl e) \<Rightarrow>
          (if e = TimeoutError then
             (Inl (translate TimeoutError dependency (pol_reset_seconds policy)),
              breaker_fails dependency (log_metric (observe_dependency_timeout dependency) w))
           else case e of
             Domain (DependencyUnavailableError _ _) \<Rightarrow> (Inl e, breaker_fails dependency w)
           | Domain (UpstreamTimeoutError _ _) \<Rightarrow>
               (Inl e, breaker_fails dependency
                         (log_metric (observe_dependency_timeout dependency) w))
           | _ \<Rightarrow> if is_exception e then (Inl e, breaker_succeeds dependency w) else (Inl e, w)))"

definition guarded_call ::
  "(string \<rightharpoonup> dependency_policy) \<Rightarrow> (nat \<Rightarrow> seconds) \<Rightarrow> string
   \<Rightarrow> ('m proc_scheme, unit) awaitable option \<Rightarrow> bool \<Rightarrow> ('m proc_scheme, 'a) awaitable
   \<Rightarrow> 'm proc_scheme \<Rightarrow> (exn + 'a) \<times> 'm proc_scheme" where
  "guarded_call policies waits dependency on_retry retry operation w =
     (case policies dependency of
        None \<Rightarrow> (Inl (KeyError dependency), w)
      | Some policy \<Rightarrow>
          let w1 = get_breaker dependency policy w in
          (case breakers w1 dependency of
             None \<Rightarrow> (Inl (KeyError dependency), w1)   \<comment> \<open>not reached: the breaker exists\<close>
           | Some b \<Rightarrow>
               let (ok, b') = allow (now w1) b;
                   w2 = update_breaker dependency (\<lambda>_. b') w1 in
               if \<not> ok then
                 (Inl (Domain (DependencyUnavailableError
                         (dependency @ '' is unavailable: the circuit is open'')
                         (seconds_until_probe (now w2) b'))), w2)
               else
                 let effective = (if retry then policy else policy\<lparr>attempts := 1\<rparr>);
                     (c, w3) = with_retry effective dependency waits
                                 (if retry then on_retry else None) operation
                                 (now w2 + call_timeout_seconds policy) w2 in
                 conclude dependency policy c w3))"

text \<open>
  The two decorators. \<open>session_rollback\<close> is \<open>self._session.rollback\<close>, or \<open>None\<close> when the
  repository has no session.
\<close>

definition guarded_read ::
  "(string \<rightharpoonup> dependency_policy) \<Rightarrow> (nat \<Rightarrow> seconds) \<Rightarrow> string
   \<Rightarrow> ('m proc_scheme, unit) awaitable option \<Rightarrow> ('m proc_scheme, 'a) awaitable
   \<Rightarrow> 'm proc_scheme \<Rightarrow> (exn + 'a) \<times> 'm proc_scheme" where
  "guarded_read policies waits dependency session_rollback method =
     guarded_call policies waits dependency session_rollback True method"

definition guarded_write ::
  "(string \<rightharpoonup> dependency_policy) \<Rightarrow> (nat \<Rightarrow> seconds) \<Rightarrow> string
   \<Rightarrow> ('m proc_scheme, 'a) awaitable \<Rightarrow> 'm proc_scheme \<Rightarrow> (exn + 'a) \<times> 'm proc_scheme" where
  "guarded_write policies waits dependency method =
     guarded_call policies waits dependency None False method"

subsection \<open>The two ways a call goes\<close>

lemma get_breaker_some [simp]: "breakers w d = Some b \<Longrightarrow> get_breaker d p w = w"
  by (simp add: get_breaker_def)

lemma get_breaker_fields [simp]:
  "now (get_breaker d p w) = now w"
  "proc.more (get_breaker d p w) = proc.more w"
  by (simp_all add: get_breaker_def Let_def split: option.splits)

lemma get_breaker_exists: "\<exists>b. breakers (get_breaker d p w) d = Some b"
  by (simp add: get_breaker_def Let_def split: option.splits)

text \<open>The state in which an admitted operation starts.\<close>

definition admitted_state ::
  "string \<Rightarrow> dependency_policy \<Rightarrow> circuit_breaker \<Rightarrow> 'm proc_scheme \<Rightarrow> 'm proc_scheme" where
  "admitted_state d p b w =
     update_breaker d (\<lambda>_. snd (allow (now w) b)) (get_breaker d p w)"

lemma admitted_state_fields [simp]:
  "now (admitted_state d p b w) = now w"
  "proc.more (admitted_state d p b w) = proc.more w"
  by (simp_all add: admitted_state_def)

lemma guarded_call_refused:
  assumes "policies d = Some p" and "breakers (get_breaker d p w) d = Some b"
    and "\<not> fst (allow (now w) b)"
  shows "guarded_call policies waits d hook retry op w =
     (Inl (Domain (DependencyUnavailableError (d @ '' is unavailable: the circuit is open'')
             (seconds_until_probe (now w) (snd (allow (now w) b))))),
      admitted_state d p b w)"
  using assms by (simp add: guarded_call_def admitted_state_def Let_def case_prod_beta)

lemma guarded_call_admitted:
  assumes "policies d = Some p" and "breakers (get_breaker d p w) d = Some b"
    and "fst (allow (now w) b)"
  shows "guarded_call policies waits d hook retry op w =
     (case with_retry (if retry then p else p\<lparr>attempts := 1\<rparr>) d waits
             (if retry then hook else None) op (now w + call_timeout_seconds p)
             (admitted_state d p b w) of
        (c, w3) \<Rightarrow> conclude d p c w3)"
  using assms by (simp add: guarded_call_def admitted_state_def Let_def case_prod_beta)

lemma conclude_fields [simp]:
  "now (snd (conclude d p c w)) = now w"
  "proc.more (snd (conclude d p c w)) = proc.more w"
  by (auto simp: conclude_def split: completion.splits sum.splits exn.splits domain_error.splits)

text \<open>A guarded call is one of the two: refused, with the operation not run, or admitted.\<close>

lemma guarded_call_cases:
  assumes "policies d = Some p"
  obtains (refused) b where "breakers (get_breaker d p w) d = Some b" "\<not> fst (allow (now w) b)"
    | (admitted) b c w3 where "breakers (get_breaker d p w) d = Some b" "fst (allow (now w) b)"
      "with_retry (if retry then p else p\<lparr>attempts := 1\<rparr>) d waits (if retry then hook else None) op
         (now w + call_timeout_seconds p) (admitted_state d p b w) = (c, w3)"
      "guarded_call policies waits d hook retry op w = conclude d p c w3"
proof -
  obtain b where b: "breakers (get_breaker d p w) d = Some b" using get_breaker_exists by blast
  obtain c w3 where r: "with_retry (if retry then p else p\<lparr>attempts := 1\<rparr>) d waits
      (if retry then hook else None) op (now w + call_timeout_seconds p)
      (admitted_state d p b w) = (c, w3)" by fastforce
  show ?thesis
  proof (cases "fst (allow (now w) b)")
    case True
    show ?thesis
      by (rule admitted [OF b True r]) (simp add: guarded_call_admitted assms b True r)
  next
    case False
    with b show ?thesis by (rule refused)
  qed
qed

text \<open>A closed breaker and an operation that answers at the first attempt.\<close>

lemma guarded_call_first_try:
  assumes "policies d = Some p" and "breakers w d = Some b" and "cb_state b = CLOSED"
    and "op (now w + call_timeout_seconds p) w = (Done (Inr r), w')"
  shows "guarded_call policies waits d hook retry op w = (Inr r, breaker_succeeds d w')"
proof -
  have a: "allow (now w) b = (True, b)" using assms(3) by (simp add: allow_def)
  have adm: "admitted_state d p b w = w"
    using assms(2) a by (simp add: admitted_state_def update_breaker_def fun_upd_idem)
  have "retry_loop q waits h op 1 (now w + call_timeout_seconds p) w = (1, Done (Inr r), w')" for q h
    using assms(4) by (subst retry_loop.simps) (simp add: attempt_body_def split: option.split)
  then have "with_retry q d waits h op (now w + call_timeout_seconds p) w = (Done (Inr r), w')" for q h
    by (simp add: with_retry_def)
  with guarded_call_admitted [of policies d p w b waits hook retry op] assms a adm show ?thesis
    by (simp add: conclude_def)
qed

lemma guarded_call_integrity_error:
  assumes "policies d = Some p" and "breakers w d = Some b" and "cb_state b = CLOSED"
    and "op (now w + call_timeout_seconds p) w = (Done (Inl (IntegrityError m)), w')"
  shows "guarded_call policies waits d hook retry op w
    = (Inl (IntegrityError m), breaker_succeeds d w')"
proof -
  have a: "allow (now w) b = (True, b)" using assms(3) by (simp add: allow_def)
  have adm: "admitted_state d p b w = w"
    using assms(2) a by (simp add: admitted_state_def update_breaker_def fun_upd_idem)
  have "retry_loop q waits h op 1 (now w + call_timeout_seconds p) w
      = (1, Done (Inl (IntegrityError m)), w')" for q h
    using assms(4) by (subst retry_loop.simps) (simp add: attempt_body_def split: option.split)
  then have "with_retry q d waits h op (now w + call_timeout_seconds p) w
      = (Done (Inl (IntegrityError m)), w')" for q h
    by (simp add: with_retry_def)
  with guarded_call_admitted [of policies d p w b waits hook retry op] assms a adm show ?thesis
    by (simp add: conclude_def)
qed

subsection \<open>What a guarded call costs and what it can raise\<close>

text \<open>C18. A guarded call is bounded: whatever the dependency does, retries and waits included, the
  call returns within \<open>call_timeout_seconds\<close> of its start. (The operation and the rollback hook
  honour cancellation, which is what \<open>asyncio.timeout\<close> relies on.)\<close>

theorem guarded_call_bounded:
  assumes "policies d = Some p" and "0 \<le> call_timeout_seconds p"
    and "prompt op" and "\<forall>h. hook = Some h \<longrightarrow> prompt h" and "\<forall>k. 0 \<le> waits k"
  shows "now w \<le> now (snd (guarded_call policies waits d hook retry op w))
    \<and> now (snd (guarded_call policies waits d hook retry op w)) \<le> now w + call_timeout_seconds p"
  using assms(1)
proof (cases rule: guarded_call_cases [where w = w and op = op and waits = waits and hook = hook
      and retry = retry])
  case (refused b)
  with assms(1,2) show ?thesis by (simp add: guarded_call_refused)
next
  case (admitted b c w3)
  let ?dl = "now w + call_timeout_seconds p"
  have "now (admitted_state d p b w) \<le> now (snd (with_retry (if retry then p else p\<lparr>attempts := 1\<rparr>) d
      waits (if retry then hook else None) op ?dl (admitted_state d p b w)))
    \<and> now (snd (with_retry (if retry then p else p\<lparr>attempts := 1\<rparr>) d
      waits (if retry then hook else None) op ?dl (admitted_state d p b w))) \<le> ?dl"
    by (rule with_retry_prompt) (use assms in \<open>auto split: if_splits\<close>)
  with admitted(3,4) show ?thesis by simp
qed

text \<open>C19. No driver fault escapes the guard: what a guarded call raises is never one of the
  transient driver exceptions. It is a domain error of the guard, or an answer of the operation
  that passes through.\<close>

theorem guarded_call_translates:
  assumes "policies d = Some p"
    and "fst (guarded_call policies waits d hook retry op w) = Inl e"
  shows "\<not> is_transient e"
  using assms(1)
proof (cases rule: guarded_call_cases [where w = w and op = op and waits = waits and hook = hook
      and retry = retry])
  case (refused b)
  with assms show ?thesis by (auto simp: guarded_call_refused)
next
  case (admitted b c w3)
  from admitted(4) assms(2) have "fst (conclude d p c w3) = Inl e" by simp
  moreover have "\<not> is_transient e'" if "c = Done (Inl e')" for e'
    using with_retry_translates admitted(3) that by blast
  ultimately show ?thesis
    by (auto simp: conclude_def split: completion.splits sum.splits exn.splits
        domain_error.splits if_splits)
qed

text \<open>An open circuit costs nothing: while the reset interval runs, the call is refused at the
  time it was made, the operation is not run, and the whole state (clock, breaker, metrics,
  database) is as before; the caller is told the rest of the interval.\<close>

theorem open_circuit_costs_nothing:
  assumes "policies d = Some p" and "breakers w d = Some b" and "cb_state b = OPEN"
    and "now w - opened_at b < reset_seconds b"
  shows "guarded_call policies waits d hook retry op w =
    (Inl (Domain (DependencyUnavailableError (d @ '' is unavailable: the circuit is open'')
       (max (opened_at b + reset_seconds b - now w) (1 / 1000)))), w)"
proof -
  have a: "allow (now w) b = (False, b)" using assms(3,4) by (simp add: allow_def)
  have "admitted_state d p b w = w"
    using assms(2) a by (simp add: admitted_state_def update_breaker_def fun_upd_idem)
  then show ?thesis
    using guarded_call_refused [of policies d p w b] assms a
    by (simp add: seconds_until_probe_def algebra_simps)
qed

text \<open>C20. A write reaches the database at most once per call, and a read at most \<open>attempts\<close>
  times: counted by any measure of the data that one execution raises by at most one and a
  rollback does not raise.\<close>

theorem executions_bounded:
  fixes c :: "'m \<Rightarrow> nat" and op :: "('m proc_scheme, 'a) awaitable"
  assumes "policies d = Some p" and "1 \<le> attempts p"
    and "\<forall>dl w. c (proc.more (snd (op dl w))) \<le> Suc (c (proc.more w))"
    and "\<forall>h dl w. hook = Some h \<longrightarrow> c (proc.more (snd (h dl w))) \<le> c (proc.more w)"
  shows "c (proc.more (snd (guarded_write policies waits d op w))) \<le> c (proc.more w) + 1
    \<and> c (proc.more (snd (guarded_read policies waits d hook op w)))
        \<le> c (proc.more w) + nat (attempts p)"
proof -
  have bound: "c (proc.more (snd (guarded_call policies waits d hk retry op w)))
      \<le> c (proc.more w) + nat (attempts (if retry then p else p\<lparr>attempts := 1\<rparr>))"
    if "hk = hook \<or> hk = None" for hk retry
    using assms(1)
  proof (cases rule: guarded_call_cases [where w = w and op = op and waits = waits and hook = hk
        and retry = retry])
    case (refused b)
    with assms(1) show ?thesis by (simp add: guarded_call_refused)
  next
    case (admitted b x w3)
    have "c (proc.more (snd (with_retry (if retry then p else p\<lparr>attempts := 1\<rparr>) d waits
        (if retry then hk else None) op (now w + call_timeout_seconds p)
        (admitted_state d p b w))))
      \<le> c (proc.more (admitted_state d p b w))
        + nat (attempts (if retry then p else p\<lparr>attempts := 1\<rparr>))"
      by (rule with_retry_count) (use assms that in \<open>auto split: if_splits\<close>)
    with admitted show ?thesis by simp
  qed
  from bound [of None False] bound [of hook True] show ?thesis
    by (simp add: guarded_write_def guarded_read_def)
qed

subsection \<open>Outages and answers\<close>

text \<open>A coroutine that always fails the way a dead dependency fails: it expires, or it raises a
  driver fault.\<close>

definition fault :: "'a completion \<Rightarrow> bool" where
  "fault c \<longleftrightarrow> (case c of Expired \<Rightarrow> True | Done (Inl e) \<Rightarrow> is_transient e | Done (Inr _) \<Rightarrow> False)"

definition faulty :: "('w, 'a) awaitable \<Rightarrow> bool" where
  "faulty op \<longleftrightarrow> (\<forall>dl w. fault (fst (op dl w)))"

text \<open>One that always answers: a value, or an exception that is not a fault.\<close>

definition answer :: "'a completion \<Rightarrow> bool" where
  "answer c \<longleftrightarrow>
     (case c of Expired \<Rightarrow> False
      | Done (Inl e) \<Rightarrow> is_exception e \<and> \<not> is_transient e \<and> \<not> is_dependency_down e
      | Done (Inr _) \<Rightarrow> True)"

definition answering :: "('w, 'a) awaitable \<Rightarrow> bool" where
  "answering op \<longleftrightarrow> (\<forall>dl w. answer (fst (op dl w)))"

text \<open>A rollback hook that succeeds or fails as a dead dependency does.\<close>

definition plain_hook :: "('w, unit) awaitable option \<Rightarrow> bool" where
  "plain_hook hook \<longleftrightarrow>
     (\<forall>h dl w. hook = Some h \<longrightarrow> fst (h dl w) = Done (Inr ()) \<or> fault (fst (h dl w)))"

lemma fault_simps [simp]:
  "fault Expired" "fault (Done (Inl e)) = is_transient e" "\<not> fault (Done (Inr r))"
  by (simp_all add: fault_def)

lemma attempt_body_fault:
  assumes "faulty op" and "plain_hook hook"
  shows "fault (fst (attempt_body hook op k dl w))"
proof (cases hook)
  case None
  with assms(1) show ?thesis by (simp add: attempt_body_def faulty_def)
next
  case (Some h)
  obtain x w' where h: "h dl w = (x, w')" by fastforce
  with Some assms(2) have "x = Done (Inr ()) \<or> fault x"
    by (simp add: plain_hook_def) (metis fst_conv)
  with Some h assms(1) show ?thesis
    by (auto simp: attempt_body_def faulty_def split: completion.splits sum.splits)
qed

lemma retry_loop_fault:
  assumes "faulty op" and "plain_hook hook"
  shows "fault (fst (snd (retry_loop policy waits hook op k dl w)))"
proof (induction "nat (attempts policy - int k)" arbitrary: k w rule: less_induct)
  case less
  obtain x w' where body: "attempt_body hook op k dl w = (x, w')" by fastforce
  with attempt_body_fault [OF assms, of k dl w] have x: "fault x" by simp
  show ?case
  proof (cases "\<exists>e. x = Done (Inl e) \<and> is_transient e \<and> int k < attempts policy")
    case False
    with body x show ?thesis
      by (subst retry_loop.simps) (auto split: completion.splits sum.splits)
  next
    case True
    then obtain e where e: "x = Done (Inl e)" "is_transient e" "int k < attempts policy" by blast
    obtain ok w'' where sl: "asyncio_sleep (waits k) dl w' = (ok, w'')" by fastforce
    have "fault (fst (snd (retry_loop policy waits hook op (Suc k) dl w'')))"
      using e(3) by (intro less) simp
    with e body sl show ?thesis
      by (subst retry_loop.simps) (cases ok; auto)
  qed
qed

lemma conclude_down:
  assumes "c = Expired \<or> (\<exists>e. c = Done (Inl e) \<and> is_dependency_down e)"
  shows "(\<exists>e. fst (conclude d p c w) = Inl e \<and> is_dependency_down e)
    \<and> breakers (snd (conclude d p c w)) = breakers (breaker_fails d w)"
  using assms
  by (auto simp: conclude_def verdict_breakers elim!: is_dependency_down_cases)

lemma conclude_answer:
  assumes "answer c"
  shows "conclude d p c w = ((case c of Done r \<Rightarrow> r | Expired \<Rightarrow> Inl TimeoutError), breaker_succeeds d w)"
  using assms
  by (auto simp: conclude_def answer_def split: completion.splits sum.splits exn.splits
      domain_error.splits)

lemma with_retry_fault:
  assumes "faulty op" and "plain_hook hook" and "with_retry p d waits hook op dl w = (c, w')"
  shows "c = Expired \<or> (\<exists>e. c = Done (Inl e) \<and> is_dependency_down e)"
proof -
  obtain n x v where l: "retry_loop p waits hook op 1 dl w = (n, x, v)" by (metis prod_cases3)
  with retry_loop_fault [OF assms(1,2), of p waits 1 dl w] have "fault x" by simp
  with l assms(3) show ?thesis
    by (auto simp: with_retry_def transient_is_exception split: completion.splits sum.splits)
qed

lemma with_retry_answer:
  assumes "answering op"
  shows "with_retry p d waits hook op dl w = op dl w"
proof -
  obtain c w' where op: "op dl w = (c, w')" by fastforce
  with assms have a: "answer c" by (simp add: answering_def) (metis fst_conv)
  have "retry_loop p waits hook op 1 dl w = (1, c, w')"
    using op a
    by (subst retry_loop.simps)
      (auto simp: attempt_body_def answer_def split: option.splits completion.splits sum.splits)
  with op a show ?thesis
    by (auto simp: with_retry_def answer_def split: completion.splits sum.splits)
qed

text \<open>\<open>n\<close> calls of one repository method, one after the other.\<close>

fun repeat_calls ::
  "('w \<Rightarrow> (exn + 'a) \<times> 'w) \<Rightarrow> nat \<Rightarrow> 'w \<Rightarrow> (exn + 'a) list \<times> 'w" where
  "repeat_calls f 0 w = ([], w)"
| "repeat_calls f (Suc n) w =
     (let (r, w') = f w; (rs, w'') = repeat_calls f n w' in (r # rs, w''))"

lemma admitted_state_closed:
  "breakers w d = Some b \<Longrightarrow> cb_state b = CLOSED \<Longrightarrow> breakers (admitted_state d p b w) = breakers w"
  by (auto simp: admitted_state_def allow_def)

lemma guarded_call_fault_closed:
  assumes "policies d = Some p" and "breakers w d = Some b" and "cb_state b = CLOSED"
    and "faulty op" and "lonely op" and "plain_hook hook"
    and "\<And>h. hook = Some h \<Longrightarrow> lonely h" and "\<And>k. 0 \<le> waits k"
  shows "(\<exists>e. fst (guarded_call policies waits d hook retry op w) = Inl e \<and> is_dependency_down e)
    \<and> (\<exists>t. breakers (snd (guarded_call policies waits d hook retry op w)) d
          = Some (record_failure t b))"
  using assms(1)
proof (cases rule: guarded_call_cases [where w = w and op = op and waits = waits and hook = hook
      and retry = retry])
  case (refused b')
  with assms(2,3) show ?thesis by (simp add: allow_def)
next
  case (admitted b' c w3)
  with assms(2) have b': "b' = b" by simp
  have c: "c = Expired \<or> (\<exists>e. c = Done (Inl e) \<and> is_dependency_down e)"
    by (rule with_retry_fault [OF assms(4) _ admitted(3)])
      (use assms(6) in \<open>auto simp: plain_hook_def\<close>)
  have "breakers (snd (with_retry (if retry then p else p\<lparr>attempts := 1\<rparr>) d waits
      (if retry then hook else None) op (now w + call_timeout_seconds p) (admitted_state d p b' w)))
    = breakers (admitted_state d p b' w)"
    by (rule with_retry_lonely) (use assms in \<open>auto split: if_splits\<close>)
  then have "breakers w3 d = Some b"
    using admitted(3) b' assms(2,3) by (simp add: admitted_state_closed)
  then show ?thesis
    unfolding admitted(4) using conclude_down [OF c, of d p w3] by (auto simp: verdict_breakers)
qed

text \<open>C22. A sustained outage opens the circuit, exactly at the threshold. If every attempt of a
  guarded call fails as a dead dependency fails, each of the first \<open>failure_threshold\<close> calls on a
  closed breaker with a clean count is answered with a 503 or 504 error, the breaker is open after
  the last of them and was closed before it.\<close>

theorem outage_opens_circuit:
  fixes retry :: bool
  assumes "policies d = Some p" and "breakers w d = Some b" and "cb_state b = CLOSED"
    and "failures b = 0" and "failure_threshold b = int (Suc n)"
    and "faulty op" and "lonely op" and "plain_hook hook"
    and "\<forall>h. hook = Some h \<longrightarrow> lonely h" and "\<forall>k. 0 \<le> waits k"
  defines "call \<equiv> guarded_call policies waits d hook retry op"
  shows "\<exists>b' b''. breakers (snd (repeat_calls call n w)) d = Some b' \<and> cb_state b' = CLOSED
    \<and> breakers (snd (repeat_calls call (Suc n) w)) d = Some b'' \<and> cb_state b'' = OPEN
    \<and> (\<forall>r \<in> set (fst (repeat_calls call (Suc n) w)). \<exists>e. r = Inl e \<and> is_dependency_down e)"
proof -
  have step: "(\<exists>e. fst (call w) = Inl e \<and> is_dependency_down e)
      \<and> (\<exists>t. breakers (snd (call w)) d = Some (record_failure t b))"
    if "breakers w d = Some b" "cb_state b = CLOSED" for w b
    unfolding call_def
    by (rule guarded_call_fault_closed) (use assms that in auto)
  have run: "\<exists>b' b''. breakers (snd (repeat_calls call m w)) d = Some b' \<and> cb_state b' = CLOSED
      \<and> breakers (snd (repeat_calls call (Suc m) w)) d = Some b'' \<and> cb_state b'' = OPEN
      \<and> (\<forall>r \<in> set (fst (repeat_calls call (Suc m) w)). \<exists>e. r = Inl e \<and> is_dependency_down e)"
    if "breakers w d = Some b" "cb_state b = CLOSED"
      "failures b + int (Suc m) = failure_threshold b" for m w b
    using that
  proof (induction m arbitrary: w b)
    case 0
    obtain r w' where r: "call w = (r, w')" by fastforce
    with step [OF 0(1,2)] 0 show ?case
      by (auto simp: record_failure_def to_open_def transition_def Let_def)
  next
    case (Suc m)
    obtain r w' where r: "call w = (r, w')" by fastforce
    with step [OF Suc.prems(1,2)] obtain t e where
      t: "breakers w' d = Some (record_failure t b)" and e: "r = Inl e" "is_dependency_down e"
      by auto
    have b1: "record_failure t b = b\<lparr>failures := failures b + 1\<rparr>"
      using Suc.prems by (simp add: record_failure_def Let_def)
    have "\<exists>b' b''. breakers (snd (repeat_calls call m w')) d = Some b' \<and> cb_state b' = CLOSED
      \<and> breakers (snd (repeat_calls call (Suc m) w')) d = Some b'' \<and> cb_state b'' = OPEN
      \<and> (\<forall>r \<in> set (fst (repeat_calls call (Suc m) w')). \<exists>e. r = Inl e \<and> is_dependency_down e)"
      by (rule Suc.IH [OF t]) (use Suc.prems b1 in simp_all)
    with r e show ?case by (auto simp: Let_def split: prod.splits)
  qed
  from run [OF assms(2,3), of n] assms(4,5) show ?thesis by simp
qed

text \<open>Answers never reach the breaker as failures. However many calls are answered with values,
  404s, 409s or constraint violations, a closed breaker stays closed and its count is zero; every
  caller gets the operation's own answer, and the operation ran once per call.\<close>

theorem answers_keep_circuit_closed:
  fixes retry :: bool and waits :: "nat \<Rightarrow> seconds"
    and hook :: "('m proc_scheme, unit) awaitable option"
    and op :: "('m proc_scheme, 'a) awaitable"
  assumes "policies d = Some p" and "breakers w d = Some b" and "cb_state b = CLOSED"
    and "answering op" and "lonely op"
  defines "r \<equiv> guarded_call policies waits d hook retry op w"
  shows "breakers (snd r) d = Some (b\<lparr>failures := 0\<rparr>)
    \<and> (\<exists>w1. breakers w1 = breakers w \<and> proc.more w1 = proc.more w
        \<and> Done (fst r) = fst (op (now w + call_timeout_seconds p) w1)
        \<and> proc.more (snd r) = proc.more (snd (op (now w + call_timeout_seconds p) w1)))"
proof -
  let ?w1 = "admitted_state d p b w"
  obtain c w3 where op: "op (now w + call_timeout_seconds p) ?w1 = (c, w3)" by fastforce
  with assms(4) have a: "answer c" by (simp add: answering_def) (metis fst_conv)
  have w3: "breakers w3 = breakers w"
    using assms(5) op admitted_state_closed [OF assms(2,3)] by (simp add: lonely_def) (metis snd_conv)
  have "r = conclude d p c w3"
    unfolding r_def using assms(1-4) op
    by (simp add: guarded_call_admitted allow_def with_retry_answer)
  then have r: "r = ((case c of Done r \<Rightarrow> r | Expired \<Rightarrow> Inl TimeoutError), breaker_succeeds d w3)"
    using conclude_answer [OF a] by simp
  have "breakers (snd r) d = Some (b\<lparr>failures := 0\<rparr>)"
    using r w3 assms(2,3) by (simp add: verdict_breakers record_success_def)
  moreover have "Done (fst r) = c"
    using r a by (auto simp: answer_def split: completion.splits)
  ultimately show ?thesis
    using op r admitted_state_closed [OF assms(2,3), of p]
    by (intro conjI exI [of _ ?w1]) simp_all
qed

subsection \<open>The budget leaves room for every attempt\<close>

definition instant_fault :: "('m proc_scheme, 'a) awaitable \<Rightarrow> bool" where
  "instant_fault op \<longleftrightarrow>
     (\<forall>dl w. (\<exists>e. is_transient e \<and> fst (op dl w) = Done (Inl e)) \<and> now (snd (op dl w)) = now w)"

definition instant_hook :: "('m proc_scheme, unit) awaitable option \<Rightarrow> bool" where
  "instant_hook hook \<longleftrightarrow>
     (\<forall>h dl w. hook = Some h \<longrightarrow> fst (h dl w) = Done (Inr ()) \<and> now (snd (h dl w)) = now w)"

lemma attempt_body_instant:
  assumes "instant_fault op" and "instant_hook hook"
  obtains e w' where "attempt_body hook op k dl w = (Done (Inl e), w')" "is_transient e"
    "now w' = now w"
proof -
  have op: "\<exists>e v. op dl u = (Done (Inl e), v) \<and> is_transient e \<and> now v = now u" for u
    using assms(1) unfolding instant_fault_def by (metis prod.collapse)
  show ?thesis
  proof (cases "hook = None \<or> \<not> 1 < k")
    case True
    then have "attempt_body hook op k dl w = op dl w"
      by (auto simp: attempt_body_def split: option.splits)
    with op [of w] that show ?thesis by auto
  next
    case False
    then obtain h where h: "hook = Some h" by auto
    with assms(2) obtain v where "h dl w = (Done (Inr ()), v)" "now v = now w"
      unfolding instant_hook_def by (metis prod.collapse)
    with False h op [of v] that show ?thesis by (auto simp: attempt_body_def)
  qed
qed

lemma retry_loop_all_attempts:
  assumes "instant_fault op" and "instant_hook hook"
    and "\<And>k. 0 \<le> waits (Suc k) \<and> waits (Suc k) \<le> backoff_bound p k"
    and "int (Suc k) \<le> attempts p"
    and "now w + sum_list (map (backoff_bound p) [k..<nat (attempts p - 1)]) < dl"
  shows "fst (retry_loop p waits hook op (Suc k) dl w) = nat (attempts p)
    \<and> (\<exists>e w'. snd (retry_loop p waits hook op (Suc k) dl w) = (Done (Inl e), w') \<and> is_transient e)"
  using assms(4,5)
proof (induction "nat (attempts p) - k" arbitrary: k w rule: less_induct)
  case less
  obtain e w' where b: "attempt_body hook op (Suc k) dl w = (Done (Inl e), w')" "is_transient e"
    "now w' = now w"
    by (rule attempt_body_instant [OF assms(1,2)])
  show ?case
  proof (cases "int (Suc k) < attempts p")
    case False
    with less.prems b show ?thesis by (subst retry_loop.simps) (subst (2) retry_loop.simps, auto)
  next
    case True
    let ?rest = "sum_list (map (backoff_bound p) [Suc k..<nat (attempts p - 1)])"
    from True have "[k..<nat (attempts p - 1)] = k # [Suc k..<nat (attempts p - 1)]"
      by (intro upt_conv_Cons) linarith
    with less.prems(2) have room: "now w + backoff_bound p k + ?rest < dl" by (simp add: add.assoc)
    have "0 \<le> ?rest"
      by (rule sum_list_nonneg) (use assms(3) order_trans in fastforce)
    with room assms(3) [of k] have "now w + waits (Suc k) < dl" by linarith
    then have sl: "asyncio_sleep (waits (Suc k)) dl w' = (True, w'\<lparr>now := now w + waits (Suc k)\<rparr>)"
      using b(3) by (simp add: asyncio_sleep_def)
    let ?w = "w'\<lparr>now := now w + waits (Suc k)\<rparr>"
    have "now ?w + ?rest < dl" using room assms(3) [of k] by simp
    with True have "fst (retry_loop p waits hook op (Suc (Suc k)) dl ?w) = nat (attempts p)
      \<and> (\<exists>e w'. snd (retry_loop p waits hook op (Suc (Suc k)) dl ?w) = (Done (Inl e), w') \<and> is_transient e)"
      by (intro less.hyps) auto
    moreover have "retry_loop p waits hook op (Suc k) dl w
        = retry_loop p waits hook op (Suc (Suc k)) dl ?w"
      by (subst retry_loop.simps) (use b True sl in simp)
    ultimately show ?thesis by simp
  qed
qed


subsection \<open>A cancelled probe\<close>

text \<open>C38. Cancellation is neither a success nor a failure to the guard. When the only probe of a
  half-open period is cancelled from outside (\<open>CancelledError\<close>, a \<open>BaseException\<close> that no clause
  of the guard catches), nothing is recorded: the breaker stays half-open with its probe spent, and
  from then on every guarded call to the dependency is refused, at every later time.\<close>

theorem cancelled_probe_blocks:
  fixes waits :: "nat \<Rightarrow> seconds" and hook :: "('m proc_scheme, unit) awaitable option"
    and retry :: bool and op :: "('m proc_scheme, 'a) awaitable"
  assumes "policies d = Some p" and "breakers w d = Some b" and "cb_state b = OPEN"
    and "opened_at b + reset_seconds b \<le> now w" and "half_open_max_calls b = 1"
    and "\<forall>dl w. op dl w = (Done (Inl CancelledError), w)"
  defines "w' \<equiv> snd (guarded_call policies waits d hook retry op w)"
  shows "\<exists>b'. breakers w' d = Some b' \<and> cb_state b' = HALF_OPEN \<and> probes b' = 1
    \<and> (\<forall>t. fst (guarded_call policies waits2 d hook2 retry2 op2 (w'\<lparr>now := t\<rparr>))
            = Inl (Domain (DependencyUnavailableError
                (d @ '' is unavailable: the circuit is open'') 0))
        \<and> breakers (snd (guarded_call policies waits2 d hook2 retry2 op2 (w'\<lparr>now := t\<rparr>))) d
            = Some b')"
proof -
  let ?b = "(to_half_open b)\<lparr>probes := 1\<rparr>"
  have al: "allow (now w) b = (True, ?b)"
    using assms(3-5) by (simp add: breaker_defs)
  have loop: "retry_loop q waits hk op (Suc 0) dl v = (Suc 0, Done (Inl CancelledError), v)" for q hk dl v
    using assms(6)
    by (subst retry_loop.simps) (auto simp: attempt_body_def split: option.splits)
  have retried: "with_retry q d waits hk op dl v = (Done (Inl CancelledError), v)" for q hk dl v
    by (simp add: with_retry_def loop)
  have "breakers (get_breaker d p w) d = Some b" and "fst (allow (now w) b)"
    using assms(2) al by simp_all
  then have "w' = admitted_state d p b w"
    unfolding w'_def using guarded_call_admitted [of policies d p w b waits hook retry op] assms(1)
    by (simp add: retried conclude_def)
  then have w': "breakers w' d = Some ?b"
    using assms(2) al by (simp add: admitted_state_def)
  have al': "allow t ?b = (False, ?b)" for t
    using assms(5) by (simp add: breaker_defs)
  show ?thesis
    using w' al' assms(1,5)
    by (intro exI [of _ ?b])
      (simp add: guarded_call_refused admitted_state_def breaker_defs)
qed

subsection \<open>The properties at concrete states\<close>

text \<open>
  A process whose database work is one number, the executions so far; a database that refuses the
  connection, one that answers, one that never does; the shipped policy.
\<close>

definition demo_policies :: "string \<rightharpoonup> dependency_policy" where
  "demo_policies = [''mysql'' \<mapsto> database_policy default_settings]"

definition demo_state :: "circuit_breaker \<Rightarrow> nat proc_scheme" where
  "demo_state b = \<lparr>now = 100, breakers = [''mysql'' \<mapsto> b], metrics = [], \<dots> = 0\<rparr>"

definition demo_closed :: circuit_breaker where
  "demo_closed = new_breaker ''mysql'' 5 10 1 []"

definition demo_open :: "seconds \<Rightarrow> circuit_breaker" where
  "demo_open t = to_open t demo_closed"

definition demo_down :: "(nat proc_scheme, nat) awaitable" where
  "demo_down dl w = (Done (Inl (OperationalError ''gone'')), w\<lparr>proc.more := Suc (proc.more w)\<rparr>)"

definition demo_up :: "(nat proc_scheme, nat) awaitable" where
  "demo_up dl w = (Done (Inr (proc.more w)), w\<lparr>proc.more := Suc (proc.more w)\<rparr>)"

definition demo_hang :: "(nat proc_scheme, nat) awaitable" where
  "demo_hang dl w = (Expired, w\<lparr>now := max (now w) dl\<rparr>)"

definition demo_rollback :: "(nat proc_scheme, unit) awaitable" where
  "demo_rollback dl w = (Done (Inr ()), w)"

lemma demo_closed_simps [simp]:
  "cb_state demo_closed = CLOSED" "failures demo_closed = 0" "failure_threshold demo_closed = 5"
  by (simp_all add: demo_closed_def new_breaker_def)

lemma demo_open_simps [simp]:
  "cb_state (demo_open t) = OPEN" "opened_at (demo_open t) = t" "reset_seconds (demo_open t) = 10"
  "half_open_max_calls (demo_open t) = 1"
  by (simp_all add: demo_open_def breaker_defs demo_closed_def)

lemma demo_state_simps [simp]:
  "now (demo_state b) = 100" "breakers (demo_state b) = [''mysql'' \<mapsto> b]"
  "metrics (demo_state b) = []" "proc.more (demo_state b) = 0"
  by (simp_all add: demo_state_def)

lemma demo_policy_simps [simp]:
  "demo_policies ''mysql'' = Some (database_policy default_settings)"
  "call_timeout_seconds (database_policy default_settings) = 3"
  "attempts (database_policy default_settings) = 2"
  by (simp_all add: demo_policies_def database_policy_def default_settings_def)

lemma demo_default_policy_ok: "policy_ok (database_policy default_settings)"
  using build_policies_accepted [OF build_policies_default] by simp

theorem guarded_call_bounded_witness:
  "now (snd (guarded_call demo_policies (\<lambda>_. 1 / 100) ''mysql'' (Some demo_rollback) True demo_hang
     (demo_state demo_closed))) \<le> 103"
  using guarded_call_bounded [of demo_policies "''mysql''" "database_policy default_settings"
      demo_hang "Some demo_rollback" "\<lambda>_. 1 / 100" "demo_state demo_closed" True]
  by (simp add: prompt_def demo_hang_def demo_rollback_def max_def)

theorem guarded_call_translates_witness:
  "\<not> is_transient (Domain (DependencyUnavailableError ''mysql is unavailable: the circuit is open'' 5))"
proof -
  have "fst (guarded_call demo_policies (\<lambda>_. 0) ''mysql'' (Some demo_rollback) True demo_down
      (demo_state (demo_open 95)))
    = Inl (Domain (DependencyUnavailableError ''mysql is unavailable: the circuit is open'' 5))"
    by (simp add: guarded_call_def Let_def allow_def seconds_until_probe_def)
  from guarded_call_translates [OF _ this] show ?thesis by simp
qed

theorem open_circuit_costs_nothing_witness:
  "guarded_call demo_policies (\<lambda>_. 0) ''mysql'' (Some demo_rollback) True demo_down
     (demo_state (demo_open 95))
   = (Inl (Domain (DependencyUnavailableError
        (''mysql'' @ '' is unavailable: the circuit is open'') 5)), demo_state (demo_open 95))"
  using open_circuit_costs_nothing [of demo_policies "''mysql''" "database_policy default_settings"
      "demo_state (demo_open 95)" "demo_open 95"] by simp

theorem executions_bounded_witness:
  "proc.more (snd (guarded_write demo_policies (\<lambda>_. 0) ''mysql'' demo_down (demo_state demo_closed)))
     \<le> 1"
  using executions_bounded [of demo_policies "''mysql''" "database_policy default_settings" id
      demo_down "Some demo_rollback" "\<lambda>_. 0" "demo_state demo_closed"]
  by (simp add: demo_down_def demo_rollback_def)

theorem outage_opens_circuit_witness:
  "\<exists>b. breakers (snd (repeat_calls (guarded_call demo_policies (\<lambda>_. 1 / 100) ''mysql''
      (Some demo_rollback) True demo_down) 5 (demo_state demo_closed))) ''mysql'' = Some b
    \<and> cb_state b = OPEN"
proof -
  have "faulty demo_down" "lonely demo_down" "plain_hook (Some demo_rollback)" "lonely demo_rollback"
    by (simp_all add: faulty_def demo_down_def lonely_def plain_hook_def demo_rollback_def)
  then show ?thesis
    using outage_opens_circuit [of demo_policies "''mysql''" "database_policy default_settings"
        "demo_state demo_closed" demo_closed 4 demo_down "Some demo_rollback" "\<lambda>_. 1 / 100" True]
    by (auto simp: eval_nat_numeral)
qed

theorem answers_keep_circuit_closed_witness:
  "breakers (snd (guarded_call demo_policies (\<lambda>_. 0) ''mysql'' None True demo_up
     (demo_state demo_closed))) ''mysql'' = Some demo_closed"
  using answers_keep_circuit_closed [of demo_policies "''mysql''" "database_policy default_settings"
      "demo_state demo_closed" demo_closed demo_up "\<lambda>_. 0" None True]
  by (simp add: answering_def answer_def demo_up_def lonely_def)


definition demo_cancelled :: "(nat proc_scheme, nat) awaitable" where
  "demo_cancelled dl w = (Done (Inl CancelledError), w)"

theorem cancelled_probe_blocks_witness:
  "fst (guarded_call demo_policies (\<lambda>_. 0) ''mysql'' None True demo_up
      ((snd (guarded_call demo_policies (\<lambda>_. 0) ''mysql'' None True demo_cancelled
         (demo_state (demo_open 80))))\<lparr>now := 100000\<rparr>))
   = Inl (Domain (DependencyUnavailableError
        (''mysql'' @ '' is unavailable: the circuit is open'') 0))"
  using cancelled_probe_blocks [of demo_policies "''mysql''" "database_policy default_settings"
      "demo_state (demo_open 80)" "demo_open 80" demo_cancelled "\<lambda>_. 0" None True "\<lambda>_. 0" None True
      demo_up]
  by (auto simp: demo_cancelled_def)

end
