(* ===== verification/Session.thy ===== *)
theory Session
  imports Guard
begin

text \<open>
  \<open>app/db/after_commit.py\<close> and \<open>get_session\<close> of \<open>app/db/session.py\<close>: the queue of work that waits
  for the commit, and the transaction of one request.

  A \<open>command\<close> is a computation that may raise and changes the state. The state of a request holds
  what the process holds and \<open>session.info\<close>, of which the source uses one key: \<open>None\<close> means the key
  is absent. A callback is a value of an arbitrary type, run by the argument \<open>call\<close>. The driver's
  \<open>commit\<close> and \<open>rollback\<close> are arguments.
\<close>

type_synonym ('w, 'a) command = "'w \<Rightarrow> (exn + 'a) \<times> 'w"

definition return_cmd :: "'a \<Rightarrow> ('w, 'a) command" where
  "return_cmd a w = (Inr a, w)"

definition raise_cmd :: "exn \<Rightarrow> ('w, 'a) command" where
  "raise_cmd e w = (Inl e, w)"

definition bind_cmd :: "('w, 'a) command \<Rightarrow> ('a \<Rightarrow> ('w, 'b) command) \<Rightarrow> ('w, 'b) command" where
  "bind_cmd m f w = (case m w of (Inl e, w') \<Rightarrow> (Inl e, w') | (Inr a, w') \<Rightarrow> f a w')"

lemma return_cmd_simp [simp]: "return_cmd a w = (Inr a, w)"
  by (simp add: return_cmd_def)

lemma raise_cmd_simp [simp]: "raise_cmd e w = (Inl e, w)"
  by (simp add: raise_cmd_def)

lemma bind_cmd_Inl [simp]: "m w = (Inl e, w') \<Longrightarrow> bind_cmd m f w = (Inl e, w')"
  by (simp add: bind_cmd_def)

lemma bind_cmd_Inr [simp]: "m w = (Inr a, w') \<Longrightarrow> bind_cmd m f w = f a w'"
  by (simp add: bind_cmd_def)

lemma bind_cmd_return [simp]: "bind_cmd (return_cmd a) f = f a"
  by (rule ext) (simp add: bind_cmd_def)

lemma bind_cmd_raise [simp]: "bind_cmd (raise_cmd e) f = raise_cmd e"
  by (rule ext) (simp add: bind_cmd_def)

lemma bind_cmd_assoc: "bind_cmd (bind_cmd m f) g = bind_cmd m (\<lambda>a. bind_cmd (f a) g)"
  by (rule ext) (auto simp: bind_cmd_def split: prod.splits sum.splits)

record 'c session = proc +
  session_info :: "'c list option"

subsection \<open>The queue\<close>

definition after_commit :: "'c \<Rightarrow> ('c, 'm) session_scheme \<Rightarrow> ('c, 'm) session_scheme" where
  "after_commit callback w =
     w\<lparr>session_info := Some ((case session_info w of None \<Rightarrow> [] | Some q \<Rightarrow> q) @ [callback])\<rparr>"

definition pending_after_commit :: "('c, 'm) session_scheme \<Rightarrow> 'c list" where
  "pending_after_commit w = (case session_info w of None \<Rightarrow> [] | Some q \<Rightarrow> q)"

definition discard_after_commit :: "('c, 'm) session_scheme \<Rightarrow> ('c, 'm) session_scheme" where
  "discard_after_commit w = w\<lparr>session_info := None\<rparr>"

fun run_callbacks ::
  "('c \<Rightarrow> (('c, 'm) session_scheme, unit) command) \<Rightarrow> 'c list
   \<Rightarrow> (('c, 'm) session_scheme, unit) command" where
  "run_callbacks call [] w = (Inr (), w)"
| "run_callbacks call (callback # callbacks) w =
     (case call callback w of
        (Inr _, w') \<Rightarrow> run_callbacks call callbacks w'
      | (Inl e, w') \<Rightarrow>
          if is_exception e then run_callbacks call callbacks w' else (Inl e, w'))"

definition drain_after_commit ::
  "('c \<Rightarrow> (('c, 'm) session_scheme, unit) command)
   \<Rightarrow> (('c, 'm) session_scheme, unit) command" where
  "drain_after_commit call w =
     run_callbacks call (pending_after_commit w) (discard_after_commit w)"

subsection \<open>One transaction per request\<close>

text \<open>
  \<open>get_session\<close> around a handler: the generator yields a fresh session, so \<open>session.info\<close> starts
  empty; what the handler raises is thrown in at the \<open>yield\<close>, and what the rollback itself raises
  replaces it.
\<close>

definition rollback_and_raise ::
  "(('c, 'm) session_scheme, unit) command \<Rightarrow> exn \<Rightarrow> (('c, 'm) session_scheme, 'a) command" where
  "rollback_and_raise rollback e w =
     (case rollback w of
        (Inl e', w') \<Rightarrow> (Inl e', w')
      | (Inr _, w') \<Rightarrow> (Inl e, discard_after_commit w'))"

definition get_session ::
  "(('c, 'm) session_scheme, unit) command \<Rightarrow> (('c, 'm) session_scheme, unit) command
   \<Rightarrow> ('c \<Rightarrow> (('c, 'm) session_scheme, unit) command) \<Rightarrow> (('c, 'm) session_scheme, 'a) command
   \<Rightarrow> (('c, 'm) session_scheme, 'a) command" where
  "get_session commit rollback call handler w =
     (case handler (w\<lparr>session_info := None\<rparr>) of
        (Inl e, w1) \<Rightarrow> rollback_and_raise rollback e w1
      | (Inr a, w1) \<Rightarrow>
          (case commit w1 of
             (Inl e, w2) \<Rightarrow> rollback_and_raise rollback e w2
           | (Inr _, w2) \<Rightarrow> bind_cmd (drain_after_commit call) (\<lambda>_. return_cmd a) w2))"

subsection \<open>Facts about the queue\<close>

lemma pending_after_commit_snoc [simp]:
  "pending_after_commit (after_commit c w) = pending_after_commit w @ [c]"
  by (simp add: after_commit_def pending_after_commit_def split: option.splits)

lemma pending_discard [simp]: "pending_after_commit (discard_after_commit w) = []"
  by (simp add: discard_after_commit_def pending_after_commit_def)

text \<open>A callback that raises at most an \<open>Exception\<close> (and is not cancelled).\<close>

definition contained :: "('w, 'a) command \<Rightarrow> bool" where
  "contained m \<longleftrightarrow> (\<forall>w. case fst (m w) of Inl e \<Rightarrow> is_exception e | Inr _ \<Rightarrow> True)"

lemma containedD: "contained m \<Longrightarrow> m w = (Inl e, w') \<Longrightarrow> is_exception e"
  unfolding contained_def by (drule spec [of _ w]) simp

lemma run_callbacks_contained:
  assumes "\<forall>c \<in> set cs. contained (call c)"
  shows "run_callbacks call cs w = (Inr (), foldl (\<lambda>w c. snd (call c w)) w cs)"
  using assms
proof (induction cs arbitrary: w)
  case (Cons c cs)
  obtain r w' where r: "call c w = (r, w')" by fastforce
  with Cons show ?case by (cases r) (auto dest: containedD)
qed simp

text \<open>After a commit every registered callback runs, once, in the order of registration, whether
  or not the ones before it raised; the queue is emptied before the first of them starts, and no
  failure of a callback reaches the client.\<close>

theorem drain_runs_everything:
  assumes "\<forall>c \<in> set (pending_after_commit w). contained (call c)"
  shows "drain_after_commit call w =
    (Inr (), foldl (\<lambda>w c. snd (call c w)) (discard_after_commit w) (pending_after_commit w))"
  using assms by (simp add: drain_after_commit_def run_callbacks_contained)

text \<open>The callbacks of the witness append their number to a list, and odd ones then raise.\<close>

definition demo_callback :: "nat \<Rightarrow> ((nat, nat list) session_scheme, unit) command" where
  "demo_callback n w =
     (if odd n then Inl (ValueError ''odd'') else Inr (), w\<lparr>session.more := session.more w @ [n]\<rparr>)"

definition demo_session :: "(nat, nat list) session_scheme" where
  "demo_session = \<lparr>now = 0, breakers = Map.empty, metrics = [], session_info = None, \<dots> = []\<rparr>"

lemma demo_callback_contained: "contained (demo_callback n)"
  by (simp add: contained_def demo_callback_def)

theorem drain_runs_everything_witness:
  "session.more (snd (drain_after_commit demo_callback
      (after_commit 4 (after_commit 3 (after_commit 2 demo_session))))) = [2, 3, 4]"
  by (subst drain_runs_everything)
    (simp_all add: demo_callback_contained demo_session_def demo_callback_def discard_after_commit_def
      after_commit_def pending_after_commit_def)

text \<open>C17. The callbacks run if and only if the transaction committed. When the handler and the commit
  succeed, the handler's value is returned after the queue has been drained in the committed state.
  When the handler or the commit raises, the transaction is rolled back, the queue is dropped without
  running anything, and the error is the one that was raised.\<close>

theorem get_session_outcome:
  assumes "handler (w\<lparr>session_info := None\<rparr>) = (r, w1)"
    and "commit w1 = (rc, w2)"
    and "\<forall>w. \<exists>w'. rollback w = (Inr (), w')"
    and "\<forall>c. contained (call c)"
  shows "get_session commit rollback call handler w =
    (case r of
       Inl e \<Rightarrow> (Inl e, discard_after_commit (snd (rollback w1)))
     | Inr a \<Rightarrow>
         (case rc of
            Inl e \<Rightarrow> (Inl e, discard_after_commit (snd (rollback w2)))
          | Inr _ \<Rightarrow>
              (Inr a, foldl (\<lambda>w c. snd (call c w)) (discard_after_commit w2)
                        (pending_after_commit w2))))"
proof -
  have rb: "rollback_and_raise rollback e v = (Inl e, discard_after_commit (snd (rollback v)))" for e v
    using assms(3) [rule_format, of v] by (auto simp: rollback_and_raise_def)
  have "drain_after_commit call w2
      = (Inr (), foldl (\<lambda>w c. snd (call c w)) (discard_after_commit w2) (pending_after_commit w2))"
    using assms(4) by (simp add: drain_after_commit_def run_callbacks_contained)
  then show ?thesis
    using assms(1,2) rb by (auto simp: get_session_def bind_cmd_def split: sum.splits)
qed

theorem get_session_outcome_witness:
  "session.more (snd (get_session (\<lambda>w. (Inr (), w\<lparr>session.more := session.more w @ [0]\<rparr>))
      (\<lambda>w. (Inr (), w)) demo_callback (\<lambda>w. (Inr (), after_commit 3 (after_commit 2 w)))
      demo_session)) = [0, 2, 3]"
  by (subst get_session_outcome [OF refl refl])
    (simp_all add: demo_callback_contained demo_session_def demo_callback_def discard_after_commit_def
      after_commit_def pending_after_commit_def)

end
