(* ===== verification/Base64.thy ===== *)
theory Base64
  imports PyText
begin

text \<open>
  Python's \<open>base64.urlsafe_b64encode\<close> and \<open>urlsafe_b64decode\<close>, which the pagination cursor is
  made with. Bytes are natural numbers below 256.

  The decoder is the one of \<open>binascii.a2b_base64\<close> in its default, non-strict mode: a character
  outside the alphabet is skipped, a padding sign ends the input once it completes a group and is
  skipped before, and an incomplete group at the end is an error. \<open>urlsafe_b64decode\<close> maps \<open>-\<close> and
  \<open>_\<close> to \<open>+\<close> and \<open>/\<close> first, so all four stand for their value.
\<close>

definition b64_char :: "nat \<Rightarrow> char" where
  "b64_char n =
     (if n < 26 then char_of (65 + n)
      else if n < 52 then char_of (71 + n)
      else if n < 62 then char_of (n - 4)
      else if n = 62 then CHR ''-'' else CHR ''_'')"

fun urlsafe_b64encode :: "nat list \<Rightarrow> string" where
  "urlsafe_b64encode [] = []"
| "urlsafe_b64encode [a] = [b64_char (a div 4), b64_char (a mod 4 * 16), CHR ''='', CHR ''='']"
| "urlsafe_b64encode [a, b] =
     [b64_char (a div 4), b64_char (a mod 4 * 16 + b div 16), b64_char (b mod 16 * 4), CHR ''='']"
| "urlsafe_b64encode (a # b # c # r) =
     b64_char (a div 4) # b64_char (a mod 4 * 16 + b div 16)
       # b64_char (b mod 16 * 4 + c div 64) # b64_char (c mod 64) # urlsafe_b64encode r"

definition b64_value :: "char \<Rightarrow> nat option" where
  "b64_value ch =
     (let n = (of_char ch :: nat) in
      if 65 \<le> n \<and> n \<le> 90 then Some (n - 65)
      else if 97 \<le> n \<and> n \<le> 122 then Some (n - 71)
      else if 48 \<le> n \<and> n \<le> 57 then Some (n + 4)
      else if ch = CHR ''+'' \<or> ch = CHR ''-'' then Some 62
      else if ch = CHR ''/'' \<or> ch = CHR ''_'' then Some 63
      else None)"

text \<open>
  \<open>b64_scan quad left pads s\<close>: \<open>quad\<close> characters of the current group were read, \<open>left\<close> holds
  their bits that are not out yet, \<open>pads\<close> counts padding signs. \<open>None\<close> is \<open>binascii.Error\<close>.
\<close>

fun b64_scan :: "nat \<Rightarrow> nat \<Rightarrow> nat \<Rightarrow> string \<Rightarrow> nat list option" where
  "b64_scan quad left pads [] = (if quad = 0 then Some [] else None)"
| "b64_scan quad left pads (ch # s) =
     (if ch = CHR ''='' then
        (if 2 \<le> quad then
           (if 4 \<le> quad + (pads + 1) then Some [] else b64_scan quad left (pads + 1) s)
         else b64_scan quad left pads s)
      else case b64_value ch of
          None \<Rightarrow> b64_scan quad left pads s
        | Some v \<Rightarrow>
            if quad = 0 then b64_scan 1 v 0 s
            else if quad = 1 then
              map_option (\<lambda>r. (left * 4 + v div 16) # r) (b64_scan 2 (v mod 16) 0 s)
            else if quad = 2 then
              map_option (\<lambda>r. (left * 16 + v div 4) # r) (b64_scan 3 (v mod 4) 0 s)
            else map_option (\<lambda>r. (left * 64 + v) # r) (b64_scan 0 0 0 s))"

definition urlsafe_b64decode :: "string \<Rightarrow> nat list option" where
  "urlsafe_b64decode s = b64_scan 0 0 0 s"

subsection \<open>Round trip\<close>

lemma of_char_b64:
  "n < 64 \<Longrightarrow> (of_char (b64_char n) :: nat) =
     (if n < 26 then 65 + n else if n < 52 then 71 + n else if n < 62 then n - 4
      else if n = 62 then 45 else 95)"
  by (auto simp: b64_char_def of_char_of)

lemma b64_value_char [simp]:
  assumes "n < 64"
  shows "b64_value (b64_char n) = Some n"
proof -
  consider "n < 26" | "26 \<le> n" "n < 52" | "52 \<le> n" "48 \<le> n - 4" "n - 4 \<le> 57" "n < 62"
    | "n = 62" | "n = 63"
    using assms by linarith
  then show ?thesis
    by cases (simp_all add: b64_value_def of_char_b64 Let_def b64_char_def of_char_of)
qed

lemma b64_char_not_pad [simp]:
  assumes "n < 64"
  shows "b64_char n \<noteq> CHR ''=''"
proof
  assume "b64_char n = CHR ''=''"
  then have "b64_value (b64_char n) = None" by (simp add: b64_value_def)
  with assms show False by simp
qed

lemma b64_char_ascii: "n < 64 \<Longrightarrow> is_ascii (b64_char n)"
  using of_char_b64 [of n] by (auto simp: is_ascii_def)

text \<open>The encoding without its padding.\<close>

fun b64_body :: "nat list \<Rightarrow> string" where
  "b64_body [] = []"
| "b64_body [a] = [b64_char (a div 4), b64_char (a mod 4 * 16)]"
| "b64_body [a, b] =
     [b64_char (a div 4), b64_char (a mod 4 * 16 + b div 16), b64_char (b mod 16 * 4)]"
| "b64_body (a # b # c # r) =
     b64_char (a div 4) # b64_char (a mod 4 * 16 + b div 16)
       # b64_char (b mod 16 * 4 + c div 64) # b64_char (c mod 64) # b64_body r"

definition pad_count :: "nat \<Rightarrow> nat" where
  "pad_count len = (4 - len mod 4) mod 4"

lemma pad_count_int: "int (pad_count n) = - int n mod 4"
proof -
  have "int (pad_count n) = (4 - int n mod 4) mod 4"
    by (simp add: pad_count_def of_nat_mod of_nat_diff)
  also have "\<dots> = (- int n + 4) mod 4"
    by (metis add.commute diff_conv_add_uminus mod_diff_right_eq)
  finally show ?thesis by simp
qed

lemma b64_sextets [simp]:
  fixes a b c :: nat
  shows "a < 256 \<Longrightarrow> a div 4 < 64"
    and "b < 256 \<Longrightarrow> a mod 4 * 16 + b div 16 < 64"
    and "c < 256 \<Longrightarrow> b mod 16 * 4 + c div 64 < 64"
    and "c mod 64 < 64" and "a mod 4 * 16 < 64" and "b mod 16 * 4 < 64"
  by linarith+

lemma b64_scan_char [simp]:
  assumes "n < 64"
  shows "b64_scan 0 l p (b64_char n # s) = b64_scan 1 n 0 s"
    and "b64_scan (Suc 0) l p (b64_char n # s) =
           map_option (\<lambda>r. (l * 4 + n div 16) # r) (b64_scan 2 (n mod 16) 0 s)"
    and "b64_scan 2 l p (b64_char n # s) =
           map_option (\<lambda>r. (l * 16 + n div 4) # r) (b64_scan 3 (n mod 4) 0 s)"
    and "b64_scan 3 l p (b64_char n # s) =
           map_option (\<lambda>r. (l * 64 + n) # r) (b64_scan 0 0 0 s)"
  using assms by simp_all

lemma b64_encode_body:
  "urlsafe_b64encode bs = b64_body bs @ replicate (pad_count (length (b64_body bs))) CHR ''=''"
proof (induction bs rule: b64_body.induct)
  case (4 a b c r)
  have "pad_count (length (b64_body (a # b # c # r))) = pad_count (length (b64_body r))"
    by (simp add: pad_count_def)
  with 4 show ?case by simp
qed (simp_all add: pad_count_def numeral_2_eq_2)

lemma b64_body_last:
  assumes "\<forall>b \<in> set bs. b < 256" and "bs \<noteq> []"
  shows "last (b64_body bs) \<noteq> CHR ''='' \<and> b64_body bs \<noteq> []"
  using assms
proof (induction bs rule: b64_body.induct)
  case (4 a b c r)
  then show ?case by (cases r) auto
qed (simp_all add: b64_sextets)

lemma rstrip_encode:
  assumes "\<forall>b \<in> set bs. b < 256"
  shows "rstrip_char CHR ''='' (urlsafe_b64encode bs) = b64_body bs"
  unfolding b64_encode_body
  by (rule rstrip_char_replicate) (use b64_body_last [OF assms] in \<open>cases bs; auto\<close>)

lemma b64_body_ascii: "\<forall>b \<in> set bs. b < 256 \<Longrightarrow> \<forall>c \<in> set (b64_body bs). is_ascii c"
  by (induction bs rule: b64_body.induct) (auto simp: b64_char_ascii b64_sextets)

lemma b64_low_bits:
  fixes b c :: nat
  assumes "b < 256"
  shows "b div 16 div 16 = 0" and "b div 16 mod 16 = b div 16"
    and "b div 64 div 4 = 0" and "b div 64 mod 4 = b div 64"
proof -
  have "b div 16 < 16" "b div 64 < 4" using assms by linarith+
  then show "b div 16 div 16 = 0" and "b div 16 mod 16 = b div 16"
    and "b div 64 div 4 = 0" and "b div 64 mod 4 = b div 64" by simp_all
qed

lemma b64_scan_body:
  assumes "\<forall>b \<in> set bs. b < 256"
  shows "b64_scan 0 0 0 (b64_body bs @ replicate (pad_count (length (b64_body bs))) CHR ''='') = Some bs"
  using assms
proof (induction bs rule: b64_body.induct)
  case 1
  show ?case by (simp add: pad_count_def)
next
  case (2 a)
  then show ?case by (simp add: pad_count_def numeral_2_eq_2)
next
  case (3 a b)
  then have "b < 256" by simp
  with 3 show ?case by (simp add: pad_count_def b64_low_bits [OF \<open>b < 256\<close>])
next
  case (4 a b c r)
  have "pad_count (length (b64_body (a # b # c # r))) = pad_count (length (b64_body r))"
    by (simp add: pad_count_def)
  moreover from 4 have "b < 256" "c < 256" by simp_all
  ultimately show ?case
    using 4 by (simp add: b64_low_bits [OF \<open>b < 256\<close>] b64_low_bits [OF \<open>c < 256\<close>])
qed

lemma urlsafe_roundtrip:
  assumes "\<forall>b \<in> set bs. b < 256"
  shows "urlsafe_b64decode (b64_body bs @ replicate (pad_count (length (b64_body bs))) CHR ''='')
    = Some bs"
  using b64_scan_body [OF assms] by (simp add: urlsafe_b64decode_def)

end
