(* ===== verification/Pagination.thy ===== *)
theory Pagination
  imports Base64 Exceptions
begin

text \<open>
  \<open>app/api/pagination.py\<close>: the opaque keyset cursor. A naive \<open>datetime\<close> is the number of
  microseconds since 1970-01-01 (an \<open>int\<close>, negative before it), so \<open>datetime.max\<close> is
  \<open>datetime_max\<close> and the arithmetic of \<open>timedelta\<close> is integer arithmetic.
\<close>

type_synonym datetime = int

definition datetime_max :: datetime where "datetime_max = 253402300799999999"

definition datetime_min :: datetime where "datetime_min = -62135596800000000"

definition DEFAULT_PAGE_SIZE :: int where "DEFAULT_PAGE_SIZE = 20"

definition MAX_PAGE_SIZE :: int where "MAX_PAGE_SIZE = 100"

text \<open>
  A \<open>timedelta\<close> keeps days, seconds and microseconds, the last two not negative and below a day and
  a second; the source adds them up again.
\<close>

definition epoch_micros :: "datetime \<Rightarrow> int" where
  "epoch_micros created_at =
     (let days = created_at div 86400000000;
          seconds = created_at mod 86400000000 div 1000000;
          microseconds = created_at mod 1000000 in
      (days * 86400 + seconds) * 1000000 + microseconds)"

definition ascii_bytes :: "string \<Rightarrow> nat list" where
  "ascii_bytes s = map of_char s"

definition encode_cursor :: "datetime \<Rightarrow> int \<Rightarrow> string" where
  "encode_cursor created_at article_id =
     (let micros = epoch_micros created_at;
          raw = ascii_bytes (str_int micros @ '':'' @ str_int article_id) in
      rstrip_char CHR ''='' (urlsafe_b64encode raw))"

text \<open>\<open>str.isdigit\<close> of ASCII text, and \<open>int\<close> of digits: Python refuses more than 4300 of them.\<close>

definition isdigit :: "string \<Rightarrow> bool" where
  "isdigit s \<longleftrightarrow> s \<noteq> [] \<and> (\<forall>c \<in> set s. is_ascii_digit c)"

definition int_of_digits :: "string \<Rightarrow> int option" where
  "int_of_digits s = (if 4300 < length s then None else Some (int (nat_of_dec s)))"

definition invalid_cursor :: exn where
  "invalid_cursor = Domain (InvalidCursorError ''Invalid pagination cursor.'')"

text \<open>
  \<open>_EPOCH + timedelta(microseconds=micros)\<close>: beyond the range of \<open>datetime\<close> Python raises
  \<open>OverflowError\<close>, which the \<open>except\<close> clause of \<open>decode_cursor\<close> does not list.
\<close>

definition epoch_plus :: "int \<Rightarrow> exn + datetime" where
  "epoch_plus micros =
     (if micros < datetime_min \<or> datetime_max < micros
      then Inl (OverflowError ''date value out of range'') else Inr micros)"

definition decode_cursor :: "string \<Rightarrow> exn + (datetime \<times> int)" where
  "decode_cursor cursor =
     (if \<not> (\<forall>c \<in> set cursor. is_ascii c) then Inl invalid_cursor
      else
        let padded = cursor @ replicate (nat (- int (length cursor) mod 4)) CHR ''='' in
        case urlsafe_b64decode padded of
          None \<Rightarrow> Inl invalid_cursor
        | Some raw \<Rightarrow>
            if \<not> (\<forall>b \<in> set raw. b < 128) then Inl invalid_cursor
            else
              let (micros_part, sep, id_part) = partition_char CHR '':'' (map char_of raw) in
              if \<not> (sep \<and> isdigit micros_part \<and> isdigit id_part) then Inl invalid_cursor
              else case (int_of_digits micros_part, int_of_digits id_part) of
                  (Some micros, Some article_id) \<Rightarrow>
                    if article_id \<le> 0 then Inl invalid_cursor
                    else sum_bind (epoch_plus micros) (\<lambda>t. Inr (t, article_id))
                | _ \<Rightarrow> Inl invalid_cursor)"

subsection \<open>Encoding\<close>

lemma day_split:
  fixes d r u m t :: int
  shows "u * 1000000 + m = r \<Longrightarrow> d * 86400000000 + r = t \<Longrightarrow> (d * 86400 + u) * 1000000 + m = t"
  by (auto simp: distrib_right)

lemma epoch_micros_id [simp]: "epoch_micros t = t"
proof -
  have "t mod 1000000 = t mod 86400000000 mod 1000000"
    by (simp add: mod_mod_cancel)
  then have "t mod 86400000000 div 1000000 * 1000000 + t mod 1000000 = t mod 86400000000"
    by simp
  then show ?thesis
    unfolding epoch_micros_def Let_def by (rule day_split) (rule div_mult_mod_eq)
qed

lemma ascii_bytes_lt: "\<forall>b \<in> set (ascii_bytes s). b < 256"
  by (simp add: ascii_bytes_def)

lemma map_char_ascii_bytes [simp]: "map char_of (ascii_bytes s) = s"
  by (simp add: ascii_bytes_def comp_def map_idI)

lemma digit_is_ascii: "is_ascii_digit c \<Longrightarrow> is_ascii c"
  by (simp add: is_ascii_digit_def is_ascii_def)

lemma cursor_text_ascii:
  "b \<in> set (ascii_bytes (str_int i @ '':'' @ str_int j)) \<Longrightarrow> b < 128"
  using digit_is_ascii
  by (auto simp: ascii_bytes_def is_ascii_def dest!: str_int_chars)

lemma encode_cursor_body:
  "encode_cursor t i = b64_body (ascii_bytes (str_int t @ '':'' @ str_int i))"
  by (simp add: encode_cursor_def Let_def rstrip_encode [OF ascii_bytes_lt])

text \<open>The decoder gets to the text of an encoded cursor.\<close>

lemma decode_encoded:
  "decode_cursor (encode_cursor t i) =
     (if \<not> (isdigit (str_int t) \<and> isdigit (str_int i)) then Inl invalid_cursor
      else case (int_of_digits (str_int t), int_of_digits (str_int i)) of
          (Some micros, Some article_id) \<Rightarrow>
            if article_id \<le> 0 then Inl invalid_cursor
            else sum_bind (epoch_plus micros) (\<lambda>u. Inr (u, article_id))
        | _ \<Rightarrow> Inl invalid_cursor)"
proof -
  let ?raw = "ascii_bytes (str_int t @ '':'' @ str_int i)"
  have "\<forall>c \<in> set (b64_body ?raw). is_ascii c"
    by (rule b64_body_ascii) (rule ascii_bytes_lt)
  moreover have "nat (- int (length (b64_body ?raw)) mod 4) = pad_count (length (b64_body ?raw))"
    by (simp flip: pad_count_int)
  moreover have "partition_char CHR '':'' (str_int t @ '':'' @ str_int i)
      = (str_int t, True, str_int i)"
    using partition_char_found [of "CHR '':''" "str_int t" "str_int i"] by simp
  moreover have "\<forall>b \<in> set ?raw. b < 128" using cursor_text_ascii by blast
  ultimately show ?thesis
    unfolding encode_cursor_body decode_cursor_def Let_def
    by (simp add: urlsafe_roundtrip [OF ascii_bytes_lt])
qed

lemma isdigit_str_int: "isdigit (str_int i) \<longleftrightarrow> 0 \<le> i"
  using dec_nat_digits by (auto simp: isdigit_def str_int_def)

lemma int_of_digits_str:
  assumes "0 \<le> i" and "i < 10 ^ 20"
  shows "int_of_digits (str_int i) = Some i"
proof -
  have "nat i < 10 ^ Suc 19" using assms by simp
  from length_dec_nat [OF this] have "length (str_int i) \<le> 20"
    using assms(1) by (simp add: str_int_nonneg)
  with assms(1) show ?thesis by (simp add: int_of_digits_def str_int_nonneg)
qed

lemma decode_encoded_cursor:
  assumes "0 \<le> t" and "t \<le> datetime_max" and "0 < i" and "i < 2 ^ 64"
  shows "decode_cursor (encode_cursor t i) = Inr (t, i)"
  using assms
  by (simp add: decode_encoded isdigit_str_int int_of_digits_str epoch_plus_def datetime_max_def
      datetime_min_def)

subsection \<open>Properties\<close>

text \<open>C32. The cursor round-trips: decoding the cursor made of a row's creation time and id gives back
  exactly that pair, to the microsecond, for every time from 1970 to the end of the calendar and
  every id a BIGINT UNSIGNED column can hold.\<close>

theorem cursor_roundtrip:
  assumes "0 \<le> t" and "t \<le> datetime_max" and "0 < i" and "i < 2 ^ 64"
  shows "decode_cursor (encode_cursor t i) = Inr (t, i)"
  by (rule decode_encoded_cursor [OF assms])

theorem cursor_roundtrip_witness:
  "decode_cursor (encode_cursor 1784332800123456 42) = Inr (1784332800123456, 42)"
  by (rule cursor_roundtrip) (simp_all add: datetime_max_def)

text \<open>What a client can make the decoder do: it returns a representable time and a positive id,
  or it raises the 422 error, or (for a time past the end of the calendar, and for nothing else) it
  lets an \<open>OverflowError\<close> through.\<close>

theorem decode_cursor_outcomes:
  "case decode_cursor cursor of
     Inr (t, i) \<Rightarrow> 0 \<le> t \<and> t \<le> datetime_max \<and> 0 < i
   | Inl e \<Rightarrow> e = invalid_cursor \<or> e = OverflowError ''date value out of range''"
proof -
  have digits: "int_of_digits s = Some n \<Longrightarrow> 0 \<le> n" for s n
    by (auto simp: int_of_digits_def split: if_splits)
  show ?thesis
    by (auto simp: decode_cursor_def Let_def epoch_plus_def split: option.splits prod.splits
        dest: digits)
qed

text \<open>The decoder is not strict about overflow: the cursor of any time past the end of the
  calendar, which a client can write, is not refused with the 422 error but raises
  \<open>OverflowError\<close>.\<close>

theorem cursor_overflow_escapes:
  assumes "datetime_max < t" and "t < 10 ^ 20" and "0 < i" and "i < 2 ^ 64"
  shows "decode_cursor (encode_cursor t i) = Inl (OverflowError ''date value out of range'')"
  using assms
  by (simp add: decode_encoded isdigit_str_int int_of_digits_str epoch_plus_def datetime_max_def)

theorem cursor_overflow_escapes_witness:
  "decode_cursor (encode_cursor 999999999999999999 1)
   = Inl (OverflowError ''date value out of range'')"
  by (rule cursor_overflow_escapes) (simp_all add: datetime_max_def)

text \<open>A position before 1970 has no cursor the decoder accepts: the sign of its microseconds is
  refused, so such a page cannot be continued.\<close>

theorem cursor_before_epoch_refused:
  assumes "t < 0"
  shows "decode_cursor (encode_cursor t i) = Inl invalid_cursor"
  using assms by (simp add: decode_encoded isdigit_str_int)

theorem cursor_before_epoch_refused_witness:
  "decode_cursor (encode_cursor (-1) 5) = Inl invalid_cursor"
  by (rule cursor_before_epoch_refused) simp

lemma b64_scan_junk:
  "\<forall>c \<in> set junk. b64_value c = None \<and> c \<noteq> CHR ''='' \<Longrightarrow>
   b64_scan q l p (junk @ s) = b64_scan q l p s"
  by (induction junk) auto

text \<open>The decoder is not strict about the alphabet either: any group of four characters that are
  not base64 characters can be put in front of a cursor without changing what it decodes to, so
  many different strings are the same cursor.\<close>

theorem cursor_ignores_junk:
  assumes "\<forall>c \<in> set junk. is_ascii c \<and> b64_value c = None \<and> c \<noteq> CHR ''=''"
    and "length junk mod 4 = 0"
  shows "decode_cursor (junk @ cursor) = decode_cursor cursor"
proof -
  from assms(2) obtain m where m: "length junk = 4 * m" by (auto simp: mod_eq_0_iff_dvd)
  have "- int (length (junk @ cursor)) = - int (length cursor) + (- int m) * 4"
    by (simp add: m)
  then have pad: "- int (length (junk @ cursor)) mod 4 = - int (length cursor) mod 4"
    by (simp only: mod_mult_self1)
  have ascii: "(\<forall>c \<in> set (junk @ cursor). is_ascii c) \<longleftrightarrow> (\<forall>c \<in> set cursor. is_ascii c)"
    using assms(1) by auto
  have scan: "b64_scan 0 0 0 ((junk @ cursor) @ z) = b64_scan 0 0 0 (cursor @ z)" for z
    using assms(1) b64_scan_junk [of junk] by simp
  show ?thesis
    unfolding decode_cursor_def urlsafe_b64decode_def Let_def ascii pad scan ..
qed

theorem cursor_ignores_junk_witness:
  "decode_cursor (''!!!!'' @ encode_cursor 5 7) = Inr (5, 7)"
proof -
  have "decode_cursor (''!!!!'' @ encode_cursor 5 7) = decode_cursor (encode_cursor 5 7)"
    by (rule cursor_ignores_junk) (simp_all add: is_ascii_def b64_value_def)
  also have "\<dots> = Inr (5, 7)"
    by (simp add: decode_encoded isdigit_str_int int_of_digits_str epoch_plus_def datetime_max_def
        datetime_min_def)
  finally show ?thesis .
qed

end
