(* ===== verification/Keys.thy ===== *)
theory Keys
  imports Pagination
begin

text \<open>
  \<open>app/cache/keys.py\<close>: the names under which the cache stores things, and the jitter of their
  lifetimes. \<open>hashlib.sha256\<close> is the parameter \<open>sha256_hex\<close>, a function from text to hexadecimal
  text; \<open>random.random()\<close>, from which \<open>random.uniform\<close> is made, is the argument \<open>draw\<close>.
\<close>

definition ARTICLE_TTL_ENTITY :: string where "ARTICLE_TTL_ENTITY = ''article''"

definition LIST_TTL_ENTITY :: string where "LIST_TTL_ENTITY = ''list''"

definition FILTER_HASH_LENGTH :: nat where "FILTER_HASH_LENGTH = 16"

definition article_key :: "int \<Rightarrow> string" where
  "article_key article_id = ''article:'' @ str_int article_id"

definition generation_key :: string where
  "generation_key = ''articles:list:gen''"

definition author_generation_key :: "int \<Rightarrow> string" where
  "author_generation_key author_id = ''articles:list:gen:author:'' @ str_int author_id"

definition lock_key :: "string \<Rightarrow> string" where
  "lock_key key = ''lock:'' @ key"

definition filter_material :: "int \<Rightarrow> (int \<times> int) option \<Rightarrow> string" where
  "filter_material limit after =
     (case after of
        None \<Rightarrow> ''l'' @ str_int limit @ '':none''
      | Some (micros, article_id) \<Rightarrow>
          ''l'' @ str_int limit @ '':'' @ str_int micros @ '':'' @ str_int article_id)"

definition filter_hash :: "(string \<Rightarrow> string) \<Rightarrow> int \<Rightarrow> (int \<times> int) option \<Rightarrow> string" where
  "filter_hash sha256_hex limit after =
     take FILTER_HASH_LENGTH (sha256_hex (filter_material limit after))"

definition list_key ::
  "(string \<Rightarrow> string) \<Rightarrow> int \<Rightarrow> int option \<Rightarrow> int \<Rightarrow> (int \<times> int) option \<Rightarrow> string" where
  "list_key sha256_hex generation author_id limit after =
     (let digest = filter_hash sha256_hex limit after in
      case author_id of
        None \<Rightarrow> ''articles:list:g'' @ str_int generation @ '':all:'' @ digest
      | Some a \<Rightarrow>
          ''articles:list:a'' @ str_int a @ '':g'' @ str_int generation @ '':'' @ digest)"

definition cursor_parts :: "(datetime \<times> int) option \<Rightarrow> (int \<times> int) option" where
  "cursor_parts after =
     (case after of
        None \<Rightarrow> None
      | Some (created_at, article_id) \<Rightarrow>
          (let days = created_at div 86400000000;
               secs = created_at mod 86400000000 div 1000000;
               microseconds = created_at mod 1000000;
               micros = (days * 86400 + secs) * 1000000 + microseconds in
           Some (micros, article_id)))"

definition uniform :: "seconds \<Rightarrow> seconds \<Rightarrow> seconds \<Rightarrow> seconds" where
  "uniform draw a b = a + (b - a) * draw"

definition jittered_ttl :: "seconds \<Rightarrow> int \<Rightarrow> seconds \<Rightarrow> int" where
  "jittered_ttl draw base_seconds jitter =
     (if jitter \<le> 0 then base_seconds
      else
        let spread = of_int base_seconds * jitter in
        max 1 (py_round (uniform draw (of_int base_seconds - spread) (of_int base_seconds + spread))))"

subsection \<open>Splitting a key at its first colon\<close>

lemma split_at_colon:
  assumes "CHR '':'' \<notin> set a" and "CHR '':'' \<notin> set a'"
  shows "a @ CHR '':'' # b = a' @ CHR '':'' # b' \<longleftrightarrow> a = a' \<and> b = b'"
  using partition_char_found [OF assms(1), of b] partition_char_found [OF assms(2), of b']
  by (metis Pair_inject)

lemma str_int_colon_split [simp]:
  "str_int i @ CHR '':'' # b = str_int j @ CHR '':'' # b' \<longleftrightarrow> i = j \<and> b = b'"
  by (simp add: split_at_colon)

lemma cursor_parts_simps [simp]:
  "cursor_parts None = None"
  "cursor_parts (Some (t, i)) = Some (t, i)"
  using epoch_micros_id [of t] unfolding cursor_parts_def epoch_micros_def Let_def
  by (simp_all only: option.case prod.case)

lemma cursor_parts_id [simp]: "cursor_parts after = after"
  by (cases after) auto

lemma str_int_hd: "\<exists>c s. str_int i = c # s \<and> (is_ascii_digit c \<or> c = CHR ''-'')"
proof -
  have "str_int i \<noteq> []" by (auto simp: str_int_def)
  then obtain c s where c: "str_int i = c # s" by (cases "str_int i") auto
  then have "c \<in> set (str_int i)" by simp
  with c show ?thesis using str_int_chars by blast
qed

lemma str_int_not_letter:
  "\<not> is_ascii_digit c \<Longrightarrow> c \<noteq> CHR ''-'' \<Longrightarrow> str_int i @ s \<noteq> c # t"
  using str_int_hd [of i] by auto

lemma str_int_ne_none: "str_int m @ CHR '':'' # s \<noteq> ''none''"
  using str_int_not_letter [of "CHR ''n''" m "CHR '':'' # s" "''one''"]
  by (simp add: is_ascii_digit_def)

lemma list_key_eq:
  "list_key h g a l p = list_key h g' a' l' p' \<longleftrightarrow>
     g = g' \<and> a = a' \<and> filter_hash h l p = filter_hash h l' p'"
proof -
  have ne: "CHR ''g'' # x \<noteq> CHR ''a'' # y" for x y :: string by simp
  show ?thesis by (auto simp: list_key_def Let_def split: option.splits)
qed

lemma key_spaces:
  "article_key i \<noteq> generation_key \<and> article_key i \<noteq> author_generation_key j
   \<and> article_key i \<noteq> list_key h g a l p \<and> article_key i \<noteq> lock_key k
   \<and> generation_key \<noteq> author_generation_key j \<and> generation_key \<noteq> list_key h g a l p
   \<and> generation_key \<noteq> lock_key k \<and> author_generation_key j \<noteq> list_key h g a l p
   \<and> author_generation_key j \<noteq> lock_key k \<and> list_key h g a l p \<noteq> lock_key k
   \<and> (article_key i = article_key i' \<longleftrightarrow> i = i')
   \<and> (author_generation_key j = author_generation_key j' \<longleftrightarrow> j = j')
   \<and> (lock_key k = lock_key k' \<longleftrightarrow> k = k')"
proof -
  have digit: "CHR ''e'' # x \<noteq> str_int g @ y" for x y
    using str_int_not_letter [of "CHR ''e''" g y x] by (auto simp: is_ascii_digit_def)
  show ?thesis
    using digit digit [symmetric]
    by (auto simp: article_key_def generation_key_def author_generation_key_def lock_key_def
        list_key_def Let_def split: option.splits)
qed

subsection \<open>Properties\<close>

text \<open>Everything that defines a page window goes into the digest: two windows hash the same text
  only when they are the same window (limit, position and its absence).\<close>

theorem filter_material_inject:
  "filter_material limit after = filter_material limit' after' \<longleftrightarrow> limit = limit' \<and> after = after'"
  using str_int_ne_none str_int_ne_none [symmetric]
  by (auto simp: filter_material_def split: option.splits)

text \<open>Two list pages share a cache key only if they are of the same generation, the same author
  filter and the same window, up to a collision of the truncated digest.\<close>

theorem list_key_inject:
  "list_key h g a l p = list_key h g' a' l' p' \<longleftrightarrow>
     g = g' \<and> a = a' \<and> filter_hash h l p = filter_hash h l' p'"
  by (rule list_key_eq)

text \<open>The name spaces of the cache are disjoint: bodies, list pages, the two kinds of counter and
  the locks never share a key, and within each kind the key determines what it names.\<close>

theorem key_spaces_disjoint:
  "article_key i \<noteq> generation_key \<and> article_key i \<noteq> author_generation_key j
   \<and> article_key i \<noteq> list_key h g a l p \<and> article_key i \<noteq> lock_key k
   \<and> generation_key \<noteq> author_generation_key j \<and> generation_key \<noteq> list_key h g a l p
   \<and> generation_key \<noteq> lock_key k \<and> author_generation_key j \<noteq> list_key h g a l p
   \<and> author_generation_key j \<noteq> lock_key k \<and> list_key h g a l p \<noteq> lock_key k
   \<and> (article_key i = article_key i' \<longleftrightarrow> i = i')
   \<and> (author_generation_key j = author_generation_key j' \<longleftrightarrow> j = j')
   \<and> (lock_key k = lock_key k' \<longleftrightarrow> k = k')"
  by (rule key_spaces)

text \<open>A jittered lifetime is at least one second and stays within the spread around the base,
  the spread rounded up to a whole second.\<close>

theorem jittered_ttl_bounds:
  assumes "1 \<le> base" and "0 \<le> draw" and "draw \<le> 1" and "0 \<le> jitter"
  shows "1 \<le> jittered_ttl draw base jitter
    \<and> base - \<lceil>of_int base * jitter\<rceil> \<le> jittered_ttl draw base jitter
    \<and> jittered_ttl draw base jitter \<le> base + \<lceil>of_int base * jitter\<rceil>"
proof (cases "jitter \<le> 0")
  case True
  with assms show ?thesis by (simp add: jittered_ttl_def)
next
  case False
  define spread where "spread = of_int base * jitter"
  define x where "x = uniform draw (of_int base - spread) (of_int base + spread)"
  have s0: "0 \<le> spread" using assms by (simp add: spread_def)
  have x: "x = of_int base - spread + 2 * (spread * draw)"
    by (simp add: x_def uniform_def algebra_simps)
  have "spread * draw \<le> spread * 1" using s0 assms(3) by (rule mult_left_mono [rotated])
  moreover have "0 \<le> spread * draw" using s0 assms(2) by simp
  ultimately have b: "of_int base - spread \<le> x" "x \<le> of_int base + spread" by (simp_all add: x)
  have c: "spread \<le> of_int \<lceil>spread\<rceil>" by (rule le_of_int_ceiling)
  have "base - \<lceil>spread\<rceil> \<le> py_round x"
    by (rule py_round_mono_int_low) (use b(1) c in \<open>simp add: algebra_simps; linarith\<close>)
  moreover have "py_round x \<le> base + \<lceil>spread\<rceil>"
    by (rule py_round_mono_int_high) (use b(2) c in \<open>simp; linarith\<close>)
  moreover have "0 \<le> \<lceil>spread\<rceil>" using s0 by simp
  ultimately show ?thesis
    using False assms(1) by (simp add: jittered_ttl_def Let_def flip: spread_def x_def)
qed

theorem jittered_ttl_bounds_witness:
  "1 \<le> jittered_ttl (1 / 2) 300 (1 / 5) \<and> 240 \<le> jittered_ttl (1 / 2) 300 (1 / 5)
   \<and> jittered_ttl (1 / 2) 300 (1 / 5) \<le> 360"
  using jittered_ttl_bounds [of 300 "1 / 2" "1 / 5"] by simp

text \<open>The interval the comment of the source names is not kept to the letter: rounding can leave it
  by less than a second (a base of 3 and a jitter of 1/5 give 4).\<close>

lemma jittered_ttl_rounds_out: "jittered_ttl 1 3 (1 / 5) = 4 \<and> 3 + 3 * (1 / 5) < (4 :: seconds)"
proof -
  have "\<lfloor>3 / 5 :: seconds\<rfloor> = 0" by (simp add: floor_eq_iff)
  then show ?thesis by (simp add: jittered_ttl_def uniform_def py_round_def Let_def)
qed

end
