(* ===== verification/ArticleCache.thy ===== *)
theory ArticleCache
  imports Session Keys Json
begin

text \<open>
  \<open>app/cache/article_cache.py\<close>. The Redis client is a parameter: a record of the commands the source
  sends, each a computation that may raise and may change the whole state, since other tasks run
  while it awaits. An \<open>ArticleCache\<close> is the record \<open>article_cache\<close> in the state of the request that
  owns it; \<open>cache_breaker\<close> names the breaker of the process registry it has resolved. Log lines are
  not modelled.
\<close>

record article_cache =
  cache_enabled :: bool
  cache_degraded :: bool
  cache_breaker :: "string option"

record 'c request = "'c session" +
  cache :: article_cache

record 'w redis_client =
  redis_get :: "string \<Rightarrow> ('w, string option) command"
  redis_mget :: "string list \<Rightarrow> ('w, string option list) command"
  redis_set :: "string \<Rightarrow> string \<Rightarrow> int \<Rightarrow> bool \<Rightarrow> ('w, bool) command"
    \<comment> \<open>key, value, \<open>ex\<close>, \<open>nx\<close>; the truth value of the reply\<close>
  redis_delete :: "string \<Rightarrow> ('w, int) command"
  redis_incr :: "string \<Rightarrow> ('w, int) command"

definition new_article_cache :: "bool \<Rightarrow> article_cache" where
  "new_article_cache is_enabled =
     \<lparr>cache_enabled = is_enabled, cache_degraded = False, cache_breaker = None\<rparr>"

fun is_cache_failure :: "exn \<Rightarrow> bool" where
  "is_cache_failure (RedisConnectionError _) = True"
| "is_cache_failure (RedisTimeoutError _) = True"
| "is_cache_failure (RedisError _) = True"
| "is_cache_failure TimeoutError = True"
| "is_cache_failure (OSError _) = True"
| "is_cache_failure _ = False"

subsection \<open>The gates\<close>

definition resolve_breaker ::
  "(string \<rightharpoonup> dependency_policy) \<Rightarrow> (('c, 'm) request_scheme, string) command" where
  "resolve_breaker policies w =
     (case cache_breaker (cache w) of
        Some d \<Rightarrow> (Inr d, w)
      | None \<Rightarrow>
          let w' = w\<lparr>cache := (cache w)\<lparr>cache_breaker := Some ''redis''\<rparr>\<rparr> in
          case breakers w ''redis'' of
            Some _ \<Rightarrow> (Inr ''redis'', w')
          | None \<Rightarrow>
              (case policies ''redis'' of
                 None \<Rightarrow> (Inl (KeyError ''redis''), w)
               | Some policy \<Rightarrow> (Inr ''redis'', get_breaker ''redis'' policy w')))"

definition breaker_allow :: "string \<Rightarrow> ('m proc_scheme, bool) command" where
  "breaker_allow d w =
     (case breakers w d of
        None \<Rightarrow> (Inl (KeyError d), w)   \<comment> \<open>not reached: the breaker exists\<close>
      | Some b \<Rightarrow> let (ok, b') = allow (now w) b in (Inr ok, update_breaker d (\<lambda>_. b') w))"

definition live ::
  "(string \<rightharpoonup> dependency_policy) \<Rightarrow> (('c, 'm) request_scheme, bool) command" where
  "live policies w =
     (if \<not> cache_enabled (cache w) \<or> cache_degraded (cache w) then (Inr False, w)
      else bind_cmd (resolve_breaker policies) breaker_allow w)"

definition succeed :: "('c, 'm) request_scheme \<Rightarrow> ('c, 'm) request_scheme" where
  "succeed w = (case cache_breaker (cache w) of None \<Rightarrow> w | Some d \<Rightarrow> breaker_succeeds d w)"

definition degrade :: "string \<Rightarrow> ('c, 'm) request_scheme \<Rightarrow> ('c, 'm) request_scheme" where
  "degrade operation w =
     (let w1 = w\<lparr>cache := (cache w)\<lparr>cache_degraded := True\<rparr>\<rparr>;
          w2 = (case cache_breaker (cache w1) of None \<Rightarrow> w1 | Some d \<Rightarrow> breaker_fails d w1) in
      log_metric (observe_cache_error operation) w2)"

text \<open>
  The shape of every method: the gates, the command, and the \<open>except CACHE_FAILURES\<close> clause that
  degrades and returns \<open>fallback\<close>; \<open>finish\<close> is what follows the success.
\<close>

definition try_redis ::
  "(string \<rightharpoonup> dependency_policy) \<Rightarrow> string \<Rightarrow> 'b \<Rightarrow> (('c, 'm) request_scheme, 'a) command
   \<Rightarrow> ('a \<Rightarrow> ('c, 'm) request_scheme \<Rightarrow> 'b \<times> ('c, 'm) request_scheme)
   \<Rightarrow> (('c, 'm) request_scheme, 'b) command" where
  "try_redis policies operation fallback cmd finish w =
     (case live policies w of
        (Inl e, w1) \<Rightarrow> (Inl e, w1)
      | (Inr ok, w1) \<Rightarrow>
          if \<not> ok then (Inr fallback, w1)
          else
            (case cmd w1 of
               (Inl e, w2) \<Rightarrow>
                 if is_cache_failure e then (Inr fallback, degrade operation w2) else (Inl e, w2)
             | (Inr a, w2) \<Rightarrow> let (b, w3) = finish a (succeed w2) in (Inr b, w3)))"

subsection \<open>Reads\<close>

definition peek ::
  "('c, 'm) request_scheme redis_client \<Rightarrow> (string \<rightharpoonup> dependency_policy) \<Rightarrow> string
   \<Rightarrow> (('c, 'm) request_scheme, string option) command" where
  "peek redis policies key =
     try_redis policies ''get'' None (redis_get redis key) (\<lambda>value w. (value, w))"

definition cache_get ::
  "('c, 'm) request_scheme redis_client \<Rightarrow> (string \<rightharpoonup> dependency_policy) \<Rightarrow> string \<Rightarrow> string
   \<Rightarrow> (('c, 'm) request_scheme, string option) command" where
  "cache_get redis policies key entity =
     try_redis policies ''get'' None (redis_get redis key)
       (\<lambda>value w.
          case value of
            None \<Rightarrow> (None, log_metric (observe_cache_miss entity) w)
          | Some v \<Rightarrow> (Some v, log_metric (observe_cache_hit entity) w))"

definition cache_get_article ::
  "('c, 'm) request_scheme redis_client \<Rightarrow> (string \<rightharpoonup> dependency_policy) \<Rightarrow> int
   \<Rightarrow> (('c, 'm) request_scheme, string option) command" where
  "cache_get_article redis policies article_id =
     cache_get redis policies (article_key article_id) ARTICLE_TTL_ENTITY"

definition get_list_page ::
  "('c, 'm) request_scheme redis_client \<Rightarrow> (string \<rightharpoonup> dependency_policy) \<Rightarrow> string
   \<Rightarrow> (('c, 'm) request_scheme, string option) command" where
  "get_list_page redis policies key = cache_get redis policies key LIST_TTL_ENTITY"

definition as_int :: "string option \<Rightarrow> int" where
  "as_int value =
     (case value of None \<Rightarrow> 0 | Some s \<Rightarrow> (case py_int s of None \<Rightarrow> 0 | Some i \<Rightarrow> i))"

definition generation_keys :: "int option \<Rightarrow> string list" where
  "generation_keys author_id =
     generation_key # (case author_id of None \<Rightarrow> [] | Some a \<Rightarrow> [author_generation_key a])"

definition get_generations ::
  "('c, 'm) request_scheme redis_client \<Rightarrow> (string \<rightharpoonup> dependency_policy) \<Rightarrow> int option
   \<Rightarrow> (('c, 'm) request_scheme, int \<times> int) command" where
  "get_generations redis policies author_id =
     try_redis policies ''get'' (0, 0) (redis_mget redis (generation_keys author_id))
       (\<lambda>values w.
          let parsed = map as_int values;
              padded = parsed @ replicate (2 - length parsed) 0 in
          ((padded ! 0, padded ! 1), w))"

subsection \<open>Writes\<close>

definition cache_set ::
  "('c, 'm) request_scheme redis_client \<Rightarrow> (string \<rightharpoonup> dependency_policy) \<Rightarrow> string \<Rightarrow> string \<Rightarrow> int
   \<Rightarrow> (('c, 'm) request_scheme, unit) command" where
  "cache_set redis policies key body ttl_seconds =
     try_redis policies ''set'' () (redis_set redis key body (max 1 ttl_seconds) False)
       (\<lambda>_ w. ((), w))"

definition set_article ::
  "('c, 'm) request_scheme redis_client \<Rightarrow> (string \<rightharpoonup> dependency_policy) \<Rightarrow> int \<Rightarrow> string \<Rightarrow> int
   \<Rightarrow> (('c, 'm) request_scheme, unit) command" where
  "set_article redis policies article_id body ttl_seconds =
     cache_set redis policies (article_key article_id) body ttl_seconds"

definition set_list_page ::
  "('c, 'm) request_scheme redis_client \<Rightarrow> (string \<rightharpoonup> dependency_policy) \<Rightarrow> string \<Rightarrow> string \<Rightarrow> int
   \<Rightarrow> (('c, 'm) request_scheme, unit) command" where
  "set_list_page redis policies key body ttl_seconds = cache_set redis policies key body ttl_seconds"

definition invalidate_article ::
  "('c, 'm) request_scheme redis_client \<Rightarrow> (string \<rightharpoonup> dependency_policy) \<Rightarrow> int
   \<Rightarrow> (('c, 'm) request_scheme, unit) command" where
  "invalidate_article redis policies article_id =
     try_redis policies ''delete'' () (redis_delete redis (article_key article_id)) (\<lambda>_ w. ((), w))"

definition bump_generations ::
  "('c, 'm) request_scheme redis_client \<Rightarrow> (string \<rightharpoonup> dependency_policy) \<Rightarrow> int option
   \<Rightarrow> (('c, 'm) request_scheme, unit) command" where
  "bump_generations redis policies author_id =
     try_redis policies ''incr'' ()
       (bind_cmd (redis_incr redis generation_key)
          (\<lambda>n. case author_id of
                 None \<Rightarrow> return_cmd n
               | Some a \<Rightarrow> redis_incr redis (author_generation_key a)))
       (\<lambda>_ w. ((), w))"

subsection \<open>Single flight\<close>

definition acquire_lock ::
  "('c, 'm) request_scheme redis_client \<Rightarrow> (string \<rightharpoonup> dependency_policy) \<Rightarrow> string \<Rightarrow> int
   \<Rightarrow> (('c, 'm) request_scheme, bool) command" where
  "acquire_lock redis policies key ttl_seconds =
     try_redis policies ''lock'' True (redis_set redis (lock_key key) ''1'' (max 1 ttl_seconds) True)
       (\<lambda>acquired w. (acquired, w))"

definition release_lock ::
  "('c, 'm) request_scheme redis_client \<Rightarrow> (string \<rightharpoonup> dependency_policy) \<Rightarrow> string
   \<Rightarrow> (('c, 'm) request_scheme, unit) command" where
  "release_lock redis policies key =
     try_redis policies ''lock'' () (redis_delete redis (lock_key key)) (\<lambda>_ w. ((), w))"

subsection \<open>The contract of a method\<close>

definition usable :: "('c, 'm) request_scheme \<Rightarrow> bool" where
  "usable w \<longleftrightarrow> cache_enabled (cache w) \<and> \<not> cache_degraded (cache w)"

text \<open>
  What the article service relies on: a method of a disabled or latched cache does nothing and
  returns its fallback, and a cache failure never comes out of a method.
\<close>

locale fail_open =
  fixes op :: "(('c, 'm) request_scheme, 'b) command" and fallback :: 'b
  assumes skips: "\<not> usable w \<Longrightarrow> op w = (Inr fallback, w)"
    and absorbs: "fst (op w) = Inl e \<Longrightarrow> \<not> is_cache_failure e"
begin

lemma bind_skips: "\<not> usable w \<Longrightarrow> bind_cmd op f w = f fallback w"
  using skips by simp

lemma latched: "cache_degraded (cache w) \<Longrightarrow> op w = (Inr fallback, w)"
  by (rule skips) (simp add: usable_def)

lemma disabled: "\<not> cache_enabled (cache w) \<Longrightarrow> op w = (Inr fallback, w)"
  by (rule skips) (simp add: usable_def)

end

lemma live_unusable: "\<not> usable w \<Longrightarrow> live policies w = (Inr False, w)"
  by (auto simp: live_def usable_def)

lemma live_raises_KeyError: "fst (live policies w) = Inl e \<Longrightarrow> \<exists>d. e = KeyError d"
  by (auto simp: live_def bind_cmd_def resolve_breaker_def breaker_allow_def Let_def
      split: option.splits prod.splits sum.splits if_splits)

lemma try_redis_skips: "\<not> usable w \<Longrightarrow> try_redis policies op fb cmd fin w = (Inr fb, w)"
  by (simp add: try_redis_def live_unusable)

lemma try_redis_absorbs:
  assumes "fst (try_redis policies op fb cmd fin w) = Inl e"
  shows "\<not> is_cache_failure e"
proof (cases "fst (live policies w)")
  case (Inl e')
  then obtain w1 where l: "live policies w = (Inl e', w1)" by (metis prod.collapse)
  from live_raises_KeyError [OF Inl] obtain d where "e' = KeyError d" ..
  with l assms show ?thesis by (auto simp: try_redis_def)
next
  case (Inr ok)
  with assms show ?thesis
    by (auto simp: try_redis_def Let_def split: prod.splits sum.splits if_splits)
qed

lemma try_redis_fail_open: "fail_open (try_redis policies op fb cmd fin) fb"
  by unfold_locales (auto simp: try_redis_skips dest: try_redis_absorbs)

lemmas cache_method_defs =
  peek_def cache_get_def cache_get_article_def get_list_page_def get_generations_def
  cache_set_def set_article_def set_list_page_def invalidate_article_def bump_generations_def
  acquire_lock_def release_lock_def

interpretation peek: fail_open "peek redis policies key" None for redis policies key
  unfolding cache_method_defs by (rule try_redis_fail_open)

interpretation article: fail_open "cache_get_article redis policies i" None for redis policies i
  unfolding cache_method_defs by (rule try_redis_fail_open)

interpretation list_page: fail_open "get_list_page redis policies key" None for redis policies key
  unfolding cache_method_defs by (rule try_redis_fail_open)

interpretation generations: fail_open "get_generations redis policies a" "(0, 0)" for redis policies a
  unfolding cache_method_defs by (rule try_redis_fail_open)

interpretation put_article: fail_open "set_article redis policies i body ttl" "()"
  for redis policies i body ttl
  unfolding cache_method_defs by (rule try_redis_fail_open)

interpretation put_page: fail_open "set_list_page redis policies key body ttl" "()"
  for redis policies key body ttl
  unfolding cache_method_defs by (rule try_redis_fail_open)

interpretation drop_article: fail_open "invalidate_article redis policies i" "()"
  for redis policies i
  unfolding cache_method_defs by (rule try_redis_fail_open)

interpretation bump: fail_open "bump_generations redis policies a" "()" for redis policies a
  unfolding cache_method_defs by (rule try_redis_fail_open)

interpretation lock: fail_open "acquire_lock redis policies key ttl" True for redis policies key ttl
  unfolding cache_method_defs by (rule try_redis_fail_open)

interpretation unlock: fail_open "release_lock redis policies key" "()" for redis policies key
  unfolding cache_method_defs by (rule try_redis_fail_open)

subsection \<open>What one request does to the cache\<close>

text \<open>Any sequence of calls a request may make on its instance.\<close>

datatype cache_call =
    Peek string
  | GetArticle int
  | GetListPage string
  | GetGenerations "int option"
  | SetArticle int string int
  | SetListPage string string int
  | InvalidateArticle int
  | BumpGenerations "int option"
  | AcquireLock string int
  | ReleaseLock string

definition drop_result :: "('w, 'a) command \<Rightarrow> ('w, unit) command" where
  "drop_result m = bind_cmd m (\<lambda>_. return_cmd ())"

fun run_call ::
  "('c, 'm) request_scheme redis_client \<Rightarrow> (string \<rightharpoonup> dependency_policy) \<Rightarrow> cache_call
   \<Rightarrow> (('c, 'm) request_scheme, unit) command" where
  "run_call redis policies (Peek key) = drop_result (peek redis policies key)"
| "run_call redis policies (GetArticle i) = drop_result (cache_get_article redis policies i)"
| "run_call redis policies (GetListPage key) = drop_result (get_list_page redis policies key)"
| "run_call redis policies (GetGenerations a) = drop_result (get_generations redis policies a)"
| "run_call redis policies (SetArticle i body ttl) = set_article redis policies i body ttl"
| "run_call redis policies (SetListPage key body ttl) = set_list_page redis policies key body ttl"
| "run_call redis policies (InvalidateArticle i) = invalidate_article redis policies i"
| "run_call redis policies (BumpGenerations a) = bump_generations redis policies a"
| "run_call redis policies (AcquireLock key ttl) = drop_result (acquire_lock redis policies key ttl)"
| "run_call redis policies (ReleaseLock key) = release_lock redis policies key"

fun run_calls ::
  "('c, 'm) request_scheme redis_client \<Rightarrow> (string \<rightharpoonup> dependency_policy) \<Rightarrow> cache_call list
   \<Rightarrow> (('c, 'm) request_scheme, unit) command" where
  "run_calls redis policies [] = return_cmd ()"
| "run_calls redis policies (c # cs) =
     bind_cmd (run_call redis policies c) (\<lambda>_. run_calls redis policies cs)"

lemma drop_result_skips: "m w = (Inr a, w') \<Longrightarrow> drop_result m w = (Inr (), w')"
  by (simp add: drop_result_def)

lemma run_call_skips: "\<not> usable w \<Longrightarrow> run_call redis policies c w = (Inr (), w)"
  by (cases c)
    (simp_all add: drop_result_skips peek.skips article.skips list_page.skips generations.skips
      put_article.skips put_page.skips drop_article.skips bump.skips lock.skips unlock.skips)

text \<open>A disabled cache, and an instance one of whose commands has failed, are silent: whatever
  the request still calls, nothing is sent, nothing is counted and the state does not change.\<close>

theorem unusable_cache_is_silent:
  assumes "\<not> cache_enabled (cache w) \<or> cache_degraded (cache w)"
  shows "run_calls redis policies cs w = (Inr (), w)"
proof -
  have "\<not> usable w" using assms by (auto simp: usable_def)
  then show ?thesis by (induction cs) (simp_all add: run_call_skips)
qed

text \<open>How many cache errors have been counted.\<close>

definition cache_errors :: "'m proc_scheme \<Rightarrow> nat" where
  "cache_errors w =
     length (filter (\<lambda>c. case c of CounterInc n _ \<Rightarrow> n = ''cache_errors_total'' | _ \<Rightarrow> False) (metrics w))"

text \<open>
  A client as the Redis library documents it, seen from one request: a command raises nothing but
  Redis and socket errors, nobody else touches the instance or its error count, and no breaker leaves
  the registry.
\<close>

definition tame :: "(('c, 'm) request_scheme, 'a) command \<Rightarrow> bool" where
  "tame m \<longleftrightarrow>
     (\<forall>w. (\<forall>e. fst (m w) = Inl e \<longrightarrow> is_cache_failure e)
        \<and> cache (snd (m w)) = cache w
        \<and> cache_errors (snd (m w)) = cache_errors w
        \<and> dom (breakers w) \<subseteq> dom (breakers (snd (m w))))"

definition tame_client :: "('c, 'm) request_scheme redis_client \<Rightarrow> bool" where
  "tame_client redis \<longleftrightarrow>
     (\<forall>k. tame (redis_get redis k)) \<and> (\<forall>ks. tame (redis_mget redis ks))
     \<and> (\<forall>k v ex nx. tame (redis_set redis k v ex nx))
     \<and> (\<forall>k. tame (redis_delete redis k)) \<and> (\<forall>k. tame (redis_incr redis k))"


text \<open>The cache can be used: the breaker of Redis exists or can be built.\<close>

definition ready :: "(string \<rightharpoonup> dependency_policy) \<Rightarrow> ('c, 'm) request_scheme \<Rightarrow> bool" where
  "ready policies w \<longleftrightarrow>
     policies ''redis'' \<noteq> None \<and> (\<forall>d. cache_breaker (cache w) = Some d \<longrightarrow> breakers w d \<noteq> None)"

definition latch :: "('c, 'm) request_scheme \<Rightarrow> nat" where
  "latch w = (if cache_degraded (cache w) then 1 else 0)"

text \<open>One step of the request: the cache stays usable by code, and an error is counted only by
  latching the instance.\<close>

definition well_run ::
  "(string \<rightharpoonup> dependency_policy) \<Rightarrow> ('c, 'm) request_scheme \<Rightarrow> ('c, 'm) request_scheme \<Rightarrow> bool" where
  "well_run policies w w' \<longleftrightarrow>
     ready policies w' \<and> cache_errors w' + latch w \<le> cache_errors w + latch w'"

lemma well_run_refl: "ready policies w \<Longrightarrow> well_run policies w w"
  by (simp add: well_run_def)

lemma well_run_trans: "well_run policies u v \<Longrightarrow> well_run policies v w \<Longrightarrow> well_run policies u w"
  by (simp add: well_run_def)

lemma cache_fields [simp]:
  "cache (update_breaker d f w) = cache w"
  "cache (breaker_succeeds d w) = cache w"
  "cache (breaker_fails d w) = cache w"
  "cache (get_breaker d p w) = cache w"
  "cache (log_metric g w) = cache w"
  by (simp_all add: update_breaker_def breaker_succeeds_def breaker_fails_def get_breaker_def
      log_metric_def Let_def split: option.splits)

lemma request_more_fields [simp]:
  "request.more (update_breaker d f w) = request.more w"
  "request.more (breaker_succeeds d w) = request.more w"
  "request.more (breaker_fails d w) = request.more w"
  "request.more (get_breaker d p w) = request.more w"
  "request.more (log_metric g w) = request.more w"
  by (simp_all add: update_breaker_def breaker_succeeds_def breaker_fails_def get_breaker_def
      log_metric_def Let_def split: option.splits)

lemma metrics_verdict [simp]:
  "metrics (breaker_succeeds d w) = metrics w"
  "metrics (breaker_fails d w) = metrics w"
  "metrics (get_breaker d p w) = metrics w"
  by (simp_all add: breaker_succeeds_def breaker_fails_def get_breaker_def Let_def
      split: option.splits)

lemma cache_errors_simps [simp]:
  "cache_errors (update_breaker d f w) = cache_errors w"
  "cache_errors (breaker_succeeds d w) = cache_errors w"
  "cache_errors (breaker_fails d w) = cache_errors w"
  "cache_errors (get_breaker d p w) = cache_errors w"
  "cache_errors (log_metric (observe_cache_hit e) w) = cache_errors w"
  "cache_errors (log_metric (observe_cache_miss e) w) = cache_errors w"
  "cache_errors (log_metric (observe_cache_error op) w) = Suc (cache_errors w)"
  by (simp_all add: cache_errors_def log_metric_def observe_cache_hit_def observe_cache_miss_def
      observe_cache_error_def)

lemma dom_update_breaker [simp]: "dom (breakers (update_breaker d f w)) = dom (breakers w)"
  by (auto simp: dom_def)

lemma dom_verdict [simp]:
  "dom (breakers (breaker_succeeds d w)) = dom (breakers w)"
  "dom (breakers (breaker_fails d w)) = dom (breakers w)"
  by (auto simp: verdict_breakers dom_def)

lemma ready_alt: "ready policies w \<longleftrightarrow>
    policies ''redis'' \<noteq> None \<and> (\<forall>d. cache_breaker (cache w) = Some d \<longrightarrow> d \<in> dom (breakers w))"
  by (auto simp: ready_def)

lemma live_ready:
  assumes "ready policies w"
  obtains ok w1 where "live policies w = (Inr ok, w1)" "well_run policies w w1"
    "cache_degraded (cache w1) = cache_degraded (cache w)"
    "ok \<Longrightarrow> \<not> cache_degraded (cache w)"
proof (cases "usable w")
  case False
  with assms live_unusable [OF False, of policies] show ?thesis
    using that [of False w] by (simp add: well_run_refl)
next
  case True
  obtain d w0 where r: "resolve_breaker policies w = (Inr d, w0)"
    and w0: "d \<in> dom (breakers w0)" "cache_breaker (cache w0) = Some d"
      "cache_degraded (cache w0) = cache_degraded (cache w)" "cache_errors w0 = cache_errors w"
  proof (cases "cache_breaker (cache w)")
    case (Some d)
    with assms show ?thesis by (auto simp: resolve_breaker_def ready_alt intro: that)
  next
    case None
    let ?w' = "w\<lparr>cache := (cache w)\<lparr>cache_breaker := Some ''redis''\<rparr>\<rparr>"
    show ?thesis
    proof (cases "breakers w ''redis''")
      case (Some b)
      with None show ?thesis
        by (intro that [of "''redis''" ?w']) (auto simp: resolve_breaker_def cache_errors_def)
    next
      case none: None
      from assms obtain p where p: "policies ''redis'' = Some p" by (auto simp: ready_def)
      with None none show ?thesis
        by (intro that [of "''redis''" "get_breaker ''redis'' p ?w'"])
          (auto simp: resolve_breaker_def cache_errors_def get_breaker_def)
    qed
  qed
  from w0(1) obtain b where b: "breakers w0 d = Some b" by auto
  let ?w1 = "update_breaker d (\<lambda>_. snd (allow (now w0) b)) w0"
  have "live policies w = (Inr (fst (allow (now w0) b)), ?w1)"
    using True r b by (simp add: live_def usable_def breaker_allow_def Let_def case_prod_beta)
  moreover have "well_run policies w ?w1"
    using assms w0 b by (simp add: well_run_def ready_def latch_def)
  ultimately show ?thesis
    by (rule that) (use True w0(3) in \<open>simp_all add: usable_def\<close>)
qed

lemma try_redis_well_run:
  assumes "ready policies w" and "tame cmd"
    and fin: "\<And>a v. cache (snd (fin a v)) = cache v \<and> cache_errors (snd (fin a v)) = cache_errors v
          \<and> breakers (snd (fin a v)) = breakers v"
  shows "\<exists>b w'. try_redis policies op fb cmd fin w = (Inr b, w') \<and> well_run policies w w'"
proof -
  obtain ok w1 where l: "live policies w = (Inr ok, w1)" "well_run policies w w1"
      "ok \<Longrightarrow> \<not> cache_degraded (cache w1)"
    using live_ready [OF assms(1)] by metis
  show ?thesis
  proof (cases ok)
    case False
    with l show ?thesis by (simp add: try_redis_def)
  next
    case True
    obtain r w2 where c: "cmd w1 = (r, w2)" by fastforce
    with assms(2) have t: "\<forall>e. r = Inl e \<longrightarrow> is_cache_failure e" "cache w2 = cache w1"
      "cache_errors w2 = cache_errors w1" "dom (breakers w1) \<subseteq> dom (breakers w2)"
      unfolding tame_def by (metis fst_conv snd_conv)+
    from t(4) have "\<forall>d. breakers w1 d \<noteq> None \<longrightarrow> breakers w2 d \<noteq> None"
      unfolding dom_def by blast
    with l(2) t(2,3) have r2: "well_run policies w w2" by (auto simp: well_run_def ready_def latch_def)
    show ?thesis
    proof (cases r)
      case (Inl e)
      have "well_run policies w2 (degrade op w2)"
        using r2 l(3) [OF True] t(2)
        by (auto simp: well_run_def degrade_def Let_def ready_alt latch_def cache_errors_def
            log_metric_def observe_cache_error_def split: option.splits)
      with r2 have "well_run policies w (degrade op w2)" by (rule well_run_trans)
      with Inl True l(1) c t(1) show ?thesis by (simp add: try_redis_def)
    next
      case (Inr a)
      obtain b w3 where f: "fin a (succeed w2) = (b, w3)" by fastforce
      with fin [of a "succeed w2"] have "cache w3 = cache w2 \<and> cache_errors w3 = cache_errors w2
          \<and> dom (breakers w3) = dom (breakers w2)"
        by (auto simp: succeed_def split: option.splits)
      with r2 have "well_run policies w w3" by (simp add: well_run_def ready_alt latch_def)
      with Inr True l(1) c f show ?thesis by (simp add: try_redis_def)
    qed
  qed
qed


lemma tame_clientD:
  assumes "tame_client redis"
  shows "tame (redis_get redis k)" and "tame (redis_mget redis ks)"
    and "tame (redis_set redis k v ex nx)" and "tame (redis_delete redis k)"
    and "tame (redis_incr redis k)"
  using assms by (simp_all add: tame_client_def)

lemma tame_bind:
  assumes "tame m" and "\<And>a. tame (f a)"
  shows "tame (bind_cmd m f)"
  unfolding tame_def
proof (intro allI)
  fix w
  obtain r w1 where m: "m w = (r, w1)" by fastforce
  note t1 = assms(1) [unfolded tame_def, rule_format, of w]
  show "(\<forall>e. fst (bind_cmd m f w) = Inl e \<longrightarrow> is_cache_failure e) \<and>
    cache (snd (bind_cmd m f w)) = cache w \<and> cache_errors (snd (bind_cmd m f w)) = cache_errors w \<and>
    dom (breakers w) \<subseteq> dom (breakers (snd (bind_cmd m f w)))"
  proof (cases r)
    case (Inl e)
    with m t1 show ?thesis by simp
  next
    case (Inr a)
    from assms(2) [of a, unfolded tame_def] have "(\<forall>e. fst (f a w1) = Inl e \<longrightarrow> is_cache_failure e)
        \<and> cache (snd (f a w1)) = cache w1 \<and> cache_errors (snd (f a w1)) = cache_errors w1
        \<and> dom (breakers w1) \<subseteq> dom (breakers (snd (f a w1)))" by blast
    with m t1 Inr show ?thesis by (simp add: subset_trans [of _ "dom (breakers w1)"])
  qed
qed

lemma tame_return: "tame (return_cmd a)"
  by (simp add: tame_def)

lemma run_call_well_run:
  assumes "tame_client redis" and "ready policies w"
  shows "\<exists>w'. run_call redis policies c w = (Inr (), w') \<and> well_run policies w w'"
proof -
  note t = tame_clientD [OF assms(1)]
  have bump: "tame (bind_cmd (redis_incr redis generation_key)
      (\<lambda>n. case a of None \<Rightarrow> return_cmd n | Some a \<Rightarrow> redis_incr redis (author_generation_key a)))"
    for a by (rule tame_bind) (auto intro: t tame_return split: option.split)
  have fin: "\<And>value v. cache (snd (f value v)) = cache v
      \<and> cache_errors (snd (f value v)) = cache_errors v \<and> breakers (snd (f value v)) = breakers v"
    if "f = (\<lambda>value w. case value of None \<Rightarrow> (None, log_metric (observe_cache_miss entity) w)
          | Some v \<Rightarrow> (Some v, log_metric (observe_cache_hit entity) w))"
    for entity and f :: "string option \<Rightarrow> ('a, 'b) request_scheme
      \<Rightarrow> string option \<times> ('a, 'b) request_scheme"
    using that by (simp split: option.split)
  have drop: "\<exists>w'. drop_result m w = (Inr (), w') \<and> well_run policies w w'"
    if "\<exists>b w'. m w = (Inr b, w') \<and> well_run policies w w'"
    for m :: "(('a, 'b) request_scheme, 'd) command"
    using that drop_result_skips by fast
  have unit: "\<exists>w'. m w = (Inr (), w') \<and> well_run policies w w'"
    if "\<exists>b w'. m w = (Inr b, w') \<and> well_run policies w w'"
    for m :: "(('a, 'b) request_scheme, unit) command"
    using that by simp
  show ?thesis
  proof (cases c)
    case (GetArticle i)
    then show ?thesis
      unfolding run_call.simps cache_method_defs
      by (simp only: run_call.simps cache_method_defs)
        (rule drop, rule try_redis_well_run [OF assms(2) t(1) fin], rule refl)
  next
    case (GetListPage key)
    then show ?thesis
      by (simp only: run_call.simps cache_method_defs)
        (rule drop, rule try_redis_well_run [OF assms(2) t(1) fin], rule refl)
  next
    case (BumpGenerations a)
    then show ?thesis
      by (simp only: run_call.simps cache_method_defs)
        (rule unit, rule try_redis_well_run [OF assms(2) bump], simp)
  qed (simp only: run_call.simps cache_method_defs,
      (rule drop | rule unit), rule try_redis_well_run [OF assms(2)], rule t, simp add: Let_def)+
qed

lemma run_calls_well_run:
  assumes "tame_client redis" and "ready policies w"
  shows "\<exists>w'. run_calls redis policies cs w = (Inr (), w') \<and> well_run policies w w'"
  using assms(2)
proof (induction cs arbitrary: w)
  case Nil
  then show ?case by (simp add: well_run_refl)
next
  case (Cons c cs)
  obtain w1 where c: "run_call redis policies c w = (Inr (), w1)" "well_run policies w w1"
    using run_call_well_run [OF assms(1) Cons.prems] by blast
  then have "ready policies w1" by (simp add: well_run_def)
  with Cons.IH obtain w2 where "run_calls redis policies cs w1 = (Inr (), w2)"
    "well_run policies w1 w2" by blast
  with c show ?case using well_run_trans by fastforce
qed


text \<open>A request pays for at most one failed command: however many cache calls it makes, at most
  one of them is counted as an error (and reported to the breaker), because the first one latches
  the instance.\<close>

theorem one_failure_per_request:
  assumes "tame_client redis" and "ready policies w"
  shows "cache_errors (snd (run_calls redis policies cs w)) \<le> cache_errors w + 1"
proof -
  obtain w' where "run_calls redis policies cs w = (Inr (), w')" "well_run policies w w'"
    using run_calls_well_run [OF assms] by blast
  then show ?thesis by (simp add: well_run_def latch_def split: if_splits)
qed

text \<open>Nothing is stored without an expiry: the calls never reach the part of a client that sets
  a key with a lifetime below one second. Two clients that agree on every command except such sets
  cannot be told apart.\<close>

theorem always_an_expiry:
  assumes "redis_get redis = redis_get redis'" and "redis_mget redis = redis_mget redis'"
    and "redis_delete redis = redis_delete redis'" and "redis_incr redis = redis_incr redis'"
    and "\<forall>k v ex nx. 1 \<le> ex \<longrightarrow> redis_set redis k v ex nx = redis_set redis' k v ex nx"
  shows "run_calls redis policies cs = run_calls redis' policies cs"
proof -
  have set: "redis_set redis k v (max 1 ttl) nx = redis_set redis' k v (max 1 ttl) nx" for k v ttl nx
    using assms(5) by simp
  have "run_call redis policies c = run_call redis' policies c" for c
    by (cases c) (simp_all add: cache_method_defs assms(1-4) set cong: option.case_cong)
  then show ?thesis by (induction cs) simp_all
qed


lemma try_redis_refused:
  "live policies u = (Inr False, v) \<Longrightarrow> try_redis policies op fb cmd fin u = (Inr fb, v)"
  by (simp add: try_redis_def)

lemma run_call_refused:
  "live policies u = (Inr False, v) \<Longrightarrow> run_call redis policies c u = (Inr (), v)"
  by (cases c)
    (simp_all add: cache_method_defs try_redis_refused drop_result_skips [OF try_redis_refused])

text \<open>While the Redis circuit is open and its interval runs, a request sends no command at all:
  after any sequence of calls the state is the one before, except that the instance may have looked
  up its breaker.\<close>

theorem open_cache_circuit_sends_nothing:
  assumes "breakers w ''redis'' = Some b" and "cb_state b = OPEN"
    and "now w - opened_at b < reset_seconds b"
    and "cache_breaker (cache w) = None \<or> cache_breaker (cache w) = Some ''redis''"
  shows "fst (run_calls redis policies cs w) = Inr ()
    \<and> (snd (run_calls redis policies cs w) = w
       \<or> snd (run_calls redis policies cs w) = w\<lparr>cache := (cache w)\<lparr>cache_breaker := Some ''redis''\<rparr>\<rparr>)"
proof (cases "usable w")
  case False
  then have "run_calls redis policies cs w = (Inr (), w)"
    by (induction cs) (simp_all add: run_call_skips)
  then show ?thesis by simp
next
  case True
  let ?v = "w\<lparr>cache := (cache w)\<lparr>cache_breaker := Some ''redis''\<rparr>\<rparr>"
  have a: "allow (now w) b = (False, b)" using assms(2,3) by (simp add: allow_def)
  have keep: "update_breaker ''redis'' (\<lambda>_. b) ?v = ?v"
    using assms(1) by (simp add: update_breaker_def fun_upd_idem)
  have live_w: "live policies w = (Inr False, ?v)"
  proof -
    have "resolve_breaker policies w = (Inr ''redis'', ?v)"
      using assms(1,4) by (auto simp: resolve_breaker_def)
    with True assms(1) a keep show ?thesis
      by (simp add: live_def usable_def breaker_allow_def)
  qed
  have live_v: "live policies ?v = (Inr False, ?v)"
  proof -
    have "resolve_breaker policies ?v = (Inr ''redis'', ?v)" by (simp add: resolve_breaker_def)
    with True assms(1) a keep show ?thesis
      by (simp add: live_def usable_def breaker_allow_def)
  qed
  note refuse = run_call_refused
  have "run_calls redis policies cs ?v = (Inr (), ?v)" for cs
    by (induction cs) (simp_all add: refuse [OF live_v])
  then show ?thesis
    using refuse [OF live_w] by (cases cs) simp_all
qed

text \<open>A logical read is counted once, as what it was: an answer from Redis is a hit or a miss, a
  failed command an error and neither of the two; the answer is returned and a failure reads as a
  miss.\<close>

theorem reads_counted_once:
  assumes "live policies w = (Inr True, w1)" and "redis_get redis key w1 = (r, w2)"
    and "\<forall>e. r = Inl e \<longrightarrow> is_cache_failure e"
  shows "fst (cache_get redis policies key entity w) = Inr (case r of Inl _ \<Rightarrow> None | Inr v \<Rightarrow> v)
    \<and> metrics (snd (cache_get redis policies key entity w)) = metrics w2 @
        [case r of
           Inl _ \<Rightarrow> CounterInc ''cache_errors_total'' [''get'']
         | Inr None \<Rightarrow> CounterInc ''cache_misses_total'' [cache_entity entity]
         | Inr (Some _) \<Rightarrow> CounterInc ''cache_hits_total'' [cache_entity entity]]"
proof -
  have op: "cache_operation ''get'' = ''get''" by (simp add: cache_operation_def CACHE_OPERATIONS_def)
  show ?thesis
  proof (cases r)
    case (Inl e)
    with assms op show ?thesis
      by (simp add: cache_get_def try_redis_def degrade_def Let_def log_metric_def
          observe_cache_error_def split: option.split)
  next
    case (Inr v)
    with assms show ?thesis
      by (cases v)
        (simp_all add: cache_get_def try_redis_def succeed_def log_metric_def
          observe_cache_miss_def observe_cache_hit_def split: option.split)
  qed
qed

subsection \<open>Witnesses: a Redis in memory and a dead one\<close>

definition memory_redis :: "('c, string \<rightharpoonup> string) request_scheme redis_client" where
  "memory_redis =
     \<lparr>redis_get = (\<lambda>k w. (Inr (request.more w k), w)),
      redis_mget = (\<lambda>ks w. (Inr (map (request.more w) ks), w)),
      redis_set = (\<lambda>k v ex nx w.
        if nx \<and> request.more w k \<noteq> None then (Inr False, w)
        else (Inr True, w\<lparr>request.more := (request.more w)(k \<mapsto> v)\<rparr>)),
      redis_delete = (\<lambda>k w. (Inr (if request.more w k = None then 0 else 1),
        w\<lparr>request.more := (request.more w)(k := None)\<rparr>)),
      redis_incr = (\<lambda>k w.
        (Inr (as_int (request.more w k) + 1),
         w\<lparr>request.more := (request.more w)(k \<mapsto> str_int (as_int (request.more w k) + 1))\<rparr>))\<rparr>"

definition dead_redis :: "('c, 'm) request_scheme redis_client" where
  "dead_redis =
     \<lparr>redis_get = (\<lambda>k. raise_cmd (RedisTimeoutError ''timeout'')),
      redis_mget = (\<lambda>ks. raise_cmd (RedisTimeoutError ''timeout'')),
      redis_set = (\<lambda>k v ex nx. raise_cmd (RedisTimeoutError ''timeout'')),
      redis_delete = (\<lambda>k. raise_cmd (RedisTimeoutError ''timeout'')),
      redis_incr = (\<lambda>k. raise_cmd (RedisTimeoutError ''timeout''))\<rparr>"

definition demo_cache_policies :: "string \<rightharpoonup> dependency_policy" where
  "demo_cache_policies = [''redis'' \<mapsto> cache_policy default_settings]"

definition demo_request :: "(nat, string \<rightharpoonup> string) request_scheme" where
  "demo_request =
     \<lparr>now = 0, breakers = Map.empty, metrics = [], session_info = None,
      cache = new_article_cache True, \<dots> = Map.empty\<rparr>"

lemma dead_redis_tame: "tame_client dead_redis"
  by (simp add: tame_client_def dead_redis_def tame_def)

lemma demo_ready: "ready demo_cache_policies demo_request"
  by (simp add: ready_def demo_cache_policies_def demo_request_def new_article_cache_def)


theorem one_failure_per_request_witness:
  "cache_errors (snd (run_calls dead_redis demo_cache_policies
      [GetArticle 7, AcquireLock ''k'' 2, SetArticle 7 ''b'' 300] demo_request)) \<le> 1"
proof -
  have "cache_errors demo_request = 0" by (simp add: cache_errors_def demo_request_def)
  with one_failure_per_request [OF dead_redis_tame demo_ready] show ?thesis by (metis add_0)
qed


theorem unusable_cache_is_silent_witness:
  "run_calls dead_redis demo_cache_policies [GetArticle 7]
     (demo_request\<lparr>cache := new_article_cache False\<rparr>)
   = (Inr (), demo_request\<lparr>cache := new_article_cache False\<rparr>)"
  by (rule unusable_cache_is_silent) (simp add: new_article_cache_def)

text \<open>A client that would take a zero lifetime as \<open>keep for ever\<close>, which is never asked to.\<close>

definition leaky_redis :: "('c, string \<rightharpoonup> string) request_scheme redis_client" where
  "leaky_redis =
     memory_redis\<lparr>redis_set := (\<lambda>k v ex nx w.
       if ex < 1 then raise_cmd (RuntimeError ''leak'') w else redis_set memory_redis k v ex nx w)\<rparr>"

theorem always_an_expiry_witness:
  "run_calls leaky_redis demo_cache_policies [SetArticle 7 ''b'' 0, AcquireLock ''k'' (- 5)]
   = run_calls memory_redis demo_cache_policies [SetArticle 7 ''b'' 0, AcquireLock ''k'' (- 5)]"
  by (rule always_an_expiry) (auto simp: leaky_redis_def fun_eq_iff)

definition demo_open_redis :: circuit_breaker where
  "demo_open_redis = to_open 0 (new_breaker ''redis'' 5 10 1 [])"

theorem open_cache_circuit_sends_nothing_witness:
  "request.more (snd (run_calls memory_redis demo_cache_policies [SetArticle 7 ''b'' 300]
      (demo_request\<lparr>breakers := [''redis'' \<mapsto> demo_open_redis]\<rparr>))) = Map.empty"
proof -
  let ?w = "demo_request\<lparr>breakers := [''redis'' \<mapsto> demo_open_redis]\<rparr>"
  have "snd (run_calls memory_redis demo_cache_policies [SetArticle 7 ''b'' 300] ?w) = ?w
    \<or> snd (run_calls memory_redis demo_cache_policies [SetArticle 7 ''b'' 300] ?w)
      = ?w\<lparr>cache := (cache ?w)\<lparr>cache_breaker := Some ''redis''\<rparr>\<rparr>"
    by (rule open_cache_circuit_sends_nothing [THEN conjunct2, of _ demo_open_redis])
      (simp_all add: demo_open_redis_def breaker_defs demo_request_def new_article_cache_def)
  then show ?thesis by (auto simp: demo_request_def)
qed

theorem reads_counted_once_witness:
  "fst (cache_get memory_redis demo_cache_policies ''article:7'' ''article'' demo_request)
     = Inr None
   \<and> (\<exists>calls. metrics (snd (cache_get memory_redis demo_cache_policies ''article:7'' ''article''
        demo_request)) = calls @ [CounterInc ''cache_misses_total'' [''article'']])"
proof -
  obtain w1 where l: "live demo_cache_policies demo_request = (Inr True, w1)"
      "request.more w1 = Map.empty"
    by (simp add: live_def demo_request_def new_article_cache_def resolve_breaker_def
        demo_cache_policies_def breaker_allow_def get_breaker_def breaker_defs Let_def bind_cmd_def)
  have g: "redis_get memory_redis ''article:7'' w1 = (Inr None, w1)"
    using l(2) by (simp add: memory_redis_def)
  have e: "cache_entity ''article'' = ''article''" by (simp add: cache_entity_def CACHE_ENTITIES_def)
  show ?thesis
    using reads_counted_once [OF l(1) g, of "''article''"] e by auto
qed

text \<open>A counter that \<open>INCR\<close> wrote is read back.\<close>

lemma as_int_counter: "0 \<le> i \<Longrightarrow> i < 10 ^ 20 \<Longrightarrow> as_int (Some (str_int i)) = i"
  by (simp add: as_int_def py_int_numeral)

end
