(* ===== verification/ArticleRepo.thy ===== *)
theory ArticleRepo
  imports Session Pagination "HOL-Library.Multiset"
begin

text \<open>
  \<open>app/models/article.py\<close> and \<open>app/repositories/article_repo.py\<close>. A statement is the tree that the
  SQLAlchemy expressions of the source build. The session that executes statements is a parameter,
  a record of coroutines; what MySQL documents of \<open>SELECT\<close> and \<open>UPDATE\<close> is stated by the predicates
  \<open>select_answer\<close> and \<open>sql_session\<close>, which theorems take as hypotheses. Rows are values, so the
  identity map and \<open>expire_all\<close> have no counterpart.
\<close>

record article =
  art_id :: int
  author_id :: int
  title :: string
  body :: string
  created_at :: datetime
  updated_at :: datetime
  deleted_at :: "datetime option"

text \<open>A row of \<open>SUMMARY_COLUMNS\<close>.\<close>

record article_row =
  row_id :: int
  row_author_id :: int
  row_title :: string
  row_created_at :: datetime
  row_updated_at :: datetime

definition summary_row :: "article \<Rightarrow> article_row" where
  "summary_row a =
     \<lparr>row_id = art_id a, row_author_id = author_id a, row_title = title a,
      row_created_at = created_at a, row_updated_at = updated_at a\<rparr>"

subsection \<open>Statements\<close>

datatype column = Id | AuthorId | Title | Body | CreatedAt | UpdatedAt | DeletedAt

datatype clause =
    IsNull column
  | Equals column int
  | Less column int
  | AndC clause clause
  | OrC clause clause

datatype direction = Asc | Desc

record select_stmt =
  sel_columns :: "column list"
  sel_where :: "clause list"      \<comment> \<open>successive \<open>where\<close> calls are joined by \<open>AND\<close>\<close>
  sel_order_by :: "(column \<times> direction) list"
  sel_limit :: "int option"

datatype assignment = SetTitle string | SetBody string | SetDeletedAt datetime

record update_stmt =
  upd_where :: "clause list"
  upd_values :: "assignment list"

definition ALL_COLUMNS :: "column list" where
  "ALL_COLUMNS = [Id, AuthorId, Title, Body, CreatedAt, UpdatedAt, DeletedAt]"

definition SUMMARY_COLUMNS :: "column list" where
  "SUMMARY_COLUMNS = [Id, AuthorId, Title, CreatedAt, UpdatedAt]"

definition after_clause :: "datetime \<times> int \<Rightarrow> clause" where
  "after_clause after =
     (let (after_created_at, after_id) = after in
      OrC (Less CreatedAt after_created_at)
          (AndC (Equals CreatedAt after_created_at) (Less Id after_id)))"

definition build_list_query :: "int \<Rightarrow> (datetime \<times> int) option \<Rightarrow> int option \<Rightarrow> select_stmt" where
  "build_list_query limit after author =
     \<lparr>sel_columns = SUMMARY_COLUMNS,
      sel_where = [IsNull DeletedAt]
        @ (case author of None \<Rightarrow> [] | Some a \<Rightarrow> [Equals AuthorId a])
        @ (case after of None \<Rightarrow> [] | Some p \<Rightarrow> [after_clause p]),
      sel_order_by = [(CreatedAt, Desc), (Id, Desc)],
      sel_limit = Some limit\<rparr>"

definition get_query :: "int \<Rightarrow> select_stmt" where
  "get_query article_id =
     \<lparr>sel_columns = ALL_COLUMNS, sel_where = [Equals Id article_id, IsNull DeletedAt],
      sel_order_by = [], sel_limit = None\<rparr>"

definition cas_where :: "int \<Rightarrow> datetime \<Rightarrow> clause list" where
  "cas_where article_id expected_updated_at =
     [Equals Id article_id, Equals UpdatedAt expected_updated_at, IsNull DeletedAt]"

definition update_query :: "int \<Rightarrow> datetime \<Rightarrow> string \<Rightarrow> string \<Rightarrow> update_stmt" where
  "update_query article_id expected_updated_at new_title new_body =
     \<lparr>upd_where = cas_where article_id expected_updated_at,
      upd_values = [SetTitle new_title, SetBody new_body]\<rparr>"

definition soft_delete_query :: "int \<Rightarrow> datetime \<Rightarrow> datetime \<Rightarrow> update_stmt" where
  "soft_delete_query article_id expected_updated_at utcnow =
     \<lparr>upd_where = cas_where article_id expected_updated_at,
      upd_values = [SetDeletedAt utcnow]\<rparr>"

subsection \<open>What the statements mean\<close>

text \<open>The columns that clauses and orders name; \<open>None\<close> is \<open>NULL\<close>.\<close>

fun column_value :: "column \<Rightarrow> article \<Rightarrow> int option" where
  "column_value Id a = Some (art_id a)"
| "column_value AuthorId a = Some (author_id a)"
| "column_value CreatedAt a = Some (created_at a)"
| "column_value UpdatedAt a = Some (updated_at a)"
| "column_value DeletedAt a = deleted_at a"
| "column_value _ a = None"   \<comment> \<open>text columns are never compared\<close>

text \<open>A comparison with \<open>NULL\<close> is unknown, which a \<open>WHERE\<close> without negation treats as false.\<close>

fun holds :: "clause \<Rightarrow> article \<Rightarrow> bool" where
  "holds (IsNull c) a = (column_value c a = None)"
| "holds (Equals c v) a = (column_value c a = Some v)"
| "holds (Less c v) a = (case column_value c a of None \<Rightarrow> False | Some x \<Rightarrow> x < v)"
| "holds (AndC p q) a = (holds p a \<and> holds q a)"
| "holds (OrC p q) a = (holds p a \<or> holds q a)"

definition matches :: "clause list \<Rightarrow> article \<Rightarrow> bool" where
  "matches cs a \<longleftrightarrow> (\<forall>c \<in> set cs. holds c a)"

fun value_less :: "int option \<Rightarrow> int option \<Rightarrow> bool" where
  "value_less None v = (v \<noteq> None)"
| "value_less (Some x) v = (case v of None \<Rightarrow> False | Some y \<Rightarrow> x < y)"

fun in_order :: "(column \<times> direction) list \<Rightarrow> article \<Rightarrow> article \<Rightarrow> bool" where
  "in_order [] a b = True"
| "in_order ((c, d) # os) a b =
     (if column_value c a = column_value c b then in_order os a b
      else case d of
          Asc \<Rightarrow> value_less (column_value c a) (column_value c b)
        | Desc \<Rightarrow> value_less (column_value c b) (column_value c a))"

text \<open>
  The documented answer to a \<open>SELECT\<close>: the matching rows of the table, each once, in the order asked
  for, and no more of them than the limit.
\<close>

definition select_answer :: "select_stmt \<Rightarrow> article list \<Rightarrow> article list \<Rightarrow> bool" where
  "select_answer q table rows \<longleftrightarrow>
     (\<exists>xs. mset xs = mset (filter (matches (sel_where q)) table)
         \<and> sorted_wrt (in_order (sel_order_by q)) xs
         \<and> rows = (case sel_limit q of None \<Rightarrow> xs | Some n \<Rightarrow> take (nat n) xs))"

fun assign :: "assignment \<Rightarrow> article \<Rightarrow> article" where
  "assign (SetTitle t) a = a\<lparr>title := t\<rparr>"
| "assign (SetBody b) a = a\<lparr>body := b\<rparr>"
| "assign (SetDeletedAt t) a = a\<lparr>deleted_at := Some t\<rparr>"

definition assign_all :: "assignment list \<Rightarrow> article \<Rightarrow> article" where
  "assign_all vs a = foldl (\<lambda>a v. assign v a) a vs"

text \<open>
  The documented effect of an \<open>UPDATE\<close> at the time \<open>stamp\<close>: the matching rows get the new values, and
  a row that a value really changed gets the stamp (\<open>ON UPDATE CURRENT_TIMESTAMP(6)\<close>). The reported
  row count is that of the matching rows.
\<close>

definition update_row :: "datetime \<Rightarrow> update_stmt \<Rightarrow> article \<Rightarrow> article" where
  "update_row stamp q a =
     (if \<not> matches (upd_where q) a then a
      else let a' = assign_all (upd_values q) a in
           if a' = a then a else a'\<lparr>updated_at := stamp\<rparr>)"

definition update_effect :: "datetime \<Rightarrow> update_stmt \<Rightarrow> article list \<Rightarrow> article list" where
  "update_effect stamp q table = map (update_row stamp q) table"

definition update_count :: "update_stmt \<Rightarrow> article list \<Rightarrow> int" where
  "update_count q table = int (length (filter (matches (upd_where q)) table))"

subsection \<open>The repository\<close>

text \<open>What the repository asks of its session: coroutines, cancelled at their deadline.\<close>

record 'w sql_session =
  execute_select :: "select_stmt \<Rightarrow> ('w, article list) awaitable"
  execute_rows :: "select_stmt \<Rightarrow> ('w, article_row list) awaitable"
  execute_update :: "update_stmt \<Rightarrow> ('w, int) awaitable"
  flush_article :: "int \<Rightarrow> string \<Rightarrow> string \<Rightarrow> ('w, int) awaitable"
    \<comment> \<open>\<open>flush\<close> of an added \<open>Article(author_id, title, body)\<close>; its primary key\<close>
  refresh_article :: "int \<Rightarrow> ('w, article) awaitable"
  session_rollback :: "('w, unit) awaitable"
  utcnow :: "'w \<Rightarrow> datetime"

definition bind_await ::
  "('w, 'a) awaitable \<Rightarrow> ('a \<Rightarrow> ('w, 'b) awaitable) \<Rightarrow> ('w, 'b) awaitable" where
  "bind_await op f dl w =
     (case op dl w of
        (Done (Inr a), w') \<Rightarrow> f a dl w'
      | (Done (Inl e), w') \<Rightarrow> (Done (Inl e), w')
      | (Expired, w') \<Rightarrow> (Expired, w'))"

definition finish :: "exn + 'a \<Rightarrow> ('w, 'a) awaitable" where
  "finish r dl w = (Done r, w)"

definition scalar_one_or_none :: "'a list \<Rightarrow> exn + 'a option" where
  "scalar_one_or_none rows =
     (case rows of
        [] \<Rightarrow> Inr None
      | [r] \<Rightarrow> Inr (Some r)
      | _ \<Rightarrow> Inl (SQLAlchemyError ''Multiple rows were found when one or none was required''))"

record 'w repository =
  repo_session :: "'w sql_session"
  repo_policies :: "string \<rightharpoonup> dependency_policy"
  repo_waits :: "nat \<Rightarrow> seconds"       \<comment> \<open>the random waits of the retry loop\<close>

definition read_mysql ::
  "('m proc_scheme) repository \<Rightarrow> ('m proc_scheme, 'a) awaitable \<Rightarrow> ('m proc_scheme, 'a) command" where
  "read_mysql r =
     guarded_read (repo_policies r) (repo_waits r) ''mysql'' (Some (session_rollback (repo_session r)))"

definition write_mysql ::
  "('m proc_scheme) repository \<Rightarrow> ('m proc_scheme, 'a) awaitable \<Rightarrow> ('m proc_scheme, 'a) command" where
  "write_mysql r = guarded_write (repo_policies r) (repo_waits r) ''mysql''"

definition repo_create ::
  "('m proc_scheme) repository \<Rightarrow> int \<Rightarrow> string \<Rightarrow> string \<Rightarrow> ('m proc_scheme, article) command" where
  "repo_create r author new_title new_body =
     write_mysql r
       (bind_await (flush_article (repo_session r) author new_title new_body)
          (refresh_article (repo_session r)))"

definition repo_get ::
  "('m proc_scheme) repository \<Rightarrow> int \<Rightarrow> ('m proc_scheme, article option) command" where
  "repo_get r article_id =
     read_mysql r
       (bind_await (execute_select (repo_session r) (get_query article_id))
          (\<lambda>rows. finish (scalar_one_or_none rows)))"

definition repo_list ::
  "('m proc_scheme) repository \<Rightarrow> int \<Rightarrow> (datetime \<times> int) option \<Rightarrow> int option
   \<Rightarrow> ('m proc_scheme, article_row list) command" where
  "repo_list r limit after author =
     read_mysql r (execute_rows (repo_session r) (build_list_query limit after author))"

definition update_cas ::
  "('m proc_scheme) repository \<Rightarrow> int \<Rightarrow> datetime \<Rightarrow> string \<Rightarrow> string \<Rightarrow> ('m proc_scheme, int) command" where
  "update_cas r article_id expected_updated_at new_title new_body =
     write_mysql r
       (execute_update (repo_session r)
          (update_query article_id expected_updated_at new_title new_body))"

definition soft_delete_cas ::
  "('m proc_scheme) repository \<Rightarrow> int \<Rightarrow> datetime \<Rightarrow> ('m proc_scheme, int) command" where
  "soft_delete_cas r article_id expected_updated_at =
     write_mysql r
       (\<lambda>dl w.
          execute_update (repo_session r)
            (soft_delete_query article_id expected_updated_at (utcnow (repo_session r) w)) dl w)"

end
