(* ===== verification/Listing.thy ===== *)
theory Listing
  imports ArticleRepo
begin

text \<open>
  What the list query of \<open>app/repositories/article_repo.py\<close> answers, and how the pages that
  \<open>ArticleService._load_page\<close> cuts from it follow each other: \<open>limit + 1\<close> rows are asked for, and the
  extra one proves that another page exists.
\<close>

type_synonym position = "datetime \<times> int"

definition split_page :: "int \<Rightarrow> article_row list \<Rightarrow> article_row list \<times> position option" where
  "split_page limit rows =
     (if int (length rows) \<le> limit then (rows, None)
      else
        let page = take (nat limit) rows;
            last_row = last page in
        (page, Some (row_created_at last_row, row_id last_row)))"

subsection \<open>The order of a list page\<close>

definition newer :: "article \<Rightarrow> article \<Rightarrow> bool" where
  "newer a b \<longleftrightarrow> created_at b < created_at a \<or> created_at b = created_at a \<and> art_id b < art_id a"

definition older_than :: "position \<Rightarrow> article \<Rightarrow> bool" where
  "older_than p a \<longleftrightarrow> created_at a < fst p \<or> created_at a = fst p \<and> art_id a < snd p"

definition key_of :: "article \<Rightarrow> position" where
  "key_of a = (created_at a, art_id a)"

text \<open>The articles a list shows: the live ones, of one author if a filter is given.\<close>

definition listed :: "int option \<Rightarrow> article \<Rightarrow> bool" where
  "listed author a \<longleftrightarrow> deleted_at a = None \<and> (case author of None \<Rightarrow> True | Some x \<Rightarrow> author_id a = x)"

lemma newer_asym: "newer a b \<Longrightarrow> \<not> newer b a"
  by (auto simp: newer_def)

lemma newer_asymp: "asymp newer"
  by (rule asympI) (rule newer_asym)

lemma newer_trans: "newer a b \<Longrightarrow> newer b c \<Longrightarrow> newer a c"
  by (auto simp: newer_def)

lemma older_key: "older_than (key_of b) a \<longleftrightarrow> newer b a"
  by (auto simp: older_than_def key_of_def newer_def)

lemma matches_list_query:
  "matches (sel_where (build_list_query limit after author)) a \<longleftrightarrow>
     listed author a \<and> (case after of None \<Rightarrow> True | Some p \<Rightarrow> older_than p a)"
  by (auto simp: matches_def build_list_query_def after_clause_def listed_def older_than_def Let_def
      split: option.splits prod.splits)

lemma in_list_order:
  "in_order [(CreatedAt, Desc), (Id, Desc)] a b \<longleftrightarrow> newer a b \<or> key_of a = key_of b"
  by (auto simp: newer_def key_of_def)

declare in_order.simps [simp del]

text \<open>Two strictly sorted lists of the same rows are the same list.\<close>

lemma sorted_wrt_unique:
  assumes "asymp R"
  shows "sorted_wrt R xs \<Longrightarrow> sorted_wrt R ys \<Longrightarrow> mset xs = mset ys \<Longrightarrow> xs = ys"
proof (induction xs arbitrary: ys)
  case (Cons x xs)
  then obtain y ys' where ys: "ys = y # ys'" by (cases ys) auto
  have "x = y"
  proof (rule ccontr)
    assume ne: "x \<noteq> y"
    from Cons.prems(3) have "set (x # xs) = set ys" by (rule mset_eq_setD)
    with ys ne have "x \<in> set ys'" "y \<in> set xs" by auto
    with Cons.prems(1,2) ys have "R y x" "R x y" by auto
    with assms show False by (auto dest: asympD)
  qed
  with Cons ys show ?case by auto
qed simp

lemma strictly_sorted:
  assumes "sorted_wrt (in_order [(CreatedAt, Desc), (Id, Desc)]) xs" and "distinct (map art_id xs)"
  shows "sorted_wrt newer xs"
  using assms
proof (induction xs)
  case (Cons x xs)
  have "newer x y" if "y \<in> set xs" for y
  proof -
    from Cons.prems that have "newer x y \<or> key_of x = key_of y" by (auto simp: in_list_order)
    moreover from Cons.prems that have "art_id x \<noteq> art_id y" by auto
    ultimately show ?thesis by (auto simp: key_of_def)
  qed
  with Cons show ?case by simp
qed simp

lemma distinct_ids_mset:
  assumes "distinct (map art_id table)" and "mset xs = mset (filter P table)"
  shows "distinct (map art_id xs)"
proof -
  have "mset (map art_id xs) = mset (map art_id (filter P table))" using assms(2) by simp
  moreover have "distinct (map art_id (filter P table))" using assms(1) by (rule distinct_map_filter)
  ultimately show ?thesis by (metis mset_eq_imp_distinct_iff)
qed

text \<open>The whole listing, newest first.\<close>

definition listing :: "int option \<Rightarrow> article list \<Rightarrow> article list \<Rightarrow> bool" where
  "listing author table xs \<longleftrightarrow> mset xs = mset (filter (listed author) table) \<and> sorted_wrt newer xs"

lemma answer_is_window:
  assumes ids: "distinct (map art_id table)" and L: "listing author table xs"
    and ans: "select_answer (build_list_query limit after author) table rows"
  shows "rows = take (nat limit)
    (filter (\<lambda>a. case after of None \<Rightarrow> True | Some p \<Rightarrow> older_than p a) xs)"
proof -
  let ?Q = "\<lambda>a. case after of None \<Rightarrow> True | Some p \<Rightarrow> older_than p a"
  from ans obtain ys where ys:
      "mset ys = mset (filter (matches (sel_where (build_list_query limit after author))) table)"
      "sorted_wrt (in_order [(CreatedAt, Desc), (Id, Desc)]) ys" "rows = take (nat limit) ys"
    by (auto simp: select_answer_def build_list_query_def)
  have "sorted_wrt newer ys"
    by (rule strictly_sorted [OF ys(2) distinct_ids_mset [OF ids ys(1)]])
  moreover have "sorted_wrt newer (filter ?Q xs)"
    using L by (simp add: listing_def sorted_wrt_filter)
  moreover have "mset ys = mset (filter ?Q xs)"
  proof -
    have "mset (filter ?Q xs) = filter_mset ?Q (mset (filter (listed author) table))"
      using L by (simp add: listing_def)
    also have "\<dots> = mset (filter (\<lambda>a. listed author a \<and> ?Q a) table)"
      by (simp add: filter_filter_mset)
    also have "(\<lambda>a. listed author a \<and> ?Q a)
        = matches (sel_where (build_list_query limit after author))"
      by (simp add: matches_list_query fun_eq_iff)
    finally show ?thesis using ys(1) by simp
  qed
  ultimately have "ys = filter ?Q xs" by (rule sorted_wrt_unique [OF newer_asymp])
  with ys(3) show ?thesis by simp
qed

lemma after_key_is_drop:
  assumes "sorted_wrt newer xs" and "0 < k" and "k \<le> length xs"
  shows "filter (older_than (key_of (xs ! (k - 1)))) xs = drop k xs"
proof -
  let ?p = "older_than (key_of (xs ! (k - 1)))"
  have "\<forall>a \<in> set (take k xs). \<not> ?p a"
  proof
    fix a
    assume "a \<in> set (take k xs)"
    then obtain j where j: "j < k" "a = xs ! j" using assms(3) by (auto simp: in_set_conv_nth)
    show "\<not> ?p a"
    proof (cases "j = k - 1")
      case True
      with j show ?thesis by (simp add: older_key newer_def)
    next
      case False
      with j assms have "newer a (xs ! (k - 1))" by (auto intro: sorted_wrt_nth_less)
      then show ?thesis by (auto simp: older_key dest: newer_asym)
    qed
  qed
  moreover have "\<forall>a \<in> set (drop k xs). ?p a"
  proof
    fix a
    assume "a \<in> set (drop k xs)"
    then obtain j where "j < length xs - k" "a = xs ! (k + j)" by (auto simp: in_set_conv_nth)
    with assms have "newer (xs ! (k - 1)) a" by (auto intro: sorted_wrt_nth_less)
    then show "?p a" by (simp add: older_key)
  qed
  ultimately have "filter ?p (take k xs @ drop k xs) = drop k xs"
    by (simp only: filter_append) (simp add: filter_False filter_True)
  then show ?thesis by simp
qed

subsection \<open>Following the cursors\<close>

text \<open>
  A client that follows \<open>next\<close> from the first page: \<open>fetch\<close> is one page request, and the walk ends
  with the page that has no successor, or after \<open>n\<close> requests.
\<close>

fun walk ::
  "(position option \<Rightarrow> article_row list \<times> position option) \<Rightarrow> nat \<Rightarrow> position option
   \<Rightarrow> article_row list list" where
  "walk fetch 0 after = []"
| "walk fetch (Suc n) after =
     (case fetch after of
        (page, None) \<Rightarrow> [page]
      | (page, Some p) \<Rightarrow> page # walk fetch n (Some p))"

text \<open>One page request against a table: the list query with \<open>limit + 1\<close>, projected and cut.\<close>

definition fetch_page ::
  "(select_stmt \<Rightarrow> article list) \<Rightarrow> int \<Rightarrow> int option \<Rightarrow> position option
   \<Rightarrow> article_row list \<times> position option" where
  "fetch_page sel limit author after =
     split_page limit (map summary_row (sel (build_list_query (limit + 1) after author)))"

lemma fetch_page_at:
  assumes ids: "distinct (map art_id table)" and L: "listing author table xs"
    and ans: "\<And>q. select_answer q table (sel q)" and lim: "1 \<le> limit" and k: "k \<le> length xs"
  defines "after \<equiv> (if k = 0 then None else Some (key_of (xs ! (k - 1))))"
  shows "fetch_page sel limit author after =
    (map summary_row (take (nat limit) (drop k xs)),
     if k + nat limit < length xs then Some (key_of (xs ! (k + nat limit - 1))) else None)"
proof -
  have "sel (build_list_query (limit + 1) after author) = take (nat (limit + 1)) (drop k xs)"
  proof (cases "k = 0")
    case True
    then show ?thesis using answer_is_window [OF ids L ans] by (simp add: after_def)
  next
    case False
    with L k have "filter (older_than (key_of (xs ! (k - 1)))) xs = drop k xs"
      by (intro after_key_is_drop) (auto simp: listing_def)
    with False show ?thesis using answer_is_window [OF ids L ans] by (simp add: after_def)
  qed
  then have rows: "fetch_page sel limit author after
      = split_page limit (map summary_row (take (Suc (nat limit)) (drop k xs)))"
    using lim by (simp add: fetch_page_def nat_add_distrib)
  show ?thesis
  proof (cases "k + nat limit < length xs")
    case False
    then have "int (length (take (Suc (nat limit)) (drop k xs))) \<le> limit" using lim by auto
    moreover have "take (Suc (nat limit)) (drop k xs) = take (nat limit) (drop k xs)"
      using False by simp
    ultimately show ?thesis using False by (simp add: rows split_page_def)
  next
    case True
    have t: "take (nat limit) (take (Suc (nat limit)) (drop k xs)) = take (nat limit) (drop k xs)"
      by simp
    have "take (nat limit) (drop k xs) \<noteq> []" using True lim by auto
    moreover have "last (take (nat limit) (drop k xs)) = xs ! (k + nat limit - 1)"
      using True lim by (subst last_conv_nth) auto
    ultimately have "last (map summary_row (take (nat limit) (drop k xs)))
        = summary_row (xs ! (k + nat limit - 1))" by (simp add: last_map)
    with True lim show ?thesis
      by (simp add: rows split_page_def Let_def take_map summary_row_def key_of_def)
  qed
qed

lemma walk_from:
  assumes ids: "distinct (map art_id table)" and L: "listing author table xs"
    and ans: "\<And>q. select_answer q table (sel q)" and lim: "1 \<le> limit"
  shows "k \<le> length xs \<Longrightarrow> length xs - k < n \<Longrightarrow>
    concat (walk (fetch_page sel limit author) n
              (if k = 0 then None else Some (key_of (xs ! (k - 1)))))
      = map summary_row (drop k xs)"
proof (induction n arbitrary: k)
  case (Suc n)
  note fp = fetch_page_at [OF ids L ans lim Suc.prems(1)]
  show ?case
  proof (cases "k + nat limit < length xs")
    case False
    then have "take (nat limit) (drop k xs) = drop k xs" by simp
    with False show ?thesis by (simp add: fp)
  next
    case True
    let ?k = "k + nat limit"
    have pos: "0 < ?k" using lim by auto
    have "?k \<le> length xs" "length xs - ?k < n" using True lim Suc.prems by auto
    from Suc.IH [OF this] pos
    have "concat (walk (fetch_page sel limit author) n (Some (key_of (xs ! (?k - 1)))))
        = map summary_row (drop ?k xs)" by (simp only: if_not_P neq0_conv not_gr_zero if_False)
    moreover have "take (nat limit) (drop k xs) @ drop ?k xs = drop k xs"
      by (metis add.commute append_take_drop_id drop_drop)
    then have "map summary_row (take (nat limit) (drop k xs)) @ map summary_row (drop ?k xs)
        = map summary_row (drop k xs)" by (metis map_append)
    ultimately show ?thesis
      unfolding walk.simps fp using True by (simp only: if_True prod.case option.case concat.simps)
  qed
qed simp

text \<open>Pagination is complete, ordered and free of duplicates: following the cursors from the first
  page visits every live article (of the author asked for) exactly once, newest first, whatever the
  page size, and within one request more than there are articles.\<close>

theorem pagination_complete:
  assumes "distinct (map art_id table)" and "\<forall>q. select_answer q table (sel q)" and "1 \<le> limit"
    and "mset xs = mset (filter (listed author) table)" and "sorted_wrt newer xs"
    and "length xs < n"
  shows "concat (walk (fetch_page sel limit author) n None) = map summary_row xs"
proof -
  have L: "listing author table xs" using assms(4,5) by (simp add: listing_def)
  have ans: "\<And>q. select_answer q table (sel q)" using assms(2) by blast
  show ?thesis using walk_from [OF assms(1) L ans assms(3), of 0 n] assms(6) by simp
qed

lemma list_answer_unique:
  assumes "distinct (map art_id table)" and "distinct (map art_id table')"
    and "mset (filter (matches (sel_where (build_list_query limit after author))) table)
       = mset (filter (matches (sel_where (build_list_query limit after author))) table')"
    and "select_answer (build_list_query limit after author) table rows"
    and "select_answer (build_list_query limit after author) table' rows'"
  shows "rows = rows'"
proof -
  let ?q = "build_list_query limit after author"
  have o: "sel_order_by ?q = [(CreatedAt, Desc), (Id, Desc)]" "sel_limit ?q = Some limit"
    by (simp_all add: build_list_query_def)
  from assms(4) obtain xs where xs: "mset xs = mset (filter (matches (sel_where ?q)) table)"
    "sorted_wrt (in_order (sel_order_by ?q)) xs" "rows = take (nat limit) xs"
    by (auto simp: select_answer_def o(2))
  from assms(5) obtain ys where ys: "mset ys = mset (filter (matches (sel_where ?q)) table')"
    "sorted_wrt (in_order (sel_order_by ?q)) ys" "rows' = take (nat limit) ys"
    by (auto simp: select_answer_def o(2))
  have "sorted_wrt newer xs" "sorted_wrt newer ys"
    using strictly_sorted [OF xs(2) [unfolded o] distinct_ids_mset [OF assms(1) xs(1)]]
      strictly_sorted [OF ys(2) [unfolded o] distinct_ids_mset [OF assms(2) ys(1)]] by blast+
  moreover have "mset xs = mset ys" using xs(1) ys(1) assms(3) by simp
  ultimately have "xs = ys" by (rule sorted_wrt_unique [OF newer_asymp])
  with xs(3) ys(3) show ?thesis by simp
qed

text \<open>Pages are stable while others write: an article created after a position was handed out, or
  a change that leaves the rows older than the position as they are, does not move the page that
  continues from it. No row is skipped or shown twice because something was published meanwhile.\<close>

theorem page_stable_under_newer_rows:
  assumes "distinct (map art_id table)" and "distinct (map art_id table')"
    and "mset (filter (\<lambda>a. listed author a \<and> older_than p a) table)
       = mset (filter (\<lambda>a. listed author a \<and> older_than p a) table')"
    and "select_answer (build_list_query limit (Some p) author) table rows"
    and "select_answer (build_list_query limit (Some p) author) table' rows'"
  shows "rows = rows'"
proof (rule list_answer_unique [OF assms(1,2) _ assms(4,5)])
  have "matches (sel_where (build_list_query limit (Some p) author))
      = (\<lambda>a. listed author a \<and> older_than p a)"
    by (simp add: matches_list_query fun_eq_iff)
  then show "mset (filter (matches (sel_where (build_list_query limit (Some p) author))) table)
      = mset (filter (matches (sel_where (build_list_query limit (Some p) author))) table')"
    using assms(3) by simp
qed


subsection \<open>A reference evaluator\<close>

text \<open>An evaluator of \<open>SELECT\<close> that meets the documented answer; the witnesses run on it.\<close>

fun insert_in_order :: "(column \<times> direction) list \<Rightarrow> article \<Rightarrow> article list \<Rightarrow> article list" where
  "insert_in_order os a [] = [a]"
| "insert_in_order os a (b # bs) =
     (if in_order os a b then a # b # bs else b # insert_in_order os a bs)"

definition run_select :: "select_stmt \<Rightarrow> article list \<Rightarrow> article list" where
  "run_select q table =
     (let xs = foldr (insert_in_order (sel_order_by q)) (filter (matches (sel_where q)) table) [] in
      case sel_limit q of None \<Rightarrow> xs | Some n \<Rightarrow> take (nat n) xs)"

lemma value_less_total: "v \<noteq> w \<Longrightarrow> value_less v w \<or> value_less w v"
  by (cases v; cases w) auto

lemma value_less_trans: "value_less u v \<Longrightarrow> value_less v w \<Longrightarrow> value_less u w"
  by (cases u; cases v; cases w) auto

lemma value_less_irrefl: "\<not> value_less v v"
  by (cases v) auto

lemma in_order_total: "in_order os a b \<or> in_order os b a"
proof (induction os)
  case (Cons o1 os)
  obtain c d where "o1 = (c, d)" by fastforce
  with Cons value_less_total [of "column_value c a" "column_value c b"] show ?case
    by (cases d) (auto simp: in_order.simps)
qed (simp add: in_order.simps)

lemma in_order_trans: "in_order os a b \<Longrightarrow> in_order os b c \<Longrightarrow> in_order os a c"
proof (induction os)
  case (Cons o1 os)
  obtain x d where "o1 = (x, d)" by fastforce
  with Cons show ?case
    by (cases d)
      (auto simp: in_order.simps value_less_irrefl dest: value_less_trans split: if_splits)
qed (simp add: in_order.simps)

lemma insert_in_order_mset: "mset (insert_in_order os a bs) = add_mset a (mset bs)"
  by (induction bs) auto

lemma insert_in_order_sorted:
  "sorted_wrt (in_order os) bs \<Longrightarrow> sorted_wrt (in_order os) (insert_in_order os a bs)"
proof (induction bs)
  case (Cons b bs)
  have set: "set (insert_in_order os a bs) = insert a (set bs)"
    using insert_in_order_mset [of os a bs] by (metis set_mset_add_mset_insert set_mset_mset)
  from Cons set show ?case
    using in_order_total [of os a b] by (auto intro: in_order_trans)
qed simp

lemma run_select_answers: "select_answer q table (run_select q table)"
proof -
  let ?ys = "filter (matches (sel_where q)) table"
  let ?xs = "foldr (insert_in_order (sel_order_by q)) ?ys []"
  have "mset (foldr (insert_in_order os) ys []) = mset ys" for os ys
    by (induction ys) (simp_all add: insert_in_order_mset)
  moreover have "sorted_wrt (in_order os) (foldr (insert_in_order os) ys [])" for os ys
    by (induction ys) (simp_all add: insert_in_order_sorted)
  ultimately show ?thesis
    unfolding select_answer_def run_select_def Let_def by (intro exI [of _ ?xs]) simp
qed

definition demo_article :: "int \<Rightarrow> int \<Rightarrow> datetime \<Rightarrow> article" where
  "demo_article i who t =
     \<lparr>art_id = i, author_id = who, title = ''t'', body = ''b'', created_at = t, updated_at = t,
      deleted_at = None\<rparr>"

definition demo_table :: "article list" where
  "demo_table =
     [demo_article 1 7 100, demo_article 2 8 100, (demo_article 3 7 150)\<lparr>deleted_at := Some 160\<rparr>,
      demo_article 4 7 200]"

theorem pagination_complete_witness:
  "concat (walk (fetch_page (\<lambda>q. run_select q demo_table) 1 None) 4 None)
   = map summary_row [demo_article 4 7 200, demo_article 2 8 100, demo_article 1 7 100]"
proof (rule pagination_complete [of demo_table])
  show "mset [demo_article 4 7 200, demo_article 2 8 100, demo_article 1 7 100]
      = mset (filter (listed None) demo_table)"
    by (simp add: demo_table_def listed_def demo_article_def)
qed (simp_all add: run_select_answers demo_table_def demo_article_def newer_def)

theorem page_stable_under_newer_rows_witness:
  "run_select (build_list_query 10 (Some (200, 4)) None) demo_table
   = run_select (build_list_query 10 (Some (200, 4)) None) (demo_table @ [demo_article 5 9 300])"
  by (rule page_stable_under_newer_rows [OF _ _ _ run_select_answers run_select_answers])
    (simp_all add: demo_table_def demo_article_def listed_def older_than_def)

subsection \<open>Compare and set\<close>

lemma matches_cas: "matches (cas_where i e) a \<longleftrightarrow> art_id a = i \<and> updated_at a = e \<and> deleted_at a = None"
  by (auto simp: matches_def cas_where_def)

lemma assign_all_ids [simp]:
  "art_id (assign_all vs a) = art_id a" "author_id (assign_all vs a) = author_id a"
  "created_at (assign_all vs a) = created_at a" "updated_at (assign_all vs a) = updated_at a"
proof -
  have step: "art_id (assign v a) = art_id a \<and> author_id (assign v a) = author_id a
    \<and> created_at (assign v a) = created_at a \<and> updated_at (assign v a) = updated_at a" for v a
    by (cases v) auto
  have "art_id (assign_all vs a) = art_id a \<and> author_id (assign_all vs a) = author_id a
    \<and> created_at (assign_all vs a) = created_at a \<and> updated_at (assign_all vs a) = updated_at a"
    by (induction vs arbitrary: a) (simp_all add: assign_all_def step)
  then show "art_id (assign_all vs a) = art_id a" "author_id (assign_all vs a) = author_id a"
    "created_at (assign_all vs a) = created_at a" "updated_at (assign_all vs a) = updated_at a"
    by blast+
qed

lemma update_row_id [simp]: "art_id (update_row s q a) = art_id a"
  by (simp add: update_row_def Let_def)

text \<open>Of two writers that hold the same token, the second one matches nothing: after an update or a
  soft delete that went through with a token, no further compare-and-set on the same article with
  that token does, provided the first one changed the row and the clock of MySQL has moved on from
  the token.\<close>

theorem cas_token_spent:
  assumes "first = update_query i e t b \<or> first = soft_delete_query i e u"
    and "second = update_query i e t' b' \<or> second = soft_delete_query i e u'"
    and "\<forall>a \<in> set table. matches (upd_where first) a \<longrightarrow> assign_all (upd_values first) a \<noteq> a"
    and "stamp \<noteq> e"
  shows "update_count second (update_effect stamp first table) = 0"
proof -
  have w: "upd_where first = cas_where i e" "upd_where second = cas_where i e"
    using assms(1,2) by (auto simp: update_query_def soft_delete_query_def)
  have "\<not> matches (cas_where i e) (update_row stamp first a)" if "a \<in> set table" for a
    using that assms(3,4) w(1) by (auto simp: update_row_def matches_cas Let_def)
  then show ?thesis
    by (simp add: update_count_def update_effect_def w(2) filter_empty_conv)
qed

theorem cas_token_spent_witness:
  "update_count (update_query 4 200 ''mine'' ''x'')
     (update_effect 300 (update_query 4 200 ''theirs'' ''y'') demo_table) = 0"
  by (rule cas_token_spent [where t = "''theirs''" and b = "''y''" and t' = "''mine''" and b' = "''x''"
        and i = 4 and e = 200])
    (auto simp: demo_table_def demo_article_def update_query_def assign_all_def)

text \<open>A compare-and-set touches at most the one live row it names: every other row, and every row
  that is deleted or carries another token, is left exactly as it is; and the row count says whether
  it went through.\<close>

theorem cas_touches_one_row:
  assumes "q = update_query i e t b \<or> q = soft_delete_query i e u" and "distinct (map art_id table)"
  shows "update_count q table =
      (if \<exists>a \<in> set table. art_id a = i \<and> updated_at a = e \<and> deleted_at a = None then 1 else 0)
    \<and> filter (\<lambda>a. update_row stamp q a \<noteq> a) table
      = filter (\<lambda>a. update_row stamp q a \<noteq> a \<and> art_id a = i \<and> updated_at a = e \<and> deleted_at a = None)
          table"
proof -
  have w: "upd_where q = cas_where i e"
    using assms(1) by (auto simp: update_query_def soft_delete_query_def)
  have len: "length (filter (\<lambda>a. art_id a = i \<and> updated_at a = e \<and> deleted_at a = None) table)
      = (if \<exists>a \<in> set table. art_id a = i \<and> updated_at a = e \<and> deleted_at a = None then 1 else 0)"
    using assms(2)
  proof (induction table)
    case (Cons a table)
    then have "\<forall>x \<in> set table. art_id x \<noteq> art_id a" by (auto simp: image_iff)
    with Cons show ?case by (auto simp: filter_empty_conv)
  qed simp
  have keep: "update_row stamp q a \<noteq> a \<Longrightarrow> art_id a = i \<and> updated_at a = e \<and> deleted_at a = None" for a
    by (auto simp: update_row_def w matches_cas split: if_splits)
  have "filter (\<lambda>a. update_row stamp q a \<noteq> a) table
      = filter (\<lambda>a. update_row stamp q a \<noteq> a \<and> art_id a = i \<and> updated_at a = e \<and> deleted_at a = None)
          table"
    using keep by (intro filter_cong refl) blast
  with len show ?thesis by (auto simp: update_count_def w matches_cas [abs_def])
qed

theorem cas_touches_one_row_witness:
  "update_count (update_query 4 200 ''theirs'' ''y'') demo_table = 1"
  using cas_touches_one_row [of "update_query 4 200 ''theirs'' ''y''" 4 200 "''theirs''" "''y''"
      _ demo_table]
  by (auto simp: demo_table_def demo_article_def split: if_splits)

end
