(* ===== verification/Users.thy ===== *)
theory Users
  imports ArticleRepo
begin

text \<open>
  \<open>app/models/role.py\<close>, \<open>app/models/user.py\<close> and \<open>app/repositories/user_repo.py\<close>. The queries by key
  and by e-mail address, and the flush of a new user, are parameters of the record \<open>user_session\<close>;
  the role of a user travels with its row.
\<close>

record role =
  role_id :: int
  role_name :: string
  role_created_at :: datetime

record user =
  user_id :: int
  email :: string
  password_hash :: string
  user_created_at :: datetime
  user_updated_at :: datetime
  user_role :: role

definition is_admin :: "user \<Rightarrow> bool" where
  "is_admin u \<longleftrightarrow> role_name (user_role u) = ''admin''"

record 'w user_session =
  session_get_user :: "int \<Rightarrow> ('w, user option) awaitable"
  select_user_by_email :: "string \<Rightarrow> ('w, user list) awaitable"
  select_role_by_name :: "string \<Rightarrow> ('w, role list) awaitable"
  flush_user :: "string \<Rightarrow> string \<Rightarrow> role \<Rightarrow> ('w, user) awaitable"
    \<comment> \<open>\<open>add\<close> and \<open>flush\<close> of \<open>User(email, password_hash, role)\<close>\<close>
  users_rollback :: "('w, unit) awaitable"

record 'w user_repository =
  users_session :: "'w user_session"
  users_policies :: "string \<rightharpoonup> dependency_policy"
  users_waits :: "nat \<Rightarrow> seconds"

definition read_users ::
  "('m proc_scheme) user_repository \<Rightarrow> ('m proc_scheme, 'a) awaitable \<Rightarrow> ('m proc_scheme, 'a) command" where
  "read_users r =
     guarded_read (users_policies r) (users_waits r) ''mysql'' (Some (users_rollback (users_session r)))"

definition get_by_id ::
  "('m proc_scheme) user_repository \<Rightarrow> int \<Rightarrow> ('m proc_scheme, user option) command" where
  "get_by_id r uid = read_users r (session_get_user (users_session r) uid)"

definition get_by_email ::
  "('m proc_scheme) user_repository \<Rightarrow> string \<Rightarrow> ('m proc_scheme, user option) command" where
  "get_by_email r address =
     read_users r
       (bind_await (select_user_by_email (users_session r) address)
          (\<lambda>rows. finish (scalar_one_or_none rows)))"

definition scalar_one :: "'a list \<Rightarrow> exn + 'a" where
  "scalar_one rows =
     (case rows of
        [] \<Rightarrow> Inl (SQLAlchemyError ''No row was found when one was required'')
      | [r] \<Rightarrow> Inr r
      | _ \<Rightarrow> Inl (SQLAlchemyError ''Multiple rows were found when exactly one was required''))"

definition get_role :: "'w user_repository \<Rightarrow> string \<Rightarrow> ('w, role) awaitable" where
  "get_role r name =
     bind_await (select_role_by_name (users_session r) name) (\<lambda>rows. finish (scalar_one rows))"

definition user_create ::
  "('m proc_scheme) user_repository \<Rightarrow> string \<Rightarrow> string \<Rightarrow> string \<Rightarrow> ('m proc_scheme, user) command" where
  "user_create r address hash name =
     guarded_write (users_policies r) (users_waits r) ''mysql''
       (bind_await (get_role r name) (\<lambda>rl. flush_user (users_session r) address hash rl))"

end
