(* ===== verification/ArticleService.thy ===== *)
theory ArticleService
  imports ArticleCache Listing Users
begin

text \<open>
  \<open>app/services/article_service.py\<close>, with the response shapes of \<open>app/schemas/article.py\<close>. The
  service is the record \<open>article_service\<close>: what its constructor takes, and as parameters what the
  code calls outside the repository (the pydantic and \<open>json\<close> codecs, SHA-256, \<open>random.random\<close>, and
  what other tasks do to the state while a waiting reader sleeps). \<open>traced\<close> is a no-op.
\<close>

subsection \<open>Response shapes\<close>

record article_summary_out =
  out_id :: int
  out_author_id :: int
  out_title :: string
  out_created_at :: datetime
  out_updated_at :: datetime

record article_out = article_summary_out +
  out_body :: string

definition article_out_of :: "article \<Rightarrow> article_out" where
  "article_out_of a =
     \<lparr>out_id = art_id a, out_author_id = author_id a, out_title = title a,
      out_created_at = created_at a, out_updated_at = updated_at a, out_body = body a\<rparr>"

definition summary_out_of :: "article_row \<Rightarrow> article_summary_out" where
  "summary_out_of r =
     \<lparr>out_id = row_id r, out_author_id = row_author_id r, out_title = row_title r,
      out_created_at = row_created_at r, out_updated_at = row_updated_at r\<rparr>"

record codec =
  dump_article_json :: "article_out \<Rightarrow> string"           \<comment> \<open>\<open>model_dump_json\<close>\<close>
  validate_article_json :: "string \<Rightarrow> article_out option"  \<comment> \<open>\<open>None\<close>: a \<open>ValidationError\<close>\<close>
  dump_summary :: "article_summary_out \<Rightarrow> json"         \<comment> \<open>\<open>model_dump(mode="json")\<close>\<close>
  validate_summary :: "json \<Rightarrow> article_summary_out option"
  json_dumps :: "json \<Rightarrow> string"
  json_loads :: "string \<Rightarrow> json option"                 \<comment> \<open>\<open>None\<close>: a \<open>ValueError\<close>\<close>
  isoformat :: "datetime \<Rightarrow> string"
  fromisoformat :: "string \<Rightarrow> datetime option"          \<comment> \<open>\<open>None\<close>: a \<open>ValueError\<close>\<close>

type_synonym page = "article_summary_out list \<times> position option"

definition decode_article :: "codec \<Rightarrow> string option \<Rightarrow> article_out option" where
  "decode_article c raw =
     (case raw of None \<Rightarrow> None | Some text \<Rightarrow> validate_article_json c text)"

definition encode_page :: "codec \<Rightarrow> article_summary_out list \<Rightarrow> position option \<Rightarrow> string" where
  "encode_page c items next_after =
     json_dumps c
       (JObj
          [(''items'', JList (map (dump_summary c) items)),
           (''next'',
            case next_after of
              None \<Rightarrow> JNull
            | Some (t, i) \<Rightarrow> JList [JStr (isoformat c t), JInt i])])"

text \<open>\<open>datetime.fromisoformat\<close> of anything but text is a \<open>TypeError\<close>.\<close>

fun json_fromisoformat :: "codec \<Rightarrow> json \<Rightarrow> py_error + datetime" where
  "json_fromisoformat c (JStr s) =
     (case fromisoformat c s of None \<Rightarrow> Inl PyValueError | Some t \<Rightarrow> Inr t)"
| "json_fromisoformat c _ = Inl PyTypeError"

definition decode_items :: "codec \<Rightarrow> json \<Rightarrow> py_error + (article_summary_out list \<times> json)" where
  "decode_items c payload =
     sum_bind (json_item payload ''items'') (\<lambda>listed.
     sum_bind (json_iter listed) (\<lambda>xs.
     if \<exists>x \<in> set xs. validate_summary c x = None then Inl PyValueError  \<comment> \<open>\<open>ValidationError\<close>\<close>
     else sum_bind (json_item payload ''next'') (\<lambda>raw_next.
       Inr (map (\<lambda>x. the (validate_summary c x)) xs, raw_next))))"

definition decode_position :: "codec \<Rightarrow> json \<Rightarrow> py_error + position" where
  "decode_position c raw_next =
     sum_bind (json_nth raw_next 0) (\<lambda>stamp.
     sum_bind (json_fromisoformat c stamp) (\<lambda>t.
     sum_bind (json_nth raw_next 1) (\<lambda>number.
     sum_bind (json_int number) (\<lambda>i. Inr (t, i)))))"

text \<open>
  \<open>_decode_page\<close>. The first \<open>except\<close> clause lists every error of the block it guards; the second one
  lists \<open>ValueError\<close>, \<open>TypeError\<close> and \<open>IndexError\<close>, so what else the position raises escapes.
\<close>

definition escaped :: "py_error \<Rightarrow> exn" where
  "escaped e = (case e of PyOverflowError \<Rightarrow> OverflowError ''cannot convert float infinity to integer''
                | _ \<Rightarrow> KeyError ''0'')"

definition decode_page :: "codec \<Rightarrow> string option \<Rightarrow> exn + page option" where
  "decode_page c raw =
     (case raw of
        None \<Rightarrow> Inr None
      | Some text \<Rightarrow>
          (case json_loads c text of
             None \<Rightarrow> Inr None
           | Some payload \<Rightarrow>
               (case decode_items c payload of
                  Inl _ \<Rightarrow> Inr None
                | Inr (items, raw_next) \<Rightarrow>
                    if raw_next = JNull then Inr (Some (items, None))
                    else
                      (case decode_position c raw_next of
                         Inr p \<Rightarrow> Inr (Some (items, Some p))
                       | Inl e \<Rightarrow>
                           if e \<in> {PyValueError, PyTypeError, PyIndexError} then Inr None
                           else Inl (escaped e)))))"

subsection \<open>The service\<close>

record invalidation =
  inv_article :: "int option"
  inv_author :: int

type_synonym 'm world = "(invalidation, 'm) request_scheme"

record 'w article_service =
  articles :: "'w repository"
  svc_redis :: "'w redis_client"
  has_session :: bool
  article_ttl :: int
  list_ttl :: int
  ttl_jitter :: seconds
  lock_timeout :: seconds
  svc_codec :: codec
  sha256_hex :: "string \<Rightarrow> string"
  random_draw :: "'w \<Rightarrow> seconds"
  others_run :: "'w \<Rightarrow> 'w"

abbreviation svc_policies :: "'m world article_service \<Rightarrow> string \<rightharpoonup> dependency_policy" where
  "svc_policies s \<equiv> repo_policies (articles s)"

definition POLL_INTERVAL_SECONDS :: seconds where "POLL_INTERVAL_SECONDS = 1 / 50"

definition lock_ttl :: "'m world article_service \<Rightarrow> int" where
  "lock_ttl s = max 1 (py_round (lock_timeout s))"

definition article_ttl_jittered :: "'m world article_service \<Rightarrow> 'm world \<Rightarrow> int" where
  "article_ttl_jittered s w = jittered_ttl (random_draw s w) (article_ttl s) (ttl_jitter s)"

definition list_ttl_jittered :: "'m world article_service \<Rightarrow> 'm world \<Rightarrow> int" where
  "list_ttl_jittered s w = jittered_ttl (random_draw s w) (list_ttl s) (ttl_jitter s)"

definition sleep_cmd :: "'m world article_service \<Rightarrow> seconds \<Rightarrow> 'm world \<Rightarrow> 'm world" where
  "sleep_cmd s t w = (let w' = others_run s w in w'\<lparr>now := max (now w') (now w + t)\<rparr>)"

text \<open>
  \<open>_await_loader\<close>: each round of the loop sleeps at least the poll interval, so the fuel
  \<open>loader_polls\<close> outlasts the deadline (lemma \<open>await_loop_fuel\<close>).
\<close>

fun await_loop ::
  "'m world article_service \<Rightarrow> nat \<Rightarrow> seconds \<Rightarrow> string \<Rightarrow> ('m world, string option) command" where
  "await_loop s 0 deadline key w = (Inr None, w)"
| "await_loop s (Suc n) deadline key w =
     (if now w < deadline then
        (case peek (svc_redis s) (svc_policies s) key (sleep_cmd s POLL_INTERVAL_SECONDS w) of
           (Inl e, w') \<Rightarrow> (Inl e, w')
         | (Inr (Some text), w') \<Rightarrow> (Inr (Some text), w')
         | (Inr None, w') \<Rightarrow> await_loop s n deadline key w')
      else (Inr None, w))"

definition loader_polls :: "'m world article_service \<Rightarrow> nat" where
  "loader_polls s = Suc (nat \<lceil>lock_timeout s / POLL_INTERVAL_SECONDS\<rceil>)"

definition await_loader :: "'m world article_service \<Rightarrow> string \<Rightarrow> ('m world, string option) command" where
  "await_loader s key w = await_loop s (loader_polls s) (now w + lock_timeout s) key w"

definition invalidate_after_commit ::
  "'m world article_service \<Rightarrow> int \<Rightarrow> int option \<Rightarrow> ('m world, unit) command" where
  "invalidate_after_commit s who article_id w =
     (Inr (),
      if has_session s then after_commit \<lparr>inv_article = article_id, inv_author = who\<rparr> w else w)"

text \<open>The closure \<open>invalidate\<close>, run by the drain of the queue.\<close>

definition invalidate :: "'m world article_service \<Rightarrow> invalidation \<Rightarrow> ('m world, unit) command" where
  "invalidate s job =
     bind_cmd
       (case inv_article job of
          None \<Rightarrow> return_cmd ()
        | Some i \<Rightarrow> invalidate_article (svc_redis s) (svc_policies s) i)
       (\<lambda>_. bump_generations (svc_redis s) (svc_policies s) (Some (inv_author job)))"

definition not_found :: exn where
  "not_found = Domain (ArticleNotFoundError ''Article does not exist.'')"

definition conflict :: exn where
  "conflict = Domain (ConflictError (''The article changed since it was read; '' @
     ''re-fetch and retry with the current updated_at.''))"

definition forbidden :: exn where
  "forbidden = Domain (ForbiddenError ''Only the author or an admin may modify this article.'')"

definition load :: "'m world article_service \<Rightarrow> int \<Rightarrow> ('m world, article) command" where
  "load s article_id =
     bind_cmd (repo_get (articles s) article_id)
       (\<lambda>found. case found of None \<Rightarrow> raise_cmd not_found | Some a \<Rightarrow> return_cmd a)"

definition authorize_write :: "user \<Rightarrow> article \<Rightarrow> ('m world, unit) command" where
  "authorize_write actor a =
     (if author_id a \<noteq> user_id actor \<and> \<not> is_admin actor then raise_cmd forbidden else return_cmd ())"

definition raise_conflict_or_not_found ::
  "'m world article_service \<Rightarrow> int \<Rightarrow> ('m world, unit) command" where
  "raise_conflict_or_not_found s article_id =
     bind_cmd (repo_get (articles s) article_id)
       (\<lambda>found. raise_cmd (if found = None then not_found else conflict))"

definition load_page ::
  "'m world article_service \<Rightarrow> int \<Rightarrow> position option \<Rightarrow> int option \<Rightarrow> ('m world, page) command" where
  "load_page s limit after author =
     bind_cmd (repo_list (articles s) (limit + 1) after author)
       (\<lambda>rows.
          let (page, next_after) = split_page limit rows in
          return_cmd (map summary_out_of page, next_after))"

text \<open>\<open>try: body finally: cleanup\<close>; what the cleanup raises replaces the outcome of the body.\<close>

definition finally_do :: "('w, 'a) command \<Rightarrow> ('w, unit) command \<Rightarrow> ('w, 'a) command" where
  "finally_do act cleanup w =
     (case act w of
        (r, w1) \<Rightarrow>
          (case cleanup w1 of
             (Inl e, w2) \<Rightarrow> (Inl e, w2)
           | (Inr _, w2) \<Rightarrow> (r, w2)))"

subsection \<open>Operations\<close>

definition create ::
  "'m world article_service \<Rightarrow> user \<Rightarrow> string \<Rightarrow> string \<Rightarrow> ('m world, article_out) command" where
  "create s actor new_title new_body =
     bind_cmd (repo_create (articles s) (user_id actor) new_title new_body) (\<lambda>a.
     bind_cmd (invalidate_after_commit s (user_id actor) None) (\<lambda>_.
     return_cmd (article_out_of a)))"

definition get_article ::
  "'m world article_service \<Rightarrow> int \<Rightarrow> ('m world, article_out) command" where
  "get_article s article_id =
     (let key = article_key article_id in
      bind_cmd (cache_get_article (svc_redis s) (svc_policies s) article_id) (\<lambda>raw.
      case decode_article (svc_codec s) raw of
        Some dto \<Rightarrow> return_cmd dto
      | None \<Rightarrow>
          bind_cmd (acquire_lock (svc_redis s) (svc_policies s) key (lock_ttl s)) (\<lambda>won.
          bind_cmd (if won then return_cmd None else await_loader s key) (\<lambda>text.
          case decode_article (svc_codec s) text of
            Some waited \<Rightarrow> return_cmd waited
          | None \<Rightarrow>
              finally_do
                (bind_cmd (load s article_id) (\<lambda>a w.
                   let dto = article_out_of a in
                   bind_cmd
                     (set_article (svc_redis s) (svc_policies s) article_id
                        (dump_article_json (svc_codec s) dto) (article_ttl_jittered s w))
                     (\<lambda>_. return_cmd dto) w))
                (if won then release_lock (svc_redis s) (svc_policies s) key else return_cmd ())))))"

definition list_articles ::
  "'m world article_service \<Rightarrow> int \<Rightarrow> position option \<Rightarrow> int option \<Rightarrow> ('m world, page) command" where
  "list_articles s limit after author =
     bind_cmd (get_generations (svc_redis s) (svc_policies s) author) (\<lambda>(global_gen, author_gen).
     let key = list_key (sha256_hex s) (if author \<noteq> None then author_gen else global_gen) author limit
                 (cursor_parts after) in
     bind_cmd (get_list_page (svc_redis s) (svc_policies s) key) (\<lambda>raw.
     case decode_page (svc_codec s) raw of
       Inl e \<Rightarrow> raise_cmd e
     | Inr (Some cached) \<Rightarrow> return_cmd cached
     | Inr None \<Rightarrow>
         bind_cmd (acquire_lock (svc_redis s) (svc_policies s) key (lock_ttl s)) (\<lambda>won.
         bind_cmd (if won then return_cmd None else await_loader s key) (\<lambda>text.
         case decode_page (svc_codec s) text of
           Inl e \<Rightarrow> raise_cmd e
         | Inr (Some waited) \<Rightarrow> return_cmd waited
         | Inr None \<Rightarrow>
             finally_do
               (bind_cmd (load_page s limit after author) (\<lambda>(page, next_after) w.
                  bind_cmd
                    (set_list_page (svc_redis s) (svc_policies s) key
                       (encode_page (svc_codec s) page next_after) (list_ttl_jittered s w))
                    (\<lambda>_. return_cmd (page, next_after)) w))
               (if won then release_lock (svc_redis s) (svc_policies s) key else return_cmd ())))))"

definition update ::
  "'m world article_service \<Rightarrow> user \<Rightarrow> int \<Rightarrow> string \<Rightarrow> string \<Rightarrow> datetime
   \<Rightarrow> ('m world, article_out) command" where
  "update s actor article_id new_title new_body expected_updated_at =
     bind_cmd (load s article_id) (\<lambda>a.
     bind_cmd (authorize_write actor a) (\<lambda>_.
     let who = author_id a in
     bind_cmd (update_cas (articles s) article_id expected_updated_at new_title new_body) (\<lambda>rowcount.
     bind_cmd (if rowcount = 0 then raise_conflict_or_not_found s article_id else return_cmd ()) (\<lambda>_.
     bind_cmd (invalidate_after_commit s who (Some article_id)) (\<lambda>_.
     bind_cmd (load s article_id) (\<lambda>fresh.
     return_cmd (article_out_of fresh)))))))"

definition delete ::
  "'m world article_service \<Rightarrow> user \<Rightarrow> int \<Rightarrow> datetime \<Rightarrow> ('m world, unit) command" where
  "delete s actor article_id expected_updated_at =
     bind_cmd (load s article_id) (\<lambda>a.
     bind_cmd (authorize_write actor a) (\<lambda>_.
     let who = author_id a in
     bind_cmd (soft_delete_cas (articles s) article_id expected_updated_at) (\<lambda>rowcount.
     bind_cmd (if rowcount = 0 then raise_conflict_or_not_found s article_id else return_cmd ()) (\<lambda>_.
     invalidate_after_commit s who (Some article_id)))))"

subsection \<open>The wait of a single-flight loser\<close>

lemma live_now: "now (snd (live policies w)) = now w"
  by (auto simp: live_def bind_cmd_def resolve_breaker_def breaker_allow_def get_breaker_def Let_def
      case_prod_beta split: option.splits sum.splits prod.splits if_splits)

lemma succeed_now [simp]: "now (succeed w) = now w"
  by (simp add: succeed_def split: option.splits)

lemma degrade_now [simp]: "now (degrade op w) = now w"
  by (simp add: degrade_def Let_def split: option.splits)

lemma peek_time:
  assumes "now v \<le> now (snd (redis_get redis key v)) \<and> now (snd (redis_get redis key v)) \<le> now v + t"
    and "v = snd (live policies w)" and "0 \<le> t"
  shows "now w \<le> now (snd (peek redis policies key w))
    \<and> now (snd (peek redis policies key w)) \<le> now w + t"
proof -
  obtain r w1 where l: "live policies w = (r, w1)" by fastforce
  with live_now [of policies w] have n: "now w1 = now w" by simp
  obtain x w2 where g: "redis_get redis key w1 = (x, w2)" by fastforce
  show ?thesis
    using assms l n g
    by (auto simp: peek_def try_redis_def Let_def split: sum.splits)
qed

lemma await_loop_time:
  assumes idle: "\<And>w. now w \<le> now (others_run s w) \<and> now (others_run s w) \<le> now w + POLL_INTERVAL_SECONDS"
    and get: "\<And>w. now w \<le> now (snd (redis_get (svc_redis s) key w))
        \<and> now (snd (redis_get (svc_redis s) key w)) \<le> now w + t"
    and t: "0 \<le> t"
  shows "now (snd (await_loop s n dl key w)) \<le> max (now w) (dl + POLL_INTERVAL_SECONDS + t)"
proof (induction n arbitrary: w)
  case (Suc n)
  let ?v = "sleep_cmd s POLL_INTERVAL_SECONDS w"
  have "now ?v \<le> now w + POLL_INTERVAL_SECONDS"
    using idle [of w] by (simp add: sleep_cmd_def Let_def)
  moreover obtain r w' where p: "peek (svc_redis s) (svc_policies s) key ?v = (r, w')" by fastforce
  moreover from this have "now w' \<le> now ?v + t" using peek_time [OF get refl t] by (metis snd_conv)
  ultimately have le: "now w' \<le> now w + POLL_INTERVAL_SECONDS + t" by simp
  show ?case
  proof (cases "now w < dl")
    case True
    with p le Suc.IH [of w'] show ?thesis by (auto split: sum.splits option.splits)
  qed simp
qed simp

lemma await_loop_fuel:
  assumes idle: "\<And>w. now w \<le> now (others_run s w)"
    and get: "\<And>w. now w \<le> now (snd (redis_get (svc_redis s) key w))"
  shows "dl \<le> now w + of_nat n * POLL_INTERVAL_SECONDS \<Longrightarrow>
    await_loop s (n + k) dl key w = await_loop s n dl key w"
proof (induction n arbitrary: w)
  case 0
  then show ?case by (cases k) simp_all
next
  case (Suc n)
  let ?v = "sleep_cmd s POLL_INTERVAL_SECONDS w"
  obtain r w' where p: "peek (svc_redis s) (svc_policies s) key ?v = (r, w')" by fastforce
  let ?u = "snd (live (svc_policies s) ?v)"
  have v: "now w + POLL_INTERVAL_SECONDS \<le> now ?v" by (simp add: sleep_cmd_def Let_def)
  have "now ?v \<le> now w'"
    using peek_time [of ?u "svc_redis s" key "now (snd (redis_get (svc_redis s) key ?u)) - now ?u"
        "svc_policies s" ?v] get [of ?u] p by simp
  with v Suc.prems have "dl \<le> now w' + of_nat n * POLL_INTERVAL_SECONDS"
    by (simp add: distrib_right)
  from Suc.IH [OF this] p show ?case by (simp split: sum.split option.split)
qed

text \<open>C31. A reader that lost the single-flight race waits a bounded time: it is back within the lock
  timeout, one poll interval and one Redis command, whether or not the winner ever fills the key;
  and the loop ends by its clock, not by the fuel of the model (more fuel changes nothing).\<close>

theorem loser_wait_bounded:
  assumes "\<forall>w. now w \<le> now (others_run s w)
        \<and> now (others_run s w) \<le> now w + POLL_INTERVAL_SECONDS"
    and "\<forall>w. now w \<le> now (snd (redis_get (svc_redis s) key w))
        \<and> now (snd (redis_get (svc_redis s) key w)) \<le> now w + t"
    and "0 \<le> t" and "0 \<le> lock_timeout s"
  shows "now (snd (await_loader s key w)) \<le> now w + lock_timeout s + POLL_INTERVAL_SECONDS + t
    \<and> await_loop s (loader_polls s + k) (now w + lock_timeout s) key w = await_loader s key w"
proof (rule conjI)
  have "now (snd (await_loader s key w))
      \<le> max (now w) (now w + lock_timeout s + POLL_INTERVAL_SECONDS + t)"
    unfolding await_loader_def by (rule await_loop_time) (use assms in auto)
  then show "now (snd (await_loader s key w)) \<le> now w + lock_timeout s + POLL_INTERVAL_SECONDS + t"
    using assms(3,4) by (simp add: POLL_INTERVAL_SECONDS_def)
next
  let ?q = "lock_timeout s / POLL_INTERVAL_SECONDS"
  have pos: "0 < POLL_INTERVAL_SECONDS" by (simp add: POLL_INTERVAL_SECONDS_def)
  have "?q \<le> of_nat (nat \<lceil>?q\<rceil>)" by (rule of_nat_ceiling)
  then have "lock_timeout s \<le> of_nat (nat \<lceil>?q\<rceil>) * POLL_INTERVAL_SECONDS"
    using pos by (simp add: pos_divide_le_eq)
  also have "\<dots> \<le> of_nat (loader_polls s) * POLL_INTERVAL_SECONDS"
    using pos by (simp add: loader_polls_def)
  finally show "await_loop s (loader_polls s + k) (now w + lock_timeout s) key w = await_loader s key w"
    unfolding await_loader_def by (intro await_loop_fuel) (use assms(1,2) in auto)
qed

end
