(* ===== verification/Environment.thy ===== *)
theory Environment
  imports ArticleService
begin

text \<open>
  The environment of the article service: what MySQL and Redis document, as predicates on the
  parameters of the model (\<open>serves\<close>, \<open>stores\<close>), and a reference environment in memory that meets
  them, on which the witnesses run.
\<close>

subsection \<open>A database that answers\<close>

text \<open>
  What a repository call leaves alone: the queue of the session, the cache instance, the breakers of
  the other dependencies, and a part \<open>rest\<close> of the external state (what Redis holds). A statement or a command itself touches no
  breaker.
\<close>

definition kept :: "('m \<Rightarrow> 'd) \<Rightarrow> 'm world \<Rightarrow> 'm world \<Rightarrow> bool" where
  "kept rest w w' \<longleftrightarrow>
     session_info w' = session_info w \<and> cache w' = cache w
     \<and> (\<forall>d. d \<noteq> ''mysql'' \<longrightarrow> breakers w' d = breakers w d)
     \<and> rest (request.more w') = rest (request.more w)"

definition only_data :: "('m \<Rightarrow> 'd) \<Rightarrow> 'm world \<Rightarrow> 'm world \<Rightarrow> bool" where
  "only_data rest w w' \<longleftrightarrow> breakers w' = breakers w \<and> kept rest w w'"

lemma kept_refl [simp]: "kept rest w w"
  by (simp add: kept_def)

lemma kept_trans: "kept rest u v \<Longrightarrow> kept rest v w \<Longrightarrow> kept rest u w"
  by (simp add: kept_def)

text \<open>
  \<open>db\<close> reads the articles table, as the transaction of the request sees it, out of the external
  state, and \<open>clock\<close> the time of the server.
\<close>

definition serves ::
  "'m world sql_session \<Rightarrow> ('m \<Rightarrow> article list) \<Rightarrow> ('m \<Rightarrow> datetime) \<Rightarrow> ('m \<Rightarrow> 'd) \<Rightarrow> bool" where
  "serves sess db clock rest \<longleftrightarrow>
     (\<forall>q dl w. \<exists>rows w'. execute_select sess q dl w = (Done (Inr rows), w')
        \<and> select_answer q (db (request.more w)) rows
        \<and> only_data rest w w' \<and> db (request.more w') = db (request.more w))
     \<and> (\<forall>q dl w. \<exists>rows w'. execute_rows sess q dl w = (Done (Inr (map summary_row rows)), w')
        \<and> select_answer q (db (request.more w)) rows
        \<and> only_data rest w w' \<and> db (request.more w') = db (request.more w))
     \<and> (\<forall>q dl w. \<exists>w'. execute_update sess q dl w =
            (Done (Inr (update_count q (db (request.more w)))), w')
        \<and> only_data rest w w'
        \<and> db (request.more w') = update_effect (clock (request.more w)) q (db (request.more w)))
     \<and> (\<forall>who t b dl w. \<exists>a w'. flush_article sess who t b dl w = (Done (Inr (art_id a)), w')
        \<and> only_data rest w w' \<and> db (request.more w') = db (request.more w) @ [a]
        \<and> art_id a \<notin> art_id ` set (db (request.more w))
        \<and> author_id a = who \<and> title a = t \<and> body a = b \<and> deleted_at a = None)
     \<and> (\<forall>a dl w. a \<in> set (db (request.more w)) \<and> distinct (map art_id (db (request.more w))) \<longrightarrow>
          (\<exists>w'. refresh_article sess (art_id a) dl w = (Done (Inr a), w')
             \<and> only_data rest w w' \<and> db (request.more w') = db (request.more w)))"

lemma only_data_refl [simp]: "only_data rest w w"
  by (simp add: only_data_def)

lemma servesD:
  assumes "serves sess db clock rest"
  shows "\<exists>rows w'. execute_select sess q dl w = (Done (Inr rows), w')
        \<and> select_answer q (db (request.more w)) rows
        \<and> only_data rest w w' \<and> db (request.more w') = db (request.more w)"
    and "\<exists>rows w'. execute_rows sess q dl w = (Done (Inr (map summary_row rows)), w')
        \<and> select_answer q (db (request.more w)) rows
        \<and> only_data rest w w' \<and> db (request.more w') = db (request.more w)"
    and "\<exists>w'. execute_update sess u dl w = (Done (Inr (update_count u (db (request.more w)))), w')
        \<and> only_data rest w w'
        \<and> db (request.more w') = update_effect (clock (request.more w)) u (db (request.more w))"
    and "\<exists>a w'. flush_article sess who t b dl w = (Done (Inr (art_id a)), w')
        \<and> only_data rest w w' \<and> db (request.more w') = db (request.more w) @ [a]
        \<and> art_id a \<notin> art_id ` set (db (request.more w))
        \<and> author_id a = who \<and> title a = t \<and> body a = b \<and> deleted_at a = None"
    and "x \<in> set (db (request.more w)) \<Longrightarrow> distinct (map art_id (db (request.more w))) \<Longrightarrow>
      \<exists>w'. refresh_article sess (art_id x) dl w = (Done (Inr x), w')
             \<and> only_data rest w w' \<and> db (request.more w') = db (request.more w)"
  using assms unfolding serves_def by blast+

subsection \<open>A Redis that answers\<close>

text \<open>\<open>kv\<close> reads the keys Redis holds out of the external state; expiry is taken not to strike.\<close>

definition stores :: "'m world redis_client \<Rightarrow> ('m \<Rightarrow> string \<Rightarrow> string option) \<Rightarrow> ('m \<Rightarrow> 'd) \<Rightarrow> bool" where
  "stores redis kv rest \<longleftrightarrow>
     (\<forall>k w. \<exists>w'. redis_get redis k w = (Inr (kv (request.more w) k), w')
        \<and> only_data rest w w' \<and> kv (request.more w') = kv (request.more w))
     \<and> (\<forall>ks w. \<exists>w'. redis_mget redis ks w = (Inr (map (kv (request.more w)) ks), w')
        \<and> only_data rest w w' \<and> kv (request.more w') = kv (request.more w))
     \<and> (\<forall>k v ex nx w. \<exists>w'. redis_set redis k v ex nx w
            = (Inr (\<not> nx \<or> kv (request.more w) k = None), w')
        \<and> only_data rest w w'
        \<and> kv (request.more w') = (if nx \<and> kv (request.more w) k \<noteq> None then kv (request.more w)
             else (kv (request.more w))(k \<mapsto> v)))
     \<and> (\<forall>k w. \<exists>n w'. redis_delete redis k w = (Inr n, w')
        \<and> only_data rest w w' \<and> kv (request.more w') = (kv (request.more w))(k := None))
     \<and> (\<forall>k w. \<exists>w'. redis_incr redis k w = (Inr (as_int (kv (request.more w) k) + 1), w')
        \<and> only_data rest w w'
        \<and> kv (request.more w')
          = (kv (request.more w))(k \<mapsto> str_int (as_int (kv (request.more w) k) + 1)))"

lemma storesD:
  assumes "stores redis kv rest"
  shows "\<exists>w'. redis_get redis k w = (Inr (kv (request.more w) k), w')
        \<and> only_data rest w w' \<and> kv (request.more w') = kv (request.more w)"
    and "\<exists>w'. redis_mget redis ks w = (Inr (map (kv (request.more w)) ks), w')
        \<and> only_data rest w w' \<and> kv (request.more w') = kv (request.more w)"
    and "\<exists>w'. redis_set redis k v ex nx w = (Inr (\<not> nx \<or> kv (request.more w) k = None), w')
        \<and> only_data rest w w'
        \<and> kv (request.more w') = (if nx \<and> kv (request.more w) k \<noteq> None then kv (request.more w)
             else (kv (request.more w))(k \<mapsto> v))"
    and "\<exists>n w'. redis_delete redis k w = (Inr n, w')
        \<and> only_data rest w w' \<and> kv (request.more w') = (kv (request.more w))(k := None)"
    and "\<exists>w'. redis_incr redis k w = (Inr (as_int (kv (request.more w) k) + 1), w')
        \<and> only_data rest w w'
        \<and> kv (request.more w')
          = (kv (request.more w))(k \<mapsto> str_int (as_int (kv (request.more w) k) + 1))"
  using assms unfolding stores_def by blast+

subsection \<open>A reference environment\<close>

record store =
  table_view :: "article list"          \<comment> \<open>the table, as the running transaction sees it\<close>
  table_saved :: "article list"         \<comment> \<open>the table as last committed\<close>
  kv_entries :: "string \<rightharpoonup> string"    \<comment> \<open>the keys of Redis\<close>
  server_time :: datetime

definition put_rows :: "article list \<Rightarrow> store world \<Rightarrow> store world" where
  "put_rows r w = w\<lparr>request.more := (request.more w)\<lparr>table_view := r\<rparr>\<rparr>"

definition put_entries :: "(string \<rightharpoonup> string) \<Rightarrow> store world \<Rightarrow> store world" where
  "put_entries e w = w\<lparr>request.more := (request.more w)\<lparr>kv_entries := e\<rparr>\<rparr>"

lemma put_only_data [simp]:
  "only_data (\<lambda>st. (kv_entries st, table_saved st)) w (put_rows r w)"
  "only_data (\<lambda>st. (table_view st, table_saved st)) w (put_entries e w)"
  by (simp_all add: only_data_def kept_def put_rows_def put_entries_def)

lemma put_more [simp]:
  "request.more (put_rows r w) = (request.more w)\<lparr>table_view := r\<rparr>"
  "request.more (put_entries e w) = (request.more w)\<lparr>kv_entries := e\<rparr>"
  by (simp_all add: put_rows_def put_entries_def)

definition fresh_id :: "article list \<Rightarrow> int" where
  "fresh_id table = 1 + foldr max (map art_id table) 0"

lemma fresh_id_fresh: "fresh_id table \<notin> art_id ` set table"
proof -
  have "\<forall>a \<in> set table. art_id a < fresh_id table"
    by (induction table) (auto simp: fresh_id_def)
  then show ?thesis by force
qed

definition new_row :: "store \<Rightarrow> int \<Rightarrow> string \<Rightarrow> string \<Rightarrow> article" where
  "new_row st who t b =
     \<lparr>art_id = fresh_id (table_view st), author_id = who, title = t, body = b,
      created_at = server_time st, updated_at = server_time st, deleted_at = None\<rparr>"

definition memory_sql :: "store world sql_session" where
  "memory_sql =
     \<lparr>execute_select = (\<lambda>q dl w. (Done (Inr (run_select q (table_view (request.more w)))), w)),
      execute_rows = (\<lambda>q dl w.
        (Done (Inr (map summary_row (run_select q (table_view (request.more w))))), w)),
      execute_update = (\<lambda>q dl w.
        (Done (Inr (update_count q (table_view (request.more w)))),
         put_rows (update_effect (server_time (request.more w)) q (table_view (request.more w))) w)),
      flush_article = (\<lambda>who t b dl w.
        (Done (Inr (fresh_id (table_view (request.more w)))),
         put_rows (table_view (request.more w) @ [new_row (request.more w) who t b]) w)),
      refresh_article = (\<lambda>i dl w.
        (case find (\<lambda>a. art_id a = i) (table_view (request.more w)) of
           None \<Rightarrow> (Done (Inl (SQLAlchemyError ''Could not refresh instance'')), w)
         | Some a \<Rightarrow> (Done (Inr a), w))),
      session_rollback = (\<lambda>dl w. (Done (Inr ()), put_rows (table_saved (request.more w)) w)),
      utcnow = (\<lambda>w. server_time (request.more w))\<rparr>"

definition memory_kv :: "store world redis_client" where
  "memory_kv =
     \<lparr>redis_get = (\<lambda>k w. (Inr (kv_entries (request.more w) k), w)),
      redis_mget = (\<lambda>ks w. (Inr (map (kv_entries (request.more w)) ks), w)),
      redis_set = (\<lambda>k v ex nx w.
        if nx \<and> kv_entries (request.more w) k \<noteq> None then (Inr False, w)
        else (Inr True, put_entries ((kv_entries (request.more w))(k \<mapsto> v)) w)),
      redis_delete = (\<lambda>k w. (Inr (if kv_entries (request.more w) k = None then 0 else 1),
        put_entries ((kv_entries (request.more w))(k := None)) w)),
      redis_incr = (\<lambda>k w.
        (Inr (as_int (kv_entries (request.more w) k) + 1),
         put_entries ((kv_entries (request.more w))
           (k \<mapsto> str_int (as_int (kv_entries (request.more w) k) + 1))) w))\<rparr>"

lemma memory_stores: "stores memory_kv kv_entries (\<lambda>st. (table_view st, table_saved st))"
  by (auto simp: stores_def memory_kv_def)


lemma find_by_id:
  "a \<in> set table \<Longrightarrow> distinct (map art_id table) \<Longrightarrow> find (\<lambda>x. art_id x = art_id a) table = Some a"
proof (induction table)
  case (Cons b table)
  then show ?case by (cases "art_id b = art_id a") (auto simp: image_iff)
qed simp

lemma memory_serves: "serves memory_sql table_view server_time (\<lambda>st. (kv_entries st, table_saved st))"
  unfolding serves_def
proof (intro conjI allI impI)
  fix who t b dl and w :: "store world"
  show "\<exists>a w'. flush_article memory_sql who t b dl w = (Done (Inr (art_id a)), w')
      \<and> only_data (\<lambda>st. (kv_entries st, table_saved st)) w w' \<and> table_view (request.more w') = table_view (request.more w) @ [a]
      \<and> art_id a \<notin> art_id ` set (table_view (request.more w))
      \<and> author_id a = who \<and> title a = t \<and> body a = b \<and> deleted_at a = None"
    using fresh_id_fresh
    by (intro exI [of _ "new_row (request.more w) who t b"]) (simp add: memory_sql_def new_row_def)
qed (auto simp: memory_sql_def run_select_answers find_by_id)

text \<open>
  A codec that keeps the documented round trips: every JSON value has a number, and its text is the
  numeral.
\<close>

definition summary_tuple :: "article_summary_out \<Rightarrow> int \<times> int \<times> string \<times> int \<times> int" where
  "summary_tuple x =
     (out_id x, out_author_id x, out_title x, out_created_at x, out_updated_at x)"

definition tuple_summary :: "int \<times> int \<times> string \<times> int \<times> int \<Rightarrow> article_summary_out" where
  "tuple_summary p =
     (let (i, who, t, c, u) = p in
      \<lparr>out_id = i, out_author_id = who, out_title = t, out_created_at = c, out_updated_at = u\<rparr>)"

definition article_tuple :: "article_out \<Rightarrow> int \<times> int \<times> string \<times> int \<times> int \<times> string" where
  "article_tuple x =
     (out_id x, out_author_id x, out_title x, out_created_at x, out_updated_at x, out_body x)"

definition tuple_article :: "int \<times> int \<times> string \<times> int \<times> int \<times> string \<Rightarrow> article_out" where
  "tuple_article p =
     (let (i, who, t, c, u, b) = p in
      \<lparr>out_id = i, out_author_id = who, out_title = t, out_created_at = c, out_updated_at = u,
       out_body = b\<rparr>)"

lemma tuple_inverse [simp]:
  "tuple_summary (summary_tuple x) = x" "tuple_article (article_tuple y) = y"
  by (simp_all add: tuple_summary_def summary_tuple_def tuple_article_def article_tuple_def)

definition demo_codec :: codec where
  "demo_codec =
     \<lparr>dump_article_json = number_text \<circ> article_tuple,
      validate_article_json = Some \<circ> tuple_article \<circ> text_number,
      dump_summary = (\<lambda>x. JStr (number_text (summary_tuple x))),
      validate_summary =
        (\<lambda>j. case j of JStr n \<Rightarrow> Some (tuple_summary (text_number n)) | _ \<Rightarrow> None),
      json_dumps = number_text, json_loads = Some \<circ> text_number,
      isoformat = number_text, fromisoformat = Some \<circ> text_number\<rparr>"

definition demo_service :: "store world article_service" where
  "demo_service =
     \<lparr>articles =
        \<lparr>repo_session = memory_sql,
         repo_policies = [''mysql'' \<mapsto> database_policy default_settings,
                          ''redis'' \<mapsto> cache_policy default_settings],
         repo_waits = (\<lambda>k. 0)\<rparr>,
      svc_redis = memory_kv, has_session = True, article_ttl = 300, list_ttl = 60,
      ttl_jitter = 1 / 5, lock_timeout = 2, svc_codec = demo_codec, sha256_hex = (\<lambda>s. s),
      random_draw = (\<lambda>w. 1 / 2), others_run = (\<lambda>w. w)\<rparr>"

definition demo_world :: "store world" where
  "demo_world =
     \<lparr>now = 0,
      breakers = [''mysql'' \<mapsto> new_breaker ''mysql'' 5 10 1 [],
                  ''redis'' \<mapsto> new_breaker ''redis'' 5 10 1 []],
      metrics = [], session_info = None, cache = new_article_cache True,
      \<dots> = \<lparr>table_view = demo_table, table_saved = demo_table, kv_entries = Map.empty,
              server_time = 500\<rparr>\<rparr>"

definition demo_user :: "int \<Rightarrow> string \<Rightarrow> user" where
  "demo_user i r =
     \<lparr>user_id = i, email = ''a@b.example'', password_hash = ''h'', user_created_at = 0,
      user_updated_at = 0, user_role = \<lparr>role_id = 1, role_name = r, role_created_at = 0\<rparr>\<rparr>"

end
