(* ===== verification/ArticleProps.thy ===== *)
theory ArticleProps
  imports Environment
begin

text \<open>
  What the article service guarantees. The theorems about writes are stated against a database
  session that does what MySQL documents (predicate \<open>serves\<close>); those about the cache against a Redis
  that does what Redis documents (predicate \<open>stores\<close>) or fails in any way it likes.
\<close>

subsection \<open>One call against a database that answers\<close>

text \<open>The breaker of MySQL is registered and closed.\<close>

definition mysql_up :: "'m world article_service \<Rightarrow> 'm world \<Rightarrow> bool" where
  "mysql_up s w \<longleftrightarrow>
     (\<exists>p b. svc_policies s ''mysql'' = Some p \<and> breakers w ''mysql'' = Some b \<and> cb_state b = CLOSED)"

lemma breaker_succeeds_data [simp]:
  "session_info (breaker_succeeds d w) = session_info w"
  by (simp add: breaker_succeeds_def update_breaker_def)

lemma breaker_succeeds_kept: "kept rest w v \<Longrightarrow> kept rest w (breaker_succeeds ''mysql'' v)"
  by (simp add: kept_def verdict_breakers)

text \<open>One repository call against a database that answers.\<close>

definition served ::
  "('m \<Rightarrow> 'd) \<Rightarrow> ('m world, 'a) awaitable \<Rightarrow> ('a \<Rightarrow> 'm \<Rightarrow> bool) \<Rightarrow> 'm world \<Rightarrow> bool" where
  "served rest op P w \<longleftrightarrow>
     (\<forall>dl. \<exists>r w'. op dl w = (Done (Inr r), w') \<and> only_data rest w w' \<and> P r (request.more w'))"

lemma guarded_ok:
  assumes "mysql_up s w" and "served rest op P w"
  shows "\<exists>r v. guarded_call (svc_policies s) waits ''mysql'' hook retry op w = (Inr r, v)
    \<and> mysql_up s v \<and> P r (request.more v) \<and> kept rest w v"
proof -
  from assms(1) obtain p b where pb: "svc_policies s ''mysql'' = Some p"
    "breakers w ''mysql'' = Some b" "cb_state b = CLOSED" by (auto simp: mysql_up_def)
  from assms(2) obtain r w' where w': "op (now w + call_timeout_seconds p) w = (Done (Inr r), w')"
    "only_data rest w w'" "P r (request.more w')" unfolding served_def by blast
  have g: "guarded_call (svc_policies s) waits ''mysql'' hook retry op w
      = (Inr r, breaker_succeeds ''mysql'' w')"
    using guarded_call_first_try [of "svc_policies s" "''mysql''" p w b op r w'] pb w'(1) by blast
  have "breakers w' ''mysql'' = Some b" using w'(2) pb(2) by (simp add: only_data_def)
  with pb have "mysql_up s (breaker_succeeds ''mysql'' w')"
    by (simp add: mysql_up_def verdict_breakers record_success_def)
  with g w' breaker_succeeds_kept show ?thesis by (auto simp: only_data_def)
qed

lemma read_mysql_ok:
  assumes "mysql_up s w" and "served rest op P w"
  shows "\<exists>r v. read_mysql (articles s) op w = (Inr r, v)
    \<and> mysql_up s v \<and> P r (request.more v) \<and> kept rest w v"
  unfolding read_mysql_def guarded_read_def by (rule guarded_ok [OF assms])

lemma write_mysql_ok:
  assumes "mysql_up s w" and "served rest op P w"
  shows "\<exists>r v. write_mysql (articles s) op w = (Inr r, v)
    \<and> mysql_up s v \<and> P r (request.more v) \<and> kept rest w v"
  unfolding write_mysql_def guarded_write_def by (rule guarded_ok [OF assms])

text \<open>The live row of an id, if there is one.\<close>

definition live_row :: "article list \<Rightarrow> int \<Rightarrow> article option" where
  "live_row table i = find (\<lambda>a. art_id a = i \<and> deleted_at a = None) table"

lemma get_query_answer:
  assumes "distinct (map art_id table)" and "select_answer (get_query i) table rows"
  shows "rows = (case live_row table i of None \<Rightarrow> [] | Some a \<Rightarrow> [a])"
proof -
  have m: "matches (sel_where (get_query i)) = (\<lambda>a. art_id a = i \<and> deleted_at a = None)"
    by (auto simp: matches_def get_query_def fun_eq_iff)
  have "filter (\<lambda>a. art_id a = i \<and> deleted_at a = None) table
      = (case live_row table i of None \<Rightarrow> [] | Some a \<Rightarrow> [a])"
    using assms(1)
  proof (induction table)
    case (Cons a table)
    then have "\<forall>x \<in> set table. art_id x \<noteq> art_id a" by (auto simp: image_iff)
    with Cons show ?case by (auto simp: live_row_def filter_empty_conv)
  qed (simp add: live_row_def)
  moreover from assms(2) have "mset rows = mset (filter (matches (sel_where (get_query i))) table)"
    by (auto simp: select_answer_def get_query_def)
  ultimately show ?thesis by (simp add: m split: option.splits)
qed

lemma live_row_Some:
  assumes "live_row table i = Some a"
  shows "a \<in> set table" and "art_id a = i" and "deleted_at a = None"
proof -
  have "find P xs = Some x \<Longrightarrow> x \<in> set xs \<and> P x" for P :: "article \<Rightarrow> bool" and xs x
    by (induction xs) (auto split: if_splits)
  with assms show "a \<in> set table" "art_id a = i" "deleted_at a = None"
    unfolding live_row_def by blast+
qed

lemma repo_get_ok:
  assumes "serves (repo_session (articles s)) db clock rest" and "mysql_up s w"
    and "distinct (map art_id (db (request.more w)))"
  shows "\<exists>v. repo_get (articles s) i w = (Inr (live_row (db (request.more w)) i), v)
    \<and> mysql_up s v \<and> db (request.more v) = db (request.more w)
    \<and> kept rest w v"
proof -
  let ?P = "\<lambda>r m. r = live_row (db (request.more w)) i \<and> db m = db (request.more w)"
  have "\<exists>r w'. bind_await (execute_select (repo_session (articles s)) (get_query i))
      (\<lambda>rows. finish (scalar_one_or_none rows)) dl w = (Done (Inr r), w')
      \<and> only_data rest w w' \<and> ?P r (request.more w')" for dl
  proof -
    obtain rows w' where e: "execute_select (repo_session (articles s)) (get_query i) dl w
        = (Done (Inr rows), w')" "select_answer (get_query i) (db (request.more w)) rows"
      "only_data rest w w'" "db (request.more w') = db (request.more w)"
      using servesD(1) [OF assms(1)] by blast
    have "scalar_one_or_none rows = Inr (live_row (db (request.more w)) i)"
      using get_query_answer [OF assms(3) e(2)] by (simp add: scalar_one_or_none_def split: option.split)
    with e show ?thesis by (simp add: bind_await_def finish_def)
  qed
  then have "served rest (bind_await (execute_select (repo_session (articles s)) (get_query i))
      (\<lambda>rows. finish (scalar_one_or_none rows))) ?P w" unfolding served_def by blast
  from read_mysql_ok [OF assms(2) this] show ?thesis
    unfolding repo_get_def by blast
qed

lemma load_ok:
  assumes "serves (repo_session (articles s)) db clock rest" and "mysql_up s w"
    and "distinct (map art_id (db (request.more w)))"
  shows "\<exists>v. load s i w =
      (case live_row (db (request.more w)) i of None \<Rightarrow> Inl not_found | Some a \<Rightarrow> Inr a, v)
    \<and> mysql_up s v \<and> db (request.more v) = db (request.more w)
    \<and> kept rest w v"
  using repo_get_ok [OF assms, of i] by (auto simp: load_def bind_cmd_def split: option.splits)

lemma update_ok:
  assumes "serves (repo_session (articles s)) db clock rest" and "mysql_up s w"
  shows "\<exists>v. update_cas (articles s) i e t b w
      = (Inr (update_count (update_query i e t b) (db (request.more w))), v)
    \<and> mysql_up s v
    \<and> db (request.more v)
      = update_effect (clock (request.more w)) (update_query i e t b) (db (request.more w))
    \<and> kept rest w v"
proof -
  let ?q = "update_query i e t b"
  let ?P = "\<lambda>r m. r = update_count ?q (db (request.more w))
    \<and> db m = update_effect (clock (request.more w)) ?q (db (request.more w))"
  have "served rest (execute_update (repo_session (articles s)) ?q) ?P w"
    unfolding served_def using servesD(3) [OF assms(1), of ?q _ w] by blast
  from write_mysql_ok [OF assms(2) this] show ?thesis
    unfolding update_cas_def by blast
qed


lemma soft_delete_ok:
  assumes "serves (repo_session (articles s)) db clock rest" and "mysql_up s w"
  shows "\<exists>u v. soft_delete_cas (articles s) i e w
      = (Inr (update_count (soft_delete_query i e u) (db (request.more w))), v)
    \<and> mysql_up s v
    \<and> db (request.more v)
      = update_effect (clock (request.more w)) (soft_delete_query i e u) (db (request.more w))
    \<and> kept rest w v"
proof -
  let ?q = "soft_delete_query i e (utcnow (repo_session (articles s)) w)"
  let ?P = "\<lambda>r m. r = update_count ?q (db (request.more w))
    \<and> db m = update_effect (clock (request.more w)) ?q (db (request.more w))"
  have "served rest (\<lambda>dl w. execute_update (repo_session (articles s))
      (soft_delete_query i e (utcnow (repo_session (articles s)) w)) dl w) ?P w"
    unfolding served_def using servesD(3) [OF assms(1), of ?q _ w] by blast
  from write_mysql_ok [OF assms(2) this] show ?thesis
    unfolding soft_delete_cas_def by blast
qed

lemma map_id_update_effect [simp]: "map art_id (update_effect stamp q table) = map art_id table"
  by (simp add: update_effect_def)

lemma live_row_update:
  assumes "\<And>a. deleted_at (update_row stamp q a) = deleted_at a"
  shows "live_row (update_effect stamp q table) i = map_option (update_row stamp q) (live_row table i)"
  by (induction table) (simp_all add: live_row_def update_effect_def assms)

lemma update_query_keeps_live: "deleted_at (update_row stamp (update_query i e t b) a) = deleted_at a"
  by (simp add: update_row_def update_query_def assign_all_def Let_def)

lemma update_count_live:
  assumes "distinct (map art_id table)" and "upd_where q = cas_where i e"
  shows "update_count q table =
    (case live_row table i of None \<Rightarrow> 0 | Some a \<Rightarrow> if updated_at a = e then 1 else 0)"
  using assms(1)
proof (induction table)
  case (Cons a table)
  have none: "filter (\<lambda>x. art_id x = i \<and> updated_at x = e \<and> deleted_at x = None) table = []"
    if "art_id a = i" using Cons.prems that by (auto simp: filter_empty_conv image_iff)
  from Cons show ?case
    by (auto simp: update_count_def assms(2) matches_cas [abs_def] live_row_def none
        split: option.splits)
qed (simp add: update_count_def live_row_def)

lemma update_effect_none:
  assumes "update_count q table = 0"
  shows "update_effect stamp q table = table"
  using assms unfolding update_effect_def
  by (intro map_idI) (auto simp: update_count_def update_row_def filter_empty_conv)

definition may_write :: "user \<Rightarrow> article \<Rightarrow> bool" where
  "may_write actor a \<longleftrightarrow> author_id a = user_id actor \<or> is_admin actor"

text \<open>What a write must answer: who may write is decided before the token is looked at.\<close>

definition write_verdict :: "article list \<Rightarrow> user \<Rightarrow> int \<Rightarrow> datetime \<Rightarrow> exn + article" where
  "write_verdict table actor i e =
     (case live_row table i of
        None \<Rightarrow> Inl not_found
      | Some a \<Rightarrow>
          if \<not> may_write actor a then Inl forbidden
          else if updated_at a \<noteq> e then Inl conflict else Inr a)"

definition queued :: "'m world article_service \<Rightarrow> int \<Rightarrow> int option \<Rightarrow> invalidation list" where
  "queued s who i = (if has_session s then [\<lparr>inv_article = i, inv_author = who\<rparr>] else [])"

lemma pending_kept: "kept rest w v \<Longrightarrow> pending_after_commit v = pending_after_commit w"
  by (simp add: pending_after_commit_def kept_def)

text \<open>The state after a write, apart from its queue.\<close>

definition settled :: "'m world article_service \<Rightarrow> ('m \<Rightarrow> 'd) \<Rightarrow> 'm world \<Rightarrow> 'm world \<Rightarrow> bool" where
  "settled s rest w v \<longleftrightarrow>
     mysql_up s v \<and> cache v = cache w \<and> (\<forall>d. d \<noteq> ''mysql'' \<longrightarrow> breakers v d = breakers w d)
     \<and> rest (request.more v) = rest (request.more w)"

lemma settled_after_write:
  assumes "kept rest w v" and "kept rest (snd (invalidate_after_commit s who i v)) v2" and "mysql_up s v2"
  shows "settled s rest w v2"
  using assms by (auto simp: settled_def kept_def invalidate_after_commit_def after_commit_def
      split: if_splits)

lemma invalidate_after_commit_run:
  "invalidate_after_commit s who i w = (Inr (), snd (invalidate_after_commit s who i w))"
  "pending_after_commit (snd (invalidate_after_commit s who i w))
    = pending_after_commit w @ queued s who i"
  "request.more (snd (invalidate_after_commit s who i w)) = request.more w"
  "mysql_up s (snd (invalidate_after_commit s who i w)) = mysql_up s w"
  "cache (snd (invalidate_after_commit s who i w)) = cache w"
  by (simp_all add: invalidate_after_commit_def queued_def mysql_up_def after_commit_def
      pending_after_commit_def split: option.split)


text \<open>
  The part \<open>update\<close> and \<open>delete\<close> have in common: load, authorize, compare and set, and the question
  why nothing matched. \<open>k\<close> is what follows a successful compare-and-set.
\<close>

definition cas_runs ::
  "'m world article_service \<Rightarrow> ('m \<Rightarrow> article list) \<Rightarrow> ('m \<Rightarrow> 'd) \<Rightarrow> int \<Rightarrow> datetime
   \<Rightarrow> (update_stmt \<Rightarrow> bool) \<Rightarrow> article list \<Rightarrow> ('m world, int) command \<Rightarrow> bool" where
  "cas_runs s db rest i e Q table cas \<longleftrightarrow>
     (\<forall>u. mysql_up s u \<and> db (request.more u) = table \<longrightarrow>
       (\<exists>q stamp v. upd_where q = cas_where i e \<and> Q q \<and> cas u = (Inr (update_count q table), v)
          \<and> mysql_up s v \<and> db (request.more v) = update_effect stamp q table
          \<and> kept rest u v))"

lemma write_path:
  fixes k :: "int \<Rightarrow> ('m world, 'a) command"
    and actor :: user and cas :: "('m world, int) command" and s :: "'m world article_service"
    and i :: int
  assumes "serves (repo_session (articles s)) db clock rest" and "mysql_up s w"
    and "distinct (map art_id (db (request.more w)))"
    and cas: "cas_runs s db rest i e Q (db (request.more w)) cas"
  defines "prog \<equiv> bind_cmd (load s i) (\<lambda>a. bind_cmd (authorize_write actor a) (\<lambda>_.
      bind_cmd cas (\<lambda>n.
      bind_cmd (if n = 0 then raise_conflict_or_not_found s i else return_cmd ()) (\<lambda>_.
      k (author_id a)))))"
  shows "case write_verdict (db (request.more w)) actor i e of
      Inl err \<Rightarrow> \<exists>v. prog w = (Inl err, v) \<and> db (request.more v) = db (request.more w)
          \<and> kept rest w v
    | Inr a \<Rightarrow> live_row (db (request.more w)) i = Some a \<and> (\<exists>q stamp v. Q q \<and> upd_where q = cas_where i e
          \<and> prog w = k (author_id a) v \<and> mysql_up s v
          \<and> db (request.more v) = update_effect stamp q (db (request.more w))
          \<and> kept rest w v)"
proof -
  let ?T = "db (request.more w)"
  obtain w1 where l: "load s i w =
      (case live_row ?T i of None \<Rightarrow> Inl not_found | Some a \<Rightarrow> Inr a, w1)" "mysql_up s w1"
    "db (request.more w1) = ?T" "kept rest w w1"
    using load_ok [OF assms(1-3)] by blast
  show ?thesis
  proof (cases "live_row ?T i")
    case None
    with l show ?thesis by (auto simp: write_verdict_def prog_def)
  next
    case (Some a)
    show ?thesis
    proof (cases "may_write actor a")
      case False
      with Some l show ?thesis
        by (auto simp: write_verdict_def prog_def may_write_def authorize_write_def)
    next
      case True
      then have auth: "(authorize_write actor a :: ('m world, unit) command) = return_cmd ()"
        by (auto simp: authorize_write_def may_write_def)
      from cas [unfolded cas_runs_def, rule_format, OF conjI, OF l(2,3)] obtain q stamp w2 where c: "upd_where q = cas_where i e" "Q q"
        "cas w1 = (Inr (update_count q ?T), w2)" "mysql_up s w2"
        "db (request.more w2) = update_effect stamp q ?T" "kept rest w1 w2" by blast
      have run: "prog w = bind_cmd (if update_count q ?T = 0 then raise_conflict_or_not_found s i
          else return_cmd ()) (\<lambda>_. k (author_id a)) w2"
        using l(1) Some auth c(3) by (simp add: prog_def)
      have n: "update_count q ?T = (if updated_at a = e then 1 else 0)"
        using update_count_live [OF assms(3) c(1)] Some by simp
      show ?thesis
      proof (cases "updated_at a = e")
        case match: True
        have "prog w = k (author_id a) w2" using run n match by simp
        moreover have "kept rest w w2" using l(4) c(6) by (rule kept_trans)
        ultimately show ?thesis using Some True match l c by (auto simp: write_verdict_def)
      next
        case False
        then have z: "update_count q ?T = 0" using n by simp
        then have T2: "db (request.more w2) = ?T" using c(5) update_effect_none by simp
        have "distinct (map art_id (db (request.more w2)))" using T2 assms(3) by simp
        from repo_get_ok [OF assms(1) c(4) this, of i] obtain w3 where
          g: "repo_get (articles s) i w2 = (Inr (Some a), w3)" "db (request.more w3) = ?T"
            "kept rest w2 w3"
          using T2 Some by auto
        then have "prog w = (Inl conflict, w3)"
          using run z by (simp add: raise_conflict_or_not_found_def bind_cmd_def)
        moreover have "kept rest w w3" using l(4) c(6) g(3) by (metis kept_trans)
        ultimately show ?thesis using Some True False l c g by (auto simp: write_verdict_def)
      qed
    qed
  qed
qed

subsection \<open>Writes\<close>

lemma update_run:
  assumes "serves (repo_session (articles s)) db clock rest" and "mysql_up s w"
    and "distinct (map art_id (db (request.more w)))"
  shows "case write_verdict (db (request.more w)) actor i e of
      Inl err \<Rightarrow> \<exists>v. update s actor i t b e w = (Inl err, v)
          \<and> db (request.more v) = db (request.more w) \<and> kept rest w v
    | Inr a \<Rightarrow> \<exists>stamp v.
          update s actor i t b e w
            = (Inr (article_out_of (update_row stamp (update_query i e t b) a)), v)
          \<and> db (request.more v) = update_effect stamp (update_query i e t b) (db (request.more w))
          \<and> pending_after_commit v = pending_after_commit w @ queued s (author_id a) (Some i)
          \<and> settled s rest w v"
proof -
  let ?T = "db (request.more w)"
  let ?q = "update_query i e t b"
  let ?k = "\<lambda>who. bind_cmd (invalidate_after_commit s who (Some i)) (\<lambda>_.
      bind_cmd (load s i) (\<lambda>fresh. return_cmd (article_out_of fresh)))"
  have "upd_where ?q = cas_where i e" by (simp add: update_query_def)
  then have cas: "cas_runs s db rest i e (\<lambda>q. q = ?q) ?T (update_cas (articles s) i e t b)"
    unfolding cas_runs_def using update_ok [OF assms(1)] by metis
  have path: "case write_verdict ?T actor i e of
      Inl err \<Rightarrow> \<exists>v. update s actor i t b e w = (Inl err, v) \<and> db (request.more v) = ?T
          \<and> kept rest w v
    | Inr a \<Rightarrow> live_row ?T i = Some a \<and> (\<exists>q stamp v. q = ?q \<and> upd_where q = cas_where i e
          \<and> update s actor i t b e w = ?k (author_id a) v \<and> mysql_up s v
          \<and> db (request.more v) = update_effect stamp q ?T
          \<and> kept rest w v)"
    unfolding update_def Let_def
    by (rule write_path [OF assms cas])
  show ?thesis
  proof (cases "write_verdict ?T actor i e")
    case (Inl err)
    from path show ?thesis unfolding Inl sum.case by blast
  next
    case (Inr a)
    from path obtain stamp v where v: "live_row ?T i = Some a"
      "update s actor i t b e w = ?k (author_id a) v" "mysql_up s v"
      "db (request.more v) = update_effect stamp ?q ?T" "kept rest w v"
      unfolding Inr sum.case by blast
    define v1 where "v1 = snd (invalidate_after_commit s (author_id a) (Some i) v)"
    note inv = invalidate_after_commit_run [of s "author_id a" "Some i" v, folded v1_def]
    have live: "live_row (db (request.more v1)) i = Some (update_row stamp ?q a)"
      using v(1,4) inv(3) by (simp add: live_row_update [OF update_query_keeps_live])
    have "mysql_up s v1" "distinct (map art_id (db (request.more v1)))"
      using inv v(3,4) assms(3) by simp_all
    from load_ok [OF assms(1) this, of i] obtain v2 where
      l: "load s i v1 = (Inr (update_row stamp ?q a), v2)"
        "db (request.more v2) = db (request.more v1)" "mysql_up s v2" "kept rest v1 v2"
      unfolding live option.case by blast
    have "update s actor i t b e w = (Inr (article_out_of (update_row stamp ?q a)), v2)"
      unfolding v(2) by (simp add: bind_cmd_def inv(1) l(1))
    moreover have "pending_after_commit v2
        = pending_after_commit w @ queued s (author_id a) (Some i)"
      unfolding pending_kept [OF l(4)] inv(2) pending_kept [OF v(5)] ..
    moreover have "db (request.more v2) = update_effect stamp ?q ?T" using l(2) inv(3) v(4) by simp
    moreover have "settled s rest w v2"
      by (rule settled_after_write [OF v(5), of s "author_id a" "Some i"])
        (use l(3,4) in \<open>simp_all add: v1_def\<close>)
    ultimately show ?thesis unfolding Inr sum.case by blast
  qed
qed

text \<open>An update does exactly what its verdict says. A missing or deleted article is not found; only
  its author or an administrator may write; the token must be the current one; and then the row, and
  no other, gets the new text, the answer is the row as it is now in the database, and one
  invalidation, of that article and of its author (not the actor), is queued. A refused update leaves
  the table and the queue as they were.\<close>

theorem update_spec:
  assumes "serves (repo_session (articles s)) db clock rest" and "mysql_up s w"
    and "distinct (map art_id (db (request.more w)))"
  shows "case write_verdict (db (request.more w)) actor i e of
      Inl err \<Rightarrow> \<exists>v. update s actor i t b e w = (Inl err, v)
          \<and> db (request.more v) = db (request.more w) \<and> kept rest w v
    | Inr a \<Rightarrow> \<exists>stamp v.
          update s actor i t b e w
            = (Inr (article_out_of (update_row stamp (update_query i e t b) a)), v)
          \<and> db (request.more v) = update_effect stamp (update_query i e t b) (db (request.more w))
          \<and> pending_after_commit v = pending_after_commit w @ queued s (author_id a) (Some i)
          \<and> settled s rest w v"
  by (rule update_run [OF assms])


lemma live_row_soft_delete:
  assumes "distinct (map art_id table)" and "live_row table i = Some a" and "updated_at a = e"
  shows "live_row (update_effect stamp (soft_delete_query i e u) table) i = None"
proof -
  have "\<not> (art_id x = i \<and> deleted_at x = None)"
    if "x \<in> set (update_effect stamp (soft_delete_query i e u) table)" for x
  proof
    assume x: "art_id x = i \<and> deleted_at x = None"
    from that obtain y where y: "y \<in> set table" "x = update_row stamp (soft_delete_query i e u) y"
      by (auto simp: update_effect_def)
    then have "art_id y = art_id a" using x live_row_Some(2) [OF assms(2)] by simp
    with y(1) live_row_Some(1) [OF assms(2)] assms(1) have "y = a"
      by (auto simp: distinct_map dest: inj_onD)
    then have "deleted_at x \<noteq> None"
      using y(2) live_row_Some [OF assms(2)] assms(3)
      by (auto simp: update_row_def soft_delete_query_def matches_cas assign_all_def Let_def
          dest: arg_cong [where f = deleted_at])
    with x show False by simp
  qed
  then show ?thesis unfolding live_row_def by (auto simp: find_None_iff)
qed

lemma delete_run:
  assumes "serves (repo_session (articles s)) db clock rest" and "mysql_up s w"
    and "distinct (map art_id (db (request.more w)))"
  shows "case write_verdict (db (request.more w)) actor i e of
      Inl err \<Rightarrow> \<exists>v. delete s actor i e w = (Inl err, v)
          \<and> db (request.more v) = db (request.more w) \<and> kept rest w v
    | Inr a \<Rightarrow> \<exists>stamp u v. delete s actor i e w = (Inr (), v)
          \<and> db (request.more v) = update_effect stamp (soft_delete_query i e u) (db (request.more w))
          \<and> live_row (db (request.more v)) i = None
          \<and> pending_after_commit v = pending_after_commit w @ queued s (author_id a) (Some i)
          \<and> settled s rest w v"
proof -
  let ?T = "db (request.more w)"
  let ?Q = "\<lambda>q. \<exists>u. q = soft_delete_query i e u"
  let ?k = "\<lambda>who. invalidate_after_commit s who (Some i)"
  have cas: "cas_runs s db rest i e ?Q ?T (soft_delete_cas (articles s) i e)"
    unfolding cas_runs_def
  proof (intro allI impI)
    fix u
    assume u: "mysql_up s u \<and> db (request.more u) = ?T"
    have q: "upd_where (soft_delete_query i e x) = cas_where i e" for x
      by (simp add: soft_delete_query_def)
    from u show "\<exists>q stamp v. upd_where q = cas_where i e \<and> ?Q q
        \<and> soft_delete_cas (articles s) i e u = (Inr (update_count q ?T), v) \<and> mysql_up s v
        \<and> db (request.more v) = update_effect stamp q ?T
        \<and> kept rest u v"
      using soft_delete_ok [OF assms(1), of u i e] q by metis
  qed
  have path: "case write_verdict ?T actor i e of
      Inl err \<Rightarrow> \<exists>v. delete s actor i e w = (Inl err, v) \<and> db (request.more v) = ?T
          \<and> kept rest w v
    | Inr a \<Rightarrow> live_row ?T i = Some a \<and> (\<exists>q stamp v. ?Q q \<and> upd_where q = cas_where i e
          \<and> delete s actor i e w = ?k (author_id a) v \<and> mysql_up s v
          \<and> db (request.more v) = update_effect stamp q ?T
          \<and> kept rest w v)"
    unfolding delete_def Let_def by (rule write_path [OF assms cas])
  show ?thesis
  proof (cases "write_verdict ?T actor i e")
    case (Inl err)
    from path show ?thesis unfolding Inl sum.case by blast
  next
    case (Inr a)
    from path obtain u stamp v where v: "live_row ?T i = Some a"
      "delete s actor i e w = ?k (author_id a) v"
      "db (request.more v) = update_effect stamp (soft_delete_query i e u) ?T"
      "kept rest w v" "mysql_up s v" unfolding Inr sum.case by blast
    have e: "updated_at a = e"
      using Inr v(1) by (auto simp: write_verdict_def split: if_splits)
    define v1 where "v1 = snd (invalidate_after_commit s (author_id a) (Some i) v)"
    note inv = invalidate_after_commit_run [of s "author_id a" "Some i" v, folded v1_def]
    have "delete s actor i e w = (Inr (), v1)" using v(2) inv(1) by simp
    moreover have t: "db (request.more v1) = update_effect stamp (soft_delete_query i e u) ?T"
      using inv(3) v(3) by simp
    moreover have "live_row (db (request.more v1)) i = None"
      unfolding t by (rule live_row_soft_delete [OF assms(3) v(1) e])
    moreover have "pending_after_commit v1
        = pending_after_commit w @ queued s (author_id a) (Some i)"
      unfolding inv(2) pending_kept [OF v(4)] ..
    moreover have "settled s rest w v1"
      by (rule settled_after_write [OF v(4), of s "author_id a" "Some i"])
        (use v(5) inv(4) in \<open>simp_all add: v1_def\<close>)
    ultimately show ?thesis unfolding Inr sum.case by blast
  qed
qed

text \<open>A delete does exactly what its verdict says: the same refusals as an update; and when it goes
  through the article is gone from every read while its row stays in the table, no other row changes,
  and one invalidation is queued.\<close>

theorem delete_spec:
  assumes "serves (repo_session (articles s)) db clock rest" and "mysql_up s w"
    and "distinct (map art_id (db (request.more w)))"
  shows "case write_verdict (db (request.more w)) actor i e of
      Inl err \<Rightarrow> \<exists>v. delete s actor i e w = (Inl err, v)
          \<and> db (request.more v) = db (request.more w) \<and> kept rest w v
    | Inr a \<Rightarrow> \<exists>stamp u v. delete s actor i e w = (Inr (), v)
          \<and> db (request.more v) = update_effect stamp (soft_delete_query i e u) (db (request.more w))
          \<and> live_row (db (request.more v)) i = None
          \<and> pending_after_commit v = pending_after_commit w @ queued s (author_id a) (Some i)
          \<and> settled s rest w v"
  by (rule delete_run [OF assms])

lemma create_run:
  assumes "serves (repo_session (articles s)) db clock rest" and "mysql_up s w"
    and "distinct (map art_id (db (request.more w)))"
  shows "\<exists>a v. create s actor t b w = (Inr (article_out_of a), v)
    \<and> db (request.more v) = db (request.more w) @ [a]
    \<and> art_id a \<notin> art_id ` set (db (request.more w))
    \<and> author_id a = user_id actor \<and> title a = t \<and> body a = b \<and> deleted_at a = None
    \<and> pending_after_commit v = pending_after_commit w @ queued s (user_id actor) None
    \<and> settled s rest w v"
proof -
  let ?T = "db (request.more w)"
  let ?op = "bind_await (flush_article (repo_session (articles s)) (user_id actor) t b)
      (refresh_article (repo_session (articles s)))"
  let ?P = "\<lambda>a m. db m = ?T @ [a] \<and> art_id a \<notin> art_id ` set ?T \<and> author_id a = user_id actor
      \<and> title a = t \<and> body a = b \<and> deleted_at a = None"
  have "served rest ?op ?P w"
    unfolding served_def
  proof
    fix dl
    obtain a w1 where f: "flush_article (repo_session (articles s)) (user_id actor) t b dl w
          = (Done (Inr (art_id a)), w1)" "only_data rest w w1" "?P a (request.more w1)"
      using servesD(4) [OF assms(1), of "user_id actor" t b dl w] by blast
    then have "a \<in> set (db (request.more w1))" "distinct (map art_id (db (request.more w1)))"
      using assms(3) by simp_all
    from servesD(5) [OF assms(1) this] obtain w2 where
      "refresh_article (repo_session (articles s)) (art_id a) dl w1 = (Done (Inr a), w2)"
      "only_data rest w1 w2" "db (request.more w2) = db (request.more w1)" by blast
    with f show "\<exists>r w'. ?op dl w = (Done (Inr r), w') \<and> only_data rest w w' \<and> ?P r (request.more w')"
      by (intro exI [of _ a] exI [of _ w2]) (auto simp: bind_await_def only_data_def intro: kept_trans)
  qed
  from write_mysql_ok [OF assms(2) this] obtain a v where
    c: "repo_create (articles s) (user_id actor) t b w = (Inr a, v)" "?P a (request.more v)"
      "kept rest w v" "mysql_up s v" unfolding repo_create_def by blast
  define v1 where "v1 = snd (invalidate_after_commit s (user_id actor) None v)"
  note inv = invalidate_after_commit_run [of s "user_id actor" None v, folded v1_def]
  have "create s actor t b w = (Inr (article_out_of a), v1)"
    by (simp add: create_def bind_cmd_def c(1) inv(1))
  moreover have "?P a (request.more v1)" using c(2) inv(3) by simp
  moreover have "pending_after_commit v1 = pending_after_commit w @ queued s (user_id actor) None"
    unfolding inv(2) pending_kept [OF c(3)] ..
  moreover have "settled s rest w v1"
    by (rule settled_after_write [OF c(3), of s "user_id actor" None])
      (use c(4) inv(4) in \<open>simp_all add: v1_def\<close>)
  ultimately show ?thesis by blast
qed

text \<open>A created article is the actor's, whatever the payload says: one new live row with a fresh id
  is appended, it is what the caller gets back, and the invalidation of the author's and of the global
  pages is queued.\<close>

theorem create_spec:
  assumes "serves (repo_session (articles s)) db clock rest" and "mysql_up s w"
    and "distinct (map art_id (db (request.more w)))"
  shows "\<exists>a v. create s actor t b w = (Inr (article_out_of a), v)
    \<and> db (request.more v) = db (request.more w) @ [a]
    \<and> art_id a \<notin> art_id ` set (db (request.more w))
    \<and> author_id a = user_id actor \<and> title a = t \<and> body a = b \<and> deleted_at a = None
    \<and> pending_after_commit v = pending_after_commit w @ queued s (user_id actor) None
    \<and> settled s rest w v"
  by (rule create_run [OF assms])

end
