(* ===== verification/Coherence.thy ===== *)
theory Coherence
  imports ArticleProps
begin

text \<open>
  The cache-aside path as a refinement of the database. A state is \<open>coherent\<close> when every cached
  article is what the table holds, every page cached under a current generation is the page the table
  gives, and no lock is left over. Reads keep coherence and answer what the table says; a write that
  commits re-establishes it by its invalidation. The requests run one after the other here.
\<close>

subsection \<open>One command against a Redis that answers\<close>

definition redis_up :: "'m world \<Rightarrow> bool" where
  "redis_up w \<longleftrightarrow>
     usable w \<and> (\<exists>b. breakers w ''redis'' = Some b \<and> cb_state b = CLOSED)
     \<and> (cache_breaker (cache w) = None \<or> cache_breaker (cache w) = Some ''redis'')"

text \<open>What a call of the cache leaves alone.\<close>

definition untouched :: "('m \<Rightarrow> 'd) \<Rightarrow> 'm world \<Rightarrow> 'm world \<Rightarrow> bool" where
  "untouched rest w v \<longleftrightarrow>
     session_info v = session_info w \<and> breakers v ''mysql'' = breakers w ''mysql''
     \<and> rest (request.more v) = rest (request.more w) \<and> redis_up v"

lemma untouched_trans: "untouched rest u v \<Longrightarrow> untouched rest v w \<Longrightarrow> untouched rest u w"
  by (simp add: untouched_def)

lemma untouched_mysql: "untouched rest w v \<Longrightarrow> mysql_up s w \<Longrightarrow> mysql_up s v"
  by (simp add: untouched_def mysql_up_def)

definition answered ::
  "('m \<Rightarrow> 'd) \<Rightarrow> ('m world, 'a) command \<Rightarrow> ('a \<Rightarrow> 'm \<Rightarrow> bool) \<Rightarrow> 'm world \<Rightarrow> bool" where
  "answered rest cmd Q w \<longleftrightarrow>
     (\<forall>u. request.more u = request.more w \<longrightarrow>
        (\<exists>a u'. cmd u = (Inr a, u') \<and> only_data rest u u' \<and> Q a (request.more u')))"

definition resolved :: "'m world \<Rightarrow> 'm world" where
  "resolved w = w\<lparr>cache := (cache w)\<lparr>cache_breaker := Some ''redis''\<rparr>\<rparr>"

lemma live_up: "redis_up w \<Longrightarrow> live policies w = (Inr True, resolved w)"
proof -
  assume "redis_up w"
  then obtain b where b: "usable w" "breakers w ''redis'' = Some b" "cb_state b = CLOSED"
    "cache_breaker (cache w) = None \<or> cache_breaker (cache w) = Some ''redis''"
    by (auto simp: redis_up_def)
  have "resolve_breaker policies w = (Inr ''redis'', resolved w)"
    using b(2,4) by (auto simp: resolve_breaker_def resolved_def)
  moreover have "update_breaker ''redis'' (\<lambda>_. b) (resolved w) = resolved w"
    using b(2) by (simp add: update_breaker_def resolved_def fun_upd_idem)
  moreover have "breakers (resolved w) = breakers w" "now (resolved w) = now w"
    by (simp_all add: resolved_def)
  moreover have "allow (now w) b = (True, b)" using b(3) by (simp add: allow_def)
  ultimately show ?thesis
    using b(1,2) by (simp add: live_def usable_def bind_cmd_def breaker_allow_def)
qed

lemma resolved_up: "redis_up w \<Longrightarrow> redis_up (resolved w)"
  by (auto simp: redis_up_def resolved_def usable_def)

lemma try_ok:
  assumes up: "redis_up w" and ans: "answered rest cmd Q w"
    and fin: "\<And>a v. fst (fin a v) = f a \<and> only_data rest v (snd (fin a v))
        \<and> request.more (snd (fin a v)) = request.more v"
  shows "\<exists>a v. try_redis policies op fb cmd fin w = (Inr (f a), v)
    \<and> untouched rest w v \<and> Q a (request.more v)"
proof -
  have more: "request.more (resolved w) = request.more w" by (simp add: resolved_def)
  with ans obtain a u where u: "cmd (resolved w) = (Inr a, u)" "only_data rest (resolved w) u"
    "Q a (request.more u)" unfolding answered_def by blast
  let ?v = "snd (fin a (succeed u))"
  have c: "cache u = cache (resolved w)" "breakers u = breakers (resolved w)"
    using u(2) by (simp_all add: only_data_def kept_def)
  from up obtain b where b: "breakers w ''redis'' = Some b" "cb_state b = CLOSED"
    by (auto simp: redis_up_def)
  have s: "succeed u = breaker_succeeds ''redis'' u"
    using c(1) by (simp add: succeed_def resolved_def)
  have f: "fst (fin a (succeed u)) = f a" "only_data rest (succeed u) ?v"
    "request.more ?v = request.more u" using fin [of a "succeed u"] s by simp_all
  have "try_redis policies op fb cmd fin w = (Inr (f a), ?v)"
    using live_up [OF up, of policies] u(1) f(1) by (simp add: try_redis_def case_prod_beta)
  moreover have "untouched rest w ?v"
  proof -
    have "redis_up ?v"
      using up b c f(2) s
      by (auto simp: redis_up_def usable_def only_data_def kept_def verdict_breakers resolved_def
          record_success_def)
    moreover have "breakers ?v ''mysql'' = breakers w ''mysql''"
      using f(2) c(2) s by (simp add: only_data_def verdict_breakers resolved_def)
    moreover have "session_info ?v = session_info w"
    proof -
      have "session_info (breaker_succeeds ''redis'' u) = session_info u"
        by (simp add: breaker_succeeds_def update_breaker_def)
      with f(2) u(2) s show ?thesis by (simp add: only_data_def kept_def resolved_def)
    qed
    moreover have "rest (request.more ?v) = rest (request.more w)"
      using f(3) u(2) more by (simp add: only_data_def kept_def)
    ultimately show ?thesis by (simp add: untouched_def)
  qed
  ultimately show ?thesis using u(3) f(3) by auto
qed

lemma log_only_data [simp]: "only_data rest v (log_metric g v)"
  by (simp add: only_data_def kept_def log_metric_def)

subsection \<open>The methods\<close>

lemma cache_get_ok:
  assumes "stores redis kv rest" and "redis_up w"
  shows "\<exists>v. cache_get redis policies key entity w = (Inr (kv (request.more w) key), v)
    \<and> untouched rest w v \<and> kv (request.more v) = kv (request.more w)"
proof -
  let ?Q = "\<lambda>a m. a = kv (request.more w) key \<and> kv m = kv (request.more w)"
  have "answered rest (redis_get redis key) ?Q w"
    unfolding answered_def
  proof (intro allI impI)
    fix u :: "'a world"
    assume "request.more u = request.more w"
    with storesD(1) [OF assms(1), of key u]
    show "\<exists>a u'. redis_get redis key u = (Inr a, u') \<and> only_data rest u u' \<and> ?Q a (request.more u')"
      by auto
  qed
  from try_ok [OF assms(2) this, where f = "\<lambda>x. x"] show ?thesis
    unfolding cache_get_def by (auto split: option.split)
qed

lemma acquire_lock_ok:
  assumes "stores redis kv rest" and "redis_up w"
  shows "\<exists>v. acquire_lock redis policies key ttl w
      = (Inr (kv (request.more w) (lock_key key) = None), v)
    \<and> untouched rest w v
    \<and> kv (request.more v) = (if kv (request.more w) (lock_key key) = None
         then (kv (request.more w))(lock_key key \<mapsto> ''1'') else kv (request.more w))"
proof -
  let ?k = "kv (request.more w)"
  let ?Q = "\<lambda>a m. a = (?k (lock_key key) = None)
    \<and> kv m = (if ?k (lock_key key) = None then ?k(lock_key key \<mapsto> ''1'') else ?k)"
  have "answered rest (redis_set redis (lock_key key) ''1'' (max 1 ttl) True) ?Q w"
    unfolding answered_def
  proof (intro allI impI)
    fix u :: "'a world"
    assume "request.more u = request.more w"
    with storesD(3) [OF assms(1), of "lock_key key" "''1''" "max 1 ttl" True u]
    show "\<exists>a u'. redis_set redis (lock_key key) ''1'' (max 1 ttl) True u = (Inr a, u')
        \<and> only_data rest u u' \<and> ?Q a (request.more u')"
      by auto
  qed
  from try_ok [OF assms(2) this, where f = "\<lambda>x. x"] show ?thesis
    unfolding acquire_lock_def by auto
qed

lemma cache_set_ok:
  assumes "stores redis kv rest" and "redis_up w"
  shows "\<exists>v. cache_set redis policies key val ttl w = (Inr (), v)
    \<and> untouched rest w v \<and> kv (request.more v) = (kv (request.more w))(key \<mapsto> val)"
proof -
  let ?Q = "\<lambda>a m. kv m = (kv (request.more w))(key \<mapsto> val)"
  have "answered rest (redis_set redis key val (max 1 ttl) False) ?Q w"
    unfolding answered_def
  proof (intro allI impI)
    fix u :: "'a world"
    assume "request.more u = request.more w"
    with storesD(3) [OF assms(1), of key val "max 1 ttl" False u]
    show "\<exists>a u'. redis_set redis key val (max 1 ttl) False u = (Inr a, u')
        \<and> only_data rest u u' \<and> ?Q a (request.more u')"
      by auto
  qed
  from try_ok [OF assms(2) this, where f = "\<lambda>_. ()"] show ?thesis
    unfolding cache_set_def by auto
qed

lemma delete_ok:
  assumes "stores redis kv rest" and "redis_up w"
  shows "\<exists>v. try_redis policies op () (redis_delete redis key) (\<lambda>_ w. ((), w)) w = (Inr (), v)
    \<and> untouched rest w v \<and> kv (request.more v) = (kv (request.more w))(key := None)"
proof -
  let ?Q = "\<lambda>a m. kv m = (kv (request.more w))(key := None)"
  have "answered rest (redis_delete redis key) ?Q w"
    unfolding answered_def
  proof (intro allI impI)
    fix u :: "'a world"
    assume "request.more u = request.more w"
    with storesD(4) [OF assms(1), of key u]
    show "\<exists>a u'. redis_delete redis key u = (Inr a, u') \<and> only_data rest u u' \<and> ?Q a (request.more u')"
      by auto
  qed
  from try_ok [OF assms(2) this, where f = "\<lambda>_. ()"] show ?thesis by auto
qed


lemma incr_answered:
  assumes "stores redis kv rest" and "request.more u = request.more w"
  shows "\<exists>n u'. redis_incr redis k u = (Inr n, u') \<and> only_data rest u u'
    \<and> kv (request.more u')
      = (kv (request.more w))(k \<mapsto> str_int (as_int (kv (request.more w) k) + 1))"
  using storesD(5) [OF assms(1), of k u] assms(2) by auto

lemma only_data_trans: "only_data rest u v \<Longrightarrow> only_data rest v w \<Longrightarrow> only_data rest u w"
  by (auto simp: only_data_def intro: kept_trans)

text \<open>The counters after a write by \<open>who\<close>.\<close>

definition bumped :: "(string \<rightharpoonup> string) \<Rightarrow> int \<Rightarrow> string \<rightharpoonup> string" where
  "bumped e who =
     (let e1 = e(generation_key \<mapsto> str_int (as_int (e generation_key) + 1));
          k = author_generation_key who in
      e1(k \<mapsto> str_int (as_int (e1 k) + 1)))"

lemma bump_ok:
  assumes "stores redis kv rest" and "redis_up w"
  shows "\<exists>v. bump_generations redis policies (Some who) w = (Inr (), v)
    \<and> untouched rest w v \<and> kv (request.more v) = bumped (kv (request.more w)) who"
proof -
  let ?cmd = "bind_cmd (redis_incr redis generation_key)
      (\<lambda>n. redis_incr redis (author_generation_key who))"
  let ?Q = "\<lambda>a m. kv m = bumped (kv (request.more w)) who"
  have "answered rest ?cmd ?Q w"
    unfolding answered_def
  proof (intro allI impI)
    fix u :: "'a world"
    assume "request.more u = request.more w"
    from incr_answered [OF assms(1) this, of generation_key] obtain n u1 where
      u1: "redis_incr redis generation_key u = (Inr n, u1)" "only_data rest u u1"
        "kv (request.more u1) = (kv (request.more w))
          (generation_key \<mapsto> str_int (as_int (kv (request.more w) generation_key) + 1))" by blast
    from incr_answered [OF assms(1) refl, of "author_generation_key who" u1] obtain n' u2 where
      u2: "redis_incr redis (author_generation_key who) u1 = (Inr n', u2)" "only_data rest u1 u2"
        "kv (request.more u2) = (kv (request.more u1)) (author_generation_key who \<mapsto>
          str_int (as_int (kv (request.more u1) (author_generation_key who)) + 1))" by blast
    have "?Q n' (request.more u2)" using u1(3) u2(3) by (simp add: bumped_def Let_def)
    with u1 u2 only_data_trans show "\<exists>a u'. ?cmd u = (Inr a, u') \<and> only_data rest u u'
        \<and> ?Q a (request.more u')"
      by (intro exI [of _ n'] exI [of _ u2]) (auto simp: bind_cmd_def)
  qed
  from try_ok [OF assms(2) this, where f = "\<lambda>_. ()"] show ?thesis
    unfolding bump_generations_def by auto
qed

lemma get_generations_ok:
  assumes "stores redis kv rest" and "redis_up w"
  shows "\<exists>v. get_generations redis policies author w =
      (Inr (as_int (kv (request.more w) generation_key),
            case author of None \<Rightarrow> 0
            | Some a \<Rightarrow> as_int (kv (request.more w) (author_generation_key a))), v)
    \<and> untouched rest w v \<and> kv (request.more v) = kv (request.more w)"
proof -
  let ?vals = "map (kv (request.more w)) (generation_keys author)"
  let ?Q = "\<lambda>a m. a = ?vals \<and> kv m = kv (request.more w)"
  let ?f = "\<lambda>values :: string option list.
      let parsed = map as_int values; padded = parsed @ replicate (2 - length parsed) 0 in
      (padded ! 0, padded ! 1)"
  have "answered rest (redis_mget redis (generation_keys author)) ?Q w"
    unfolding answered_def
  proof (intro allI impI)
    fix u :: "'a world"
    assume "request.more u = request.more w"
    with storesD(2) [OF assms(1), of "generation_keys author" u]
    show "\<exists>a u'. redis_mget redis (generation_keys author) u = (Inr a, u') \<and> only_data rest u u'
        \<and> ?Q a (request.more u')"
      by auto
  qed
  then have "\<exists>a v. get_generations redis policies author w = (Inr (?f a), v)
      \<and> untouched rest w v \<and> ?Q a (request.more v)"
    unfolding get_generations_def by (intro try_ok [OF assms(2)]) (simp_all add: Let_def)
  then obtain v where "get_generations redis policies author w = (Inr (?f ?vals), v)"
    "untouched rest w v" "kv (request.more v) = kv (request.more w)" by blast
  then show ?thesis
    by (auto simp: generation_keys_def Let_def numeral_2_eq_2 split: option.split)
qed

subsection \<open>Coherent articles\<close>

text \<open>The documented round trips of pydantic, \<open>json\<close> and \<open>datetime\<close>.\<close>

definition codec_ok :: "codec \<Rightarrow> bool" where
  "codec_ok c \<longleftrightarrow>
     (\<forall>a. validate_article_json c (dump_article_json c a) = Some a)
     \<and> (\<forall>x. validate_summary c (dump_summary c x) = Some x)
     \<and> (\<forall>j. json_loads c (json_dumps c j) = Some j)
     \<and> (\<forall>t. fromisoformat c (isoformat c t) = Some t)"

definition coherent_articles ::
  "'m world article_service \<Rightarrow> article list \<Rightarrow> (string \<rightharpoonup> string) \<Rightarrow> bool" where
  "coherent_articles s table e \<longleftrightarrow>
     (\<forall>i content. e (article_key i) = Some content \<longrightarrow>
        (\<exists>a. live_row table i = Some a
           \<and> validate_article_json (svc_codec s) content = Some (article_out_of a)))"

definition unlocked :: "(string \<rightharpoonup> string) \<Rightarrow> bool" where
  "unlocked e \<longleftrightarrow> (\<forall>k. e (lock_key k) = None)"

lemma key_neqs [simp]:
  "article_key i \<noteq> generation_key" "article_key i \<noteq> author_generation_key j"
  "article_key i \<noteq> list_key h g a l p" "article_key i \<noteq> lock_key k"
  "generation_key \<noteq> author_generation_key j" "generation_key \<noteq> list_key h g a l p"
  "generation_key \<noteq> lock_key k" "author_generation_key j \<noteq> list_key h g a l p"
  "author_generation_key j \<noteq> lock_key k" "list_key h g a l p \<noteq> lock_key k"
  "article_key i = article_key i' \<longleftrightarrow> i = i'"
  "author_generation_key j = author_generation_key j' \<longleftrightarrow> j = j'"
  "lock_key k = lock_key k' \<longleftrightarrow> k = k'"
  using key_spaces by blast+

lemmas key_neqs_sym [simp] = key_neqs(1-10) [symmetric]

lemma kept_redis_up: "kept rest w v \<Longrightarrow> redis_up w \<Longrightarrow> redis_up v"
  by (simp add: kept_def redis_up_def usable_def)

lemma unlocked_relock: "unlocked e \<Longrightarrow> (e(lock_key k \<mapsto> x))(lock_key k := None) = e"
  by (auto simp: unlocked_def fun_eq_iff)

text \<open>The last step of a miss: whatever the body did to the other keys, the lock is dropped.\<close>

lemma release_lock_ok:
  assumes "stores redis kv rest" and "redis_up w"
  shows "\<exists>v. release_lock redis policies key w = (Inr (), v)
    \<and> untouched rest w v \<and> kv (request.more v) = (kv (request.more w))(lock_key key := None)"
  unfolding release_lock_def by (rule delete_ok [OF assms])


text \<open>
  The whole environment: \<open>db\<close> the table, \<open>kv\<close> the keys of Redis, \<open>sv\<close> the committed table.
\<close>

definition environment ::
  "'m world article_service \<Rightarrow> ('m \<Rightarrow> article list) \<Rightarrow> ('m \<Rightarrow> string \<Rightarrow> string option)
   \<Rightarrow> ('m \<Rightarrow> 's) \<Rightarrow> ('m \<Rightarrow> datetime) \<Rightarrow> bool" where
  "environment s db kv sv clock \<longleftrightarrow>
     serves (repo_session (articles s)) db clock (\<lambda>m. (kv m, sv m))
     \<and> stores (svc_redis s) kv (\<lambda>m. (db m, sv m)) \<and> codec_ok (svc_codec s)"

lemma environmentD:
  assumes "environment s db kv sv clock"
  shows "serves (repo_session (articles s)) db clock (\<lambda>m. (kv m, sv m))"
    and "stores (svc_redis s) kv (\<lambda>m. (db m, sv m))" and "codec_ok (svc_codec s)"
  using assms by (simp_all add: environment_def)

definition up :: "'m world article_service \<Rightarrow> 'm world \<Rightarrow> bool" where
  "up s w \<longleftrightarrow> mysql_up s w \<and> redis_up w"

text \<open>What a read leaves: the table, the queue, and a working pair of dependencies.\<close>

definition read_step ::
  "'m world article_service \<Rightarrow> ('m \<Rightarrow> article list) \<Rightarrow> ('m \<Rightarrow> 's) \<Rightarrow> 'm world \<Rightarrow> 'm world \<Rightarrow> bool" where
  "read_step s db sv w v \<longleftrightarrow>
     up s v \<and> db (request.more v) = db (request.more w) \<and> sv (request.more v) = sv (request.more w)
     \<and> session_info v = session_info w"

lemma read_step_trans: "read_step s db sv u v \<Longrightarrow> read_step s db sv v w \<Longrightarrow> read_step s db sv u w"
  by (simp add: read_step_def)

lemma untouched_read_step:
  "untouched (\<lambda>m. (db m, sv m)) w v \<Longrightarrow> up s w \<Longrightarrow> read_step s db sv w v"
  by (auto simp: untouched_def read_step_def up_def mysql_up_def)

lemma kept_read_step:
  "kept (\<lambda>m. (kv m, sv m)) w v \<Longrightarrow> mysql_up s v \<Longrightarrow> db (request.more v) = db (request.more w) \<Longrightarrow>
   up s w \<Longrightarrow> read_step s db sv w v"
  using kept_redis_up by (auto simp: kept_def read_step_def up_def redis_up_def usable_def)

lemma load_step:
  assumes "environment s db kv sv clock" and "up s w" and "distinct (map art_id (db (request.more w)))"
  shows "\<exists>v. load s i w =
      (case live_row (db (request.more w)) i of None \<Rightarrow> Inl not_found | Some a \<Rightarrow> Inr a, v)
    \<and> read_step s db sv w v \<and> kv (request.more v) = kv (request.more w)"
proof -
  have "mysql_up s w" using assms(2) by (simp add: up_def)
  from load_ok [OF environmentD(1) [OF assms(1)] this assms(3), of i] obtain v where
    v: "load s i w = (case live_row (db (request.more w)) i of None \<Rightarrow> Inl not_found | Some a \<Rightarrow> Inr a, v)"
      "mysql_up s v" "db (request.more v) = db (request.more w)"
      "kept (\<lambda>m. (kv m, sv m)) w v" by blast
  moreover from v(4) have "kv (request.more v) = kv (request.more w)" by (simp add: kept_def)
  ultimately show ?thesis using kept_read_step [OF v(4) v(2,3) assms(2)] by blast
qed

lemma cache_get_article_step:
  assumes "environment s db kv sv clock" and "up s w"
  shows "\<exists>v. cache_get_article (svc_redis s) (svc_policies s) i w
      = (Inr (kv (request.more w) (article_key i)), v)
    \<and> read_step s db sv w v \<and> kv (request.more v) = kv (request.more w)"
  using cache_get_ok [OF environmentD(2) [OF assms(1)], of w "svc_policies s"] assms(2)
    untouched_read_step [OF _ assms(2)]
  unfolding cache_get_article_def up_def by blast

lemma acquire_lock_step:
  assumes "environment s db kv sv clock" and "up s w" and "unlocked (kv (request.more w))"
  shows "\<exists>v. acquire_lock (svc_redis s) (svc_policies s) key ttl w = (Inr True, v)
    \<and> read_step s db sv w v
    \<and> kv (request.more v) = (kv (request.more w))(lock_key key \<mapsto> ''1'')"
  using acquire_lock_ok [OF environmentD(2) [OF assms(1)], of w "svc_policies s" key ttl] assms(2,3)
    untouched_read_step [OF _ assms(2)]
  unfolding up_def unlocked_def by auto

lemma cache_set_step:
  assumes "environment s db kv sv clock" and "up s w"
  shows "\<exists>v. cache_set (svc_redis s) (svc_policies s) key val ttl w = (Inr (), v)
    \<and> read_step s db sv w v \<and> kv (request.more v) = (kv (request.more w))(key \<mapsto> val)"
  using cache_set_ok [OF environmentD(2) [OF assms(1)], of w "svc_policies s" key val ttl] assms(2)
    untouched_read_step [OF _ assms(2)]
  unfolding up_def by blast

lemma release_lock_step:
  assumes "environment s db kv sv clock" and "up s w"
  shows "\<exists>v. release_lock (svc_redis s) (svc_policies s) key w = (Inr (), v)
    \<and> read_step s db sv w v \<and> kv (request.more v) = (kv (request.more w))(lock_key key := None)"
  using release_lock_ok [OF environmentD(2) [OF assms(1)], of w "svc_policies s" key] assms(2)
    untouched_read_step [OF _ assms(2)]
  unfolding up_def by blast

lemma coherent_articlesD:
  "coherent_articles s table e \<Longrightarrow> e (article_key i) = Some content \<Longrightarrow>
   \<exists>a. live_row table i = Some a
     \<and> decode_article (svc_codec s) (Some content) = Some (article_out_of a)"
  by (auto simp: coherent_articles_def decode_article_def)

text \<open>A cache-aside read answers what the table holds, and leaves the keys as they were, or with the
  body of the article it loaded added.\<close>

lemma get_article_run:
  assumes "environment s db kv sv clock" and "up s w"
    and "distinct (map art_id (db (request.more w)))"
    and "coherent_articles s (db (request.more w)) (kv (request.more w))"
    and "unlocked (kv (request.more w))"
  shows "\<exists>v. get_article s i w =
      (case live_row (db (request.more w)) i of
         None \<Rightarrow> Inl not_found | Some a \<Rightarrow> Inr (article_out_of a), v)
    \<and> read_step s db sv w v
    \<and> (kv (request.more v) = kv (request.more w)
       \<or> (\<exists>a. live_row (db (request.more w)) i = Some a \<and> kv (request.more v) = (kv (request.more w))
            (article_key i \<mapsto> dump_article_json (svc_codec s) (article_out_of a))))"
proof -
  let ?e = "kv (request.more w)"
  let ?k = "article_key i"
  obtain w1 where w1: "cache_get_article (svc_redis s) (svc_policies s) i w = (Inr (?e ?k), w1)"
    "read_step s db sv w w1" "kv (request.more w1) = ?e"
    using cache_get_article_step [OF assms(1,2)] by blast
  show ?thesis
  proof (cases "?e ?k")
    case (Some content)
    from coherent_articlesD [OF assms(4) this] obtain a where
      "live_row (db (request.more w)) i = Some a"
      "decode_article (svc_codec s) (Some content) = Some (article_out_of a)" by blast
    with w1 Some show ?thesis by (simp add: get_article_def Let_def)
  next
    case None
    have up1: "up s w1" using w1(2) by (simp add: read_step_def)
    have "unlocked (kv (request.more w1))" using assms(5) w1(3) by simp
    from acquire_lock_step [OF assms(1) up1 this, of ?k "lock_ttl s"] obtain w2 where
      w2: "acquire_lock (svc_redis s) (svc_policies s) ?k (lock_ttl s) w1 = (Inr True, w2)"
        "read_step s db sv w1 w2" "kv (request.more w2) = ?e(lock_key ?k \<mapsto> ''1'')"
      using w1(3) by auto
    have s2: "read_step s db sv w w2" using w1(2) w2(2) by (rule read_step_trans)
    then have up2: "up s w2" and t2: "db (request.more w2) = db (request.more w)"
      by (simp_all add: read_step_def)
    from load_step [OF assms(1) up2, of i] t2 assms(3) obtain w3 where
      w3: "load s i w2 = (case live_row (db (request.more w)) i of None \<Rightarrow> Inl not_found | Some a \<Rightarrow> Inr a, w3)"
        "read_step s db sv w2 w3" "kv (request.more w3) = kv (request.more w2)" by auto
    have s3: "read_step s db sv w w3" using s2 w3(2) by (rule read_step_trans)
    then have up3: "up s w3" by (simp add: read_step_def)
    let ?store = "\<lambda>a w. bind_cmd (set_article (svc_redis s) (svc_policies s) i
        (dump_article_json (svc_codec s) (article_out_of a)) (article_ttl_jittered s w))
        (\<lambda>_. return_cmd (article_out_of a)) w"
    have run: "get_article s i w = finally_do (bind_cmd (load s i) ?store)
        (release_lock (svc_redis s) (svc_policies s) ?k) w2"
      using w1(1) w2(1) None
      by (simp add: get_article_def Let_def bind_cmd_def decode_article_def)
    show ?thesis
    proof (cases "live_row (db (request.more w)) i")
      case none: None
      obtain w4 where w4: "release_lock (svc_redis s) (svc_policies s) ?k w3 = (Inr (), w4)"
        "read_step s db sv w3 w4" "kv (request.more w4) = (kv (request.more w3))(lock_key ?k := None)"
        using release_lock_step [OF assms(1) up3] by blast
      have "get_article s i w = (Inl not_found, w4)"
        unfolding run using none w3(1) w4(1) by (simp add: finally_do_def bind_cmd_def)
      moreover have "kv (request.more w4) = ?e"
        using w4(3) w3(3) w2(3) unlocked_relock [OF assms(5)] by simp
      ultimately show ?thesis using none read_step_trans [OF s3 w4(2)] by auto
    next
      case (Some a)
      let ?body = "dump_article_json (svc_codec s) (article_out_of a)"
      obtain w4 where w4: "set_article (svc_redis s) (svc_policies s) i ?body
          (article_ttl_jittered s w3) w3 = (Inr (), w4)" "read_step s db sv w3 w4"
          "kv (request.more w4) = (kv (request.more w3))(?k \<mapsto> ?body)"
        using cache_set_step [OF assms(1) up3] unfolding set_article_def by blast
      have s4: "read_step s db sv w w4" using s3 w4(2) by (rule read_step_trans)
      then have "up s w4" by (simp add: read_step_def)
      from release_lock_step [OF assms(1) this] obtain w5 where
        w5: "release_lock (svc_redis s) (svc_policies s) ?k w4 = (Inr (), w5)"
          "read_step s db sv w4 w5" "kv (request.more w5) = (kv (request.more w4))(lock_key ?k := None)"
        by blast
      have "get_article s i w = (Inr (article_out_of a), w5)"
        unfolding run using Some w3(1) w4(1) w5(1)
        by (simp add: finally_do_def bind_cmd_def)
      moreover have "kv (request.more w5) = ?e(?k \<mapsto> ?body)"
        using w5(3) w4(3) w3(3) w2(3) assms(5) by (auto simp: unlocked_def fun_eq_iff)
      ultimately show ?thesis using Some read_step_trans [OF s4 w5(2)] by auto
    qed
  qed
qed


subsection \<open>Pages\<close>

text \<open>A page written by \<open>_encode_page\<close> is read back by \<open>_decode_page\<close>.\<close>

lemma page_codec:
  assumes "codec_ok c"
  shows "decode_page c (Some (encode_page c items next_after)) = Inr (Some (items, next_after))"
proof -
  have v: "validate_summary c (dump_summary c x) = Some x" for x using assms by (simp add: codec_ok_def)
  have l: "json_loads c (json_dumps c j) = Some j" for j using assms by (simp add: codec_ok_def)
  have t: "fromisoformat c (isoformat c t) = Some t" for t using assms by (simp add: codec_ok_def)
  have m: "map ((\<lambda>x. the (validate_summary c x)) \<circ> dump_summary c) items = items"
    by (rule map_idI) (simp add: v)
  show ?thesis
    by (cases next_after)
      (auto simp: decode_page_def encode_page_def l decode_items_def m v decode_position_def t)
qed

definition spec_page :: "article list \<Rightarrow> int \<Rightarrow> position option \<Rightarrow> int option \<Rightarrow> page" where
  "spec_page table limit after author =
     (let (p, n) = split_page limit
            (map summary_row (run_select (build_list_query (limit + 1) after author) table)) in
      (map summary_out_of p, n))"

definition generation :: "(string \<rightharpoonup> string) \<Rightarrow> int option \<Rightarrow> int" where
  "generation e author =
     (case author of
        None \<Rightarrow> as_int (e generation_key)
      | Some a \<Rightarrow> as_int (e (author_generation_key a)))"

text \<open>
  \<open>windows\<close> are the page windows in use, on which the truncated digest has no collision.
\<close>

definition coherent_pages ::
  "'m world article_service \<Rightarrow> (int \<times> position option) set \<Rightarrow> article list \<Rightarrow> (string \<rightharpoonup> string)
   \<Rightarrow> bool" where
  "coherent_pages s windows table e \<longleftrightarrow>
     (\<forall>author l p content. (l, p) \<in> windows \<longrightarrow>
        e (list_key (sha256_hex s) (generation e author) author l p) = Some content \<longrightarrow>
        decode_page (svc_codec s) (Some content) = Inr (Some (spec_page table l p author)))
     \<and> (\<forall>author g l p. generation e author < g \<longrightarrow> e (list_key (sha256_hex s) g author l p) = None)"

definition collision_free :: "(string \<Rightarrow> string) \<Rightarrow> (int \<times> position option) set \<Rightarrow> bool" where
  "collision_free h windows \<longleftrightarrow> inj_on (\<lambda>(l, p). filter_hash h l p) windows"

definition coherent ::
  "'m world article_service \<Rightarrow> (int \<times> position option) set \<Rightarrow> article list \<Rightarrow> (string \<rightharpoonup> string)
   \<Rightarrow> bool" where
  "coherent s windows table e \<longleftrightarrow>
     coherent_articles s table e \<and> coherent_pages s windows table e \<and> unlocked e"

lemma repo_list_ok:
  assumes "serves (repo_session (articles s)) db clock rest" and "mysql_up s w"
    and "distinct (map art_id (db (request.more w)))"
  shows "\<exists>v. repo_list (articles s) limit after author w =
      (Inr (map summary_row (run_select (build_list_query limit after author) (db (request.more w)))), v)
    \<and> mysql_up s v \<and> db (request.more v) = db (request.more w) \<and> kept rest w v"
proof -
  let ?q = "build_list_query limit after author"
  let ?P = "\<lambda>r m. r = map summary_row (run_select ?q (db (request.more w)))
    \<and> db m = db (request.more w)"
  have "served rest (execute_rows (repo_session (articles s)) ?q) ?P w"
    unfolding served_def
  proof
    fix dl
    obtain rows w' where e: "execute_rows (repo_session (articles s)) ?q dl w
        = (Done (Inr (map summary_row rows)), w')" "select_answer ?q (db (request.more w)) rows"
      "only_data rest w w'" "db (request.more w') = db (request.more w)"
      using servesD(2) [OF assms(1)] by blast
    have "rows = run_select ?q (db (request.more w))"
      by (rule list_answer_unique [OF assms(3) assms(3) refl e(2) run_select_answers])
    with e show "\<exists>r w'. execute_rows (repo_session (articles s)) ?q dl w = (Done (Inr r), w')
        \<and> only_data rest w w' \<and> ?P r (request.more w')" by blast
  qed
  from read_mysql_ok [OF assms(2) this] show ?thesis
    unfolding repo_list_def by blast
qed

lemma load_page_step:
  assumes "environment s db kv sv clock" and "up s w" and "distinct (map art_id (db (request.more w)))"
  shows "\<exists>v. load_page s limit after author w = (Inr (spec_page (db (request.more w)) limit after author), v)
    \<and> read_step s db sv w v \<and> kv (request.more v) = kv (request.more w)"
proof -
  have "mysql_up s w" using assms(2) by (simp add: up_def)
  from repo_list_ok [OF environmentD(1) [OF assms(1)] this assms(3), of "limit + 1" after author]
  obtain v where v: "repo_list (articles s) (limit + 1) after author w = (Inr (map summary_row
        (run_select (build_list_query (limit + 1) after author) (db (request.more w)))), v)"
      "mysql_up s v" "db (request.more v) = db (request.more w)"
      "kept (\<lambda>m. (kv m, sv m)) w v" by blast
  have "load_page s limit after author w = (Inr (spec_page (db (request.more w)) limit after author), v)"
    using v(1) by (simp add: load_page_def spec_page_def bind_cmd_def Let_def case_prod_beta)
  moreover from v(4) have "kv (request.more v) = kv (request.more w)" by (simp add: kept_def)
  ultimately show ?thesis using kept_read_step [OF v(4) v(2,3) assms(2)] by blast
qed


lemma get_generations_step:
  assumes "environment s db kv sv clock" and "up s w"
  shows "\<exists>v gg ga. get_generations (svc_redis s) (svc_policies s) author w = (Inr (gg, ga), v)
    \<and> (if author \<noteq> None then ga else gg) = generation (kv (request.more w)) author
    \<and> read_step s db sv w v \<and> kv (request.more v) = kv (request.more w)"
  using get_generations_ok [OF environmentD(2) [OF assms(1)], of w "svc_policies s" author] assms(2)
    untouched_read_step [OF _ assms(2)]
  unfolding up_def generation_def by (cases author) auto

lemma get_list_page_step:
  assumes "environment s db kv sv clock" and "up s w"
  shows "\<exists>v. get_list_page (svc_redis s) (svc_policies s) key w = (Inr (kv (request.more w) key), v)
    \<and> read_step s db sv w v \<and> kv (request.more v) = kv (request.more w)"
  using cache_get_ok [OF environmentD(2) [OF assms(1)], of w "svc_policies s"] assms(2)
    untouched_read_step [OF _ assms(2)]
  unfolding get_list_page_def up_def by blast

lemma decode_none: "decode_page c None = Inr None"
  by (simp add: decode_page_def)

lemma list_articles_run:
  fixes author :: "int option"
  assumes env: "environment s db kv sv clock" and "up s w"
    and ids: "distinct (map art_id (db (request.more w)))"
    and pages: "coherent_pages s windows (db (request.more w)) (kv (request.more w))"
    and unl: "unlocked (kv (request.more w))" and win: "(limit, after) \<in> windows"
  defines "result \<equiv> spec_page (db (request.more w)) limit after author"
  shows "\<exists>v. list_articles s limit after author w = (Inr result, v) \<and> read_step s db sv w v
    \<and> (kv (request.more v) = kv (request.more w)
       \<or> kv (request.more v) = (kv (request.more w))
           (list_key (sha256_hex s) (generation (kv (request.more w)) author) author limit after
             \<mapsto> encode_page (svc_codec s) (fst result) (snd result)))"
proof -
  let ?e = "kv (request.more w)"
  let ?k = "list_key (sha256_hex s) (generation ?e author) author limit after"
  obtain w0 gg ga where w0: "get_generations (svc_redis s) (svc_policies s) author w = (Inr (gg, ga), w0)"
    "(if author \<noteq> None then ga else gg) = generation ?e author"
    "read_step s db sv w w0" "kv (request.more w0) = ?e"
    using get_generations_step [OF env assms(2)] by blast
  have up0: "up s w0" using w0(3) by (simp add: read_step_def)
  obtain w1 where w1: "get_list_page (svc_redis s) (svc_policies s) ?k w0 = (Inr (?e ?k), w1)"
    "read_step s db sv w0 w1" "kv (request.more w1) = ?e"
    using get_list_page_step [OF env up0, of ?k] w0(4) by auto
  have s1: "read_step s db sv w w1" using w0(3) w1(2) by (rule read_step_trans)
  show ?thesis
  proof (cases "?e ?k")
    case (Some content)
    with pages win have "decode_page (svc_codec s) (Some content) = Inr (Some result)"
      by (auto simp: coherent_pages_def result_def)
    with w0(1,2) w1(1) Some have "list_articles s limit after author w = (Inr result, w1)"
      by (simp add: list_articles_def Let_def bind_cmd_def)
    with s1 w1(3) show ?thesis by blast
  next
    case None
    have up1: "up s w1" using s1 by (simp add: read_step_def)
    have "unlocked (kv (request.more w1))" using unl w1(3) by simp
    from acquire_lock_step [OF env up1 this, of ?k "lock_ttl s"] obtain w2 where
      w2: "acquire_lock (svc_redis s) (svc_policies s) ?k (lock_ttl s) w1 = (Inr True, w2)"
        "read_step s db sv w1 w2" "kv (request.more w2) = ?e(lock_key ?k \<mapsto> ''1'')"
      using w1(3) by auto
    have s2: "read_step s db sv w w2" using s1 w2(2) by (rule read_step_trans)
    then have up2: "up s w2" and t2: "db (request.more w2) = db (request.more w)"
      by (simp_all add: read_step_def)
    from load_page_step [OF env up2, of limit after author] t2 ids obtain w3 where
      w3: "load_page s limit after author w2 = (Inr result, w3)" "read_step s db sv w2 w3"
        "kv (request.more w3) = kv (request.more w2)" by (auto simp: result_def)
    have s3: "read_step s db sv w w3" using s2 w3(2) by (rule read_step_trans)
    then have up3: "up s w3" by (simp add: read_step_def)
    let ?body = "encode_page (svc_codec s) (fst result) (snd result)"
    obtain w4 where w4: "set_list_page (svc_redis s) (svc_policies s) ?k ?body
        (list_ttl_jittered s w3) w3 = (Inr (), w4)" "read_step s db sv w3 w4"
        "kv (request.more w4) = (kv (request.more w3))(?k \<mapsto> ?body)"
      using cache_set_step [OF env up3] unfolding set_list_page_def by blast
    have s4: "read_step s db sv w w4" using s3 w4(2) by (rule read_step_trans)
    then have "up s w4" by (simp add: read_step_def)
    from release_lock_step [OF env this] obtain w5 where
      w5: "release_lock (svc_redis s) (svc_policies s) ?k w4 = (Inr (), w5)"
        "read_step s db sv w4 w5" "kv (request.more w5) = (kv (request.more w4))(lock_key ?k := None)"
      by blast
    have "list_articles s limit after author w = (Inr result, w5)"
      using w0(1,2) w1(1) w2(1) w3(1) w4(1) w5(1) None
      by (cases author)
        (simp_all add: list_articles_def Let_def bind_cmd_def decode_none finally_do_def
          case_prod_beta)
    moreover have "kv (request.more w5) = ?e(?k \<mapsto> ?body)"
      using w5(3) w4(3) w3(3) w2(3) unl by (auto simp: unlocked_def fun_eq_iff)
    ultimately show ?thesis using read_step_trans [OF s4 w5(2)] by blast
  qed
qed


subsection \<open>What a write and its invalidation do to coherence\<close>

text \<open>The table after a write by the author \<open>who\<close> of the article \<open>art\<close> (\<open>None\<close>: a new one).\<close>

definition touches :: "article list \<Rightarrow> article list \<Rightarrow> int \<Rightarrow> int option \<Rightarrow> bool" where
  "touches table table' who art \<longleftrightarrow>
     distinct (map art_id table) \<and> distinct (map art_id table')
     \<and> (\<forall>b. b \<noteq> who \<longrightarrow> filter (listed (Some b)) table' = filter (listed (Some b)) table)
     \<and> (\<forall>j a. Some j \<noteq> art \<longrightarrow> live_row table j = Some a \<longrightarrow> live_row table' j = Some a)"

definition counters_ok :: "(string \<rightharpoonup> string) \<Rightarrow> int \<Rightarrow> bool" where
  "counters_ok e who \<longleftrightarrow>
     (\<forall>author \<in> {None, Some who}. 0 \<le> generation e author \<and> generation e author < 10 ^ 19)"

definition invalidated :: "(string \<rightharpoonup> string) \<Rightarrow> int \<Rightarrow> int option \<Rightarrow> string \<rightharpoonup> string" where
  "invalidated e who art =
     bumped (case art of None \<Rightarrow> e | Some i \<Rightarrow> e(article_key i := None)) who"

lemma generation_bumped:
  assumes "counters_ok e who"
  shows "generation (bumped e who) author =
    (if author = None \<or> author = Some who then generation e author + 1 else generation e author)"
  using assms
  by (cases author) (auto simp: generation_def bumped_def Let_def counters_ok_def as_int_counter)

lemma bumped_other:
  "k \<noteq> generation_key \<Longrightarrow> k \<noteq> author_generation_key who \<Longrightarrow> bumped e who k = e k"
  by (simp add: bumped_def Let_def)

lemma generation_other [simp]:
  "generation (e(article_key i := x)) author = generation e author"
  "generation (e(lock_key k := x)) author = generation e author"
  "generation (e(list_key h g a l p := x)) author = generation e author"
  by (cases author; simp add: generation_def)+

lemma spec_page_other_author:
  assumes "touches table table' who art" and "b \<noteq> who"
  shows "spec_page table' l p (Some b) = spec_page table l p (Some b)"
proof -
  let ?q = "build_list_query (l + 1) p (Some b)"
  let ?Q = "\<lambda>a. case p of None \<Rightarrow> True | Some p \<Rightarrow> older_than p a"
  have m: "matches (sel_where ?q) = (\<lambda>a. listed (Some b) a \<and> ?Q a)"
    by (simp add: matches_list_query fun_eq_iff)
  have split: "filter (matches (sel_where ?q)) t = filter ?Q (filter (listed (Some b)) t)" for t
    unfolding m filter_filter ..
  have "mset (filter (matches (sel_where ?q)) table') = mset (filter (matches (sel_where ?q)) table)"
    unfolding split using assms by (simp add: touches_def)
  moreover have "distinct (map art_id table')" "distinct (map art_id table)"
    using assms(1) by (simp_all add: touches_def)
  ultimately have "run_select ?q table' = run_select ?q table"
    using list_answer_unique [OF _ _ _ run_select_answers run_select_answers] by blast
  then show ?thesis by (simp add: spec_page_def)
qed

lemma coherent_invalidated:
  assumes coh: "coherent s windows table e" and t: "touches table table' who art"
    and c: "counters_ok e who"
  shows "coherent s windows table' (invalidated e who art)"
proof -
  let ?h = "sha256_hex s"
  let ?e = "case art of None \<Rightarrow> e | Some i \<Rightarrow> e(article_key i := None)"
  have e: "?e k = e k" if "\<And>i. k \<noteq> article_key i" for k
    using that by (cases art) auto
  have gen_e: "generation ?e author = generation e author" for author
    by (cases art) simp_all
  have "counters_ok ?e who" using c by (simp add: counters_ok_def gen_e)
  then have gen: "generation (invalidated e who art) author =
      (if author = None \<or> author = Some who then generation e author + 1 else generation e author)"
    for author by (simp add: invalidated_def generation_bumped gen_e)
  have page: "invalidated e who art (list_key ?h g author l p) = e (list_key ?h g author l p)"
    for g author l p by (simp add: invalidated_def bumped_other e)
  have lock: "invalidated e who art (lock_key k) = e (lock_key k)" for k
    by (simp add: invalidated_def bumped_other e)
  have body: "invalidated e who art (article_key j) = (if Some j = art then None else e (article_key j))"
    for j by (cases art) (auto simp: invalidated_def bumped_other)
  have "coherent_articles s table' (invalidated e who art)"
    unfolding coherent_articles_def body
  proof (intro allI impI)
    fix i content
    assume a: "(if Some i = art then None else e (article_key i)) = Some content"
    then have i: "Some i \<noteq> art" "e (article_key i) = Some content" by (auto split: if_splits)
    with coh obtain x where x: "live_row table i = Some x"
      "validate_article_json (svc_codec s) content = Some (article_out_of x)"
      by (auto simp: coherent_def coherent_articles_def)
    with t i(1) have "live_row table' i = Some x" by (simp add: touches_def)
    with x(2) show "\<exists>a. live_row table' i = Some a
        \<and> validate_article_json (svc_codec s) content = Some (article_out_of a)" by blast
  qed
  moreover have "unlocked (invalidated e who art)"
    using coh by (simp add: coherent_def unlocked_def lock)
  moreover have "coherent_pages s windows table' (invalidated e who art)"
    unfolding coherent_pages_def
  proof (intro conjI allI impI)
    fix author l p content
    assume w: "(l, p) \<in> windows" and k: "invalidated e who art
        (list_key ?h (generation (invalidated e who art) author) author l p) = Some content"
    show "decode_page (svc_codec s) (Some content) = Inr (Some (spec_page table' l p author))"
    proof (cases "author = None \<or> author = Some who")
      case True
      then have "e (list_key ?h (generation e author + 1) author l p) = Some content"
        using k by (simp add: page gen)
      moreover have "e (list_key ?h (generation e author + 1) author l p) = None"
        using coh by (simp add: coherent_def coherent_pages_def)
      ultimately show ?thesis by simp
    next
      case False
      then obtain b where b: "author = Some b" "b \<noteq> who" by auto
      then have "e (list_key ?h (generation e author) author l p) = Some content"
        using k False by (simp add: page gen)
      with coh w have "decode_page (svc_codec s) (Some content) = Inr (Some (spec_page table l p author))"
        by (auto simp: coherent_def coherent_pages_def)
      with b spec_page_other_author [OF t b(2)] show ?thesis by simp
    qed
  next
    fix author g l p
    assume "generation (invalidated e who art) author < g"
    then have "generation e author < g" by (simp add: gen split: if_splits)
    then show "invalidated e who art (list_key ?h g author l p) = None"
      using coh by (simp add: page coherent_def coherent_pages_def)
  qed
  ultimately show ?thesis by (simp add: coherent_def)
qed

lemma invalidate_step:
  assumes "environment s db kv sv clock" and "up s w"
  shows "\<exists>v. invalidate s \<lparr>inv_article = art, inv_author = who\<rparr> w = (Inr (), v)
    \<and> read_step s db sv w v \<and> kv (request.more v) = invalidated (kv (request.more w)) who art"
proof -
  have bump: "\<exists>v. bump_generations (svc_redis s) (svc_policies s) (Some who) u = (Inr (), v)
      \<and> read_step s db sv u v \<and> kv (request.more v) = bumped (kv (request.more u)) who"
    if "up s u" for u
    using bump_ok [OF environmentD(2) [OF assms(1)], of u "svc_policies s" who] that
      untouched_read_step [OF _ that]
    unfolding up_def by blast
  show ?thesis
  proof (cases art)
    case None
    with bump [OF assms(2)] show ?thesis by (auto simp: invalidate_def invalidated_def)
  next
    case (Some i)
    obtain u where u: "invalidate_article (svc_redis s) (svc_policies s) i w = (Inr (), u)"
      "read_step s db sv w u" "kv (request.more u) = (kv (request.more w))(article_key i := None)"
      using delete_ok [OF environmentD(2) [OF assms(1)], of w "svc_policies s" "''delete''" "article_key i"]
        assms(2) untouched_read_step [OF _ assms(2)]
      unfolding up_def invalidate_article_def by blast
    then have "up s u" by (simp add: read_step_def)
    from bump [OF this] obtain v where v:
      "bump_generations (svc_redis s) (svc_policies s) (Some who) u = (Inr (), v)"
      "read_step s db sv u v" "kv (request.more v) = bumped (kv (request.more u)) who" by blast
    have "invalidate s \<lparr>inv_article = art, inv_author = who\<rparr> w = (Inr (), v)"
      using Some u(1) v(1) by (simp add: invalidate_def bind_cmd_def)
    with Some u(3) v(3) read_step_trans [OF u(2) v(2)] show ?thesis
      by (auto simp: invalidated_def)
  qed
qed


lemma filter_map_unlisted:
  assumes "\<forall>x \<in> set xs. P (f x) = P x \<and> (P x \<longrightarrow> f x = x)"
  shows "filter P (map f xs) = filter P xs"
  using assms by (induction xs) auto

lemma update_row_author [simp]: "author_id (update_row stamp q a) = author_id a"
  by (simp add: update_row_def Let_def)

lemma update_row_elsewhere:
  "upd_where q = cas_where i e \<Longrightarrow> art_id a \<noteq> i \<Longrightarrow> update_row stamp q a = a"
  by (simp add: update_row_def matches_cas)

lemma live_row_elsewhere:
  assumes "upd_where q = cas_where i e" and "j \<noteq> i"
  shows "live_row (update_effect stamp q table) j = live_row table j"
proof (induction table)
  case (Cons a table)
  then show ?case
    using assms by (cases "art_id a = i") (auto simp: live_row_def update_effect_def update_row_elsewhere)
qed (simp add: live_row_def update_effect_def)

lemma touches_update:
  assumes "distinct (map art_id table)" and "live_row table i = Some a" and "upd_where q = cas_where i e"
  shows "touches table (update_effect stamp q table) (author_id a) (Some i)"
proof -
  have "filter (listed (Some b)) (update_effect stamp q table) = filter (listed (Some b)) table"
    if b: "b \<noteq> author_id a" for b
    unfolding update_effect_def
  proof (rule filter_map_unlisted, rule ballI)
    fix x
    assume x: "x \<in> set table"
    show "listed (Some b) (update_row stamp q x) = listed (Some b) x
        \<and> (listed (Some b) x \<longrightarrow> update_row stamp q x = x)"
    proof (cases "art_id x = i")
      case False
      with assms(3) show ?thesis by (simp add: update_row_elsewhere)
    next
      case True
      with x live_row_Some [OF assms(2)] assms(1) have "x = a"
        by (auto simp: distinct_map dest: inj_onD)
      with b show ?thesis by (simp add: listed_def)
    qed
  qed
  then show ?thesis
    using assms live_row_elsewhere [OF assms(3)] by (auto simp: touches_def)
qed

lemma touches_create:
  assumes "distinct (map art_id table)" and "art_id a \<notin> art_id ` set table"
  shows "touches table (table @ [a]) (author_id a) None"
proof -
  have "find P (xs @ ys) = (case find P xs of None \<Rightarrow> find P ys | Some x \<Rightarrow> Some x)"
    for P :: "article \<Rightarrow> bool" and xs ys by (induction xs) auto
  with assms show ?thesis by (auto simp: touches_def listed_def live_row_def)
qed

text \<open>
  Storing what the table holds keeps the articles and the pages right, and with them coherence. A page
  may be stored under the generation it was read at or under an older one, which no reader asks for.
\<close>

lemma articles_put:
  assumes "coherent_articles s table e" and "live_row table i = Some a" and "codec_ok (svc_codec s)"
  shows "coherent_articles s table
    (e(article_key i \<mapsto> dump_article_json (svc_codec s) (article_out_of a)))"
proof -
  have "validate_article_json (svc_codec s) (dump_article_json (svc_codec s) (article_out_of a))
      = Some (article_out_of a)" using assms(3) by (simp add: codec_ok_def)
  then show ?thesis using assms(1,2) by (auto simp: coherent_articles_def)
qed

lemma pages_put:
  fixes author :: "int option"
  assumes coh: "coherent_pages s windows table e" and codec: "codec_ok (svc_codec s)"
    and cf: "collision_free (sha256_hex s) windows" and win: "(limit, after) \<in> windows"
    and g: "g \<le> generation e author"
  defines "result \<equiv> spec_page table limit after author"
  shows "coherent_pages s windows table
    (e(list_key (sha256_hex s) g author limit after
        \<mapsto> encode_page (svc_codec s) (fst result) (snd result)))"
proof -
  let ?k = "list_key (sha256_hex s) g author limit after"
  let ?e = "e(?k \<mapsto> encode_page (svc_codec s) (fst result) (snd result))"
  have same: "l = limit \<and> p = after \<and> x = author"
    if "list_key (sha256_hex s) g' x l p = ?k" and "(l, p) \<in> windows" for g' x l p
    using that cf win unfolding list_key_eq collision_free_def inj_on_def by fastforce
  show ?thesis
    unfolding coherent_pages_def generation_other
  proof (intro conjI allI impI)
    fix x l p content
    assume w: "(l, p) \<in> windows"
      and k: "?e (list_key (sha256_hex s) (generation e x) x l p) = Some content"
    show "decode_page (svc_codec s) (Some content) = Inr (Some (spec_page table l p x))"
    proof (cases "list_key (sha256_hex s) (generation e x) x l p = ?k")
      case True
      with same w have "l = limit" "p = after" "x = author" by blast+
      moreover from True k have "content = encode_page (svc_codec s) (fst result) (snd result)" by simp
      moreover have "decode_page (svc_codec s) (Some (encode_page (svc_codec s) (fst result) (snd result)))
          = Inr (Some result)" by (simp add: page_codec [OF codec])
      ultimately show ?thesis by (simp add: result_def)
    next
      case False
      with k w coh show ?thesis by (auto simp: coherent_pages_def)
    qed
  next
    fix x g' l p
    assume g': "generation e x < g'"
    then have "list_key (sha256_hex s) g' x l p \<noteq> ?k" using g by (auto simp: list_key_eq)
    then show "?e (list_key (sha256_hex s) g' x l p) = None"
      using coh g' by (simp add: coherent_pages_def)
  qed
qed

lemma coherent_put_article:
  assumes "coherent s windows table e" and "live_row table i = Some a" and "codec_ok (svc_codec s)"
  shows "coherent s windows table
    (e(article_key i \<mapsto> dump_article_json (svc_codec s) (article_out_of a)))"
  using assms articles_put [OF _ assms(2,3), of e]
  by (simp add: coherent_def coherent_pages_def unlocked_def)

lemma coherent_put_page:
  fixes author :: "int option"
  assumes coh: "coherent s windows table e" and codec: "codec_ok (svc_codec s)"
    and cf: "collision_free (sha256_hex s) windows" and win: "(limit, after) \<in> windows"
  defines "result \<equiv> spec_page table limit after author"
  shows "coherent s windows table
    (e(list_key (sha256_hex s) (generation e author) author limit after
        \<mapsto> encode_page (svc_codec s) (fst result) (snd result)))"
  using coh pages_put [OF _ codec cf win order_refl, of table e author]
  by (simp add: coherent_def coherent_articles_def unlocked_def result_def)

subsection \<open>Refinement\<close>

text \<open>C8. Reading through the cache refines reading the table: in a coherent state \<open>get\<close> answers
  exactly what the table holds, hit or miss, found or not, and leaves a coherent state over the same
  table, with the lock released.\<close>

theorem get_refines_table:
  assumes "environment s db kv sv clock" and "up s w"
    and "distinct (map art_id (db (request.more w)))"
    and "coherent s windows (db (request.more w)) (kv (request.more w))"
  shows "\<exists>v. get_article s i w =
      (case live_row (db (request.more w)) i of
         None \<Rightarrow> Inl not_found | Some a \<Rightarrow> Inr (article_out_of a), v)
    \<and> read_step s db sv w v \<and> coherent s windows (db (request.more v)) (kv (request.more v))"
proof -
  have c: "coherent_articles s (db (request.more w)) (kv (request.more w))"
    "unlocked (kv (request.more w))" using assms(4) by (simp_all add: coherent_def)
  obtain v where v: "get_article s i w = (case live_row (db (request.more w)) i of
         None \<Rightarrow> Inl not_found | Some a \<Rightarrow> Inr (article_out_of a), v)" "read_step s db sv w v"
      "kv (request.more v) = kv (request.more w)
       \<or> (\<exists>a. live_row (db (request.more w)) i = Some a \<and> kv (request.more v) = (kv (request.more w))
            (article_key i \<mapsto> dump_article_json (svc_codec s) (article_out_of a)))"
    using get_article_run [OF assms(1-3) c] by blast
  have "coherent s windows (db (request.more w)) (kv (request.more v))"
    using v(3) assms(4) coherent_put_article [OF assms(4) _ environmentD(3) [OF assms(1)]] by auto
  with v(1,2) show ?thesis by (auto simp: read_step_def)
qed

text \<open>Listing through the cache refines listing the table: in a coherent state \<open>list_articles\<close>
  answers the page, and the position of the next one, that the table gives, whatever was cached, and
  leaves a coherent state over the same table.\<close>

theorem list_refines_table:
  assumes "environment s db kv sv clock" and "up s w"
    and "distinct (map art_id (db (request.more w)))"
    and "coherent s windows (db (request.more w)) (kv (request.more w))"
    and "(limit, after) \<in> windows" and "collision_free (sha256_hex s) windows"
  shows "\<exists>v. list_articles s limit after author w
      = (Inr (spec_page (db (request.more w)) limit after author), v)
    \<and> read_step s db sv w v \<and> coherent s windows (db (request.more v)) (kv (request.more v))"
proof -
  let ?r = "spec_page (db (request.more w)) limit after author"
  have c: "coherent_pages s windows (db (request.more w)) (kv (request.more w))"
    "unlocked (kv (request.more w))" using assms(4) by (simp_all add: coherent_def)
  obtain v where v: "list_articles s limit after author w = (Inr ?r, v)" "read_step s db sv w v"
      "kv (request.more v) = kv (request.more w)
       \<or> kv (request.more v) = (kv (request.more w))
           (list_key (sha256_hex s) (generation (kv (request.more w)) author) author limit after
             \<mapsto> encode_page (svc_codec s) (fst ?r) (snd ?r))"
    using list_articles_run [OF assms(1-3) c assms(5), of author] by blast
  have "coherent s windows (db (request.more w)) (kv (request.more v))"
    using v(3) assms(4) coherent_put_page [OF assms(4) environmentD(3) [OF assms(1)] assms(6,5), of author]
    by auto
  with v(1,2) show ?thesis by (auto simp: read_step_def)
qed


text \<open>
  The transaction of a request: \<open>commit\<close> makes the table the committed one, \<open>rollback\<close> goes back to
  it; neither touches anything else.
\<close>

definition transaction ::
  "('m world, unit) command \<Rightarrow> ('m world, unit) command \<Rightarrow> ('m \<Rightarrow> article list)
   \<Rightarrow> ('m \<Rightarrow> string \<Rightarrow> string option) \<Rightarrow> ('m \<Rightarrow> article list) \<Rightarrow> bool" where
  "transaction commit rollback db kv sv \<longleftrightarrow>
     (\<forall>w. \<exists>w'. commit w = (Inr (), w') \<and> only_data kv w w'
        \<and> db (request.more w') = db (request.more w) \<and> sv (request.more w') = db (request.more w))
     \<and> (\<forall>w. \<exists>w'. rollback w = (Inr (), w') \<and> only_data kv w w'
        \<and> db (request.more w') = sv (request.more w) \<and> sv (request.more w') = sv (request.more w))"

lemma write_request:
  fixes handler :: "('m world, 'a) command"
  defines "begun \<equiv> \<lambda>w :: 'm world. w\<lparr>session_info := None\<rparr>"
  assumes env: "environment s db kv sv clock" and tr: "transaction commit rollback db kv sv"
    and up: "up s w" and coh: "coherent s windows (db (request.more w)) (kv (request.more w))"
    and run: "handler (begun w) = (Inr r, v)" and st: "settled s (\<lambda>m. (kv m, sv m)) (begun w) v"
    and q: "pending_after_commit v = [\<lparr>inv_article = art, inv_author = who\<rparr>]"
    and t: "touches (db (request.more w)) (db (request.more v)) who art"
    and c: "counters_ok (kv (request.more w)) who"
  shows "\<exists>z. get_session commit rollback (invalidate s) handler w = (Inr r, z)
    \<and> db (request.more z) = db (request.more v) \<and> sv (request.more z) = db (request.more v)
    \<and> up s z \<and> coherent s windows (db (request.more z)) (kv (request.more z))"
proof -
  from tr obtain v1 where v1: "commit v = (Inr (), v1)" "only_data kv v v1"
    "db (request.more v1) = db (request.more v)" "sv (request.more v1) = db (request.more v)"
    unfolding transaction_def by blast
  let ?v2 = "discard_after_commit v1"
  have m2: "request.more ?v2 = request.more v1" "breakers ?v2 = breakers v1" "cache ?v2 = cache v1"
    by (simp_all add: discard_after_commit_def)
  have kv1: "kv (request.more v1) = kv (request.more w)"
    using v1(2) st by (simp add: only_data_def kept_def settled_def begun_def)
  have up2: "up s ?v2"
    using up st v1(2)
    by (auto simp: up_def mysql_up_def redis_up_def usable_def settled_def only_data_def kept_def
        begun_def m2)
  from invalidate_step [OF env this, of art who] obtain z where
    z: "invalidate s \<lparr>inv_article = art, inv_author = who\<rparr> ?v2 = (Inr (), z)"
      "read_step s db sv ?v2 z"
      "kv (request.more z) = invalidated (kv (request.more w)) who art"
    by (auto simp: m2 kv1)
  have "pending_after_commit v1 = pending_after_commit v"
    using v1(2) by (simp add: only_data_def kept_def pending_after_commit_def)
  then have "drain_after_commit (invalidate s) v1 = (Inr (), z)"
    using q z(1) by (simp add: drain_after_commit_def)
  then have "get_session commit rollback (invalidate s) handler w = (Inr r, z)"
    using run v1(1) by (simp add: get_session_def begun_def bind_cmd_def)
  moreover have "coherent s windows (db (request.more z)) (kv (request.more z))"
    using coherent_invalidated [OF coh t c] z(2,3) v1(3) by (simp add: read_step_def m2)
  ultimately show ?thesis using z(2) v1(3,4) by (auto simp: read_step_def m2)
qed

lemma refused_request:
  assumes tr: "transaction commit rollback db kv sv" and base: "db (request.more w) = sv (request.more w)"
    and run: "handler (w\<lparr>session_info := None\<rparr>) = (Inl e, v)"
    and k: "kept (\<lambda>m. (kv m, sv m)) (w\<lparr>session_info := None\<rparr>) v"
  shows "\<exists>z. get_session commit rollback call handler w = (Inl e, z)
    \<and> db (request.more z) = db (request.more w) \<and> kv (request.more z) = kv (request.more w)"
proof -
  from tr obtain v1 where v1: "rollback v = (Inr (), v1)" "only_data kv v v1"
    "db (request.more v1) = sv (request.more v)"
    unfolding transaction_def by blast
  have "get_session commit rollback call handler w = (Inl e, discard_after_commit v1)"
    using run v1(1) by (simp add: get_session_def rollback_and_raise_def)
  moreover have "request.more (discard_after_commit v1) = request.more v1"
    by (simp add: discard_after_commit_def)
  ultimately show ?thesis using v1(2,3) k base by (auto simp: only_data_def kept_def)
qed

text \<open>C4. A write request is atomic and keeps the cache honest: around the whole \<open>PUT\<close>, from the
  opening of its transaction to the drain of its queue, either the verdict refuses it and neither the
  table nor the cache changes, or the one row is updated, the change is committed, and the cache is
  coherent with the new table: no reader that follows is served the old body or an old page.\<close>

theorem update_request_refines:
  assumes "environment s db kv sv clock" and "transaction commit rollback db kv sv" and "up s w"
    and "distinct (map art_id (db (request.more w)))" and "has_session s"
    and "db (request.more w) = sv (request.more w)"
    and "coherent s windows (db (request.more w)) (kv (request.more w))"
    and "\<forall>who. counters_ok (kv (request.more w)) who"
  shows "case write_verdict (db (request.more w)) actor i e of
      Inl err \<Rightarrow> \<exists>z. get_session commit rollback (invalidate s) (update s actor i t b e) w = (Inl err, z)
          \<and> db (request.more z) = db (request.more w) \<and> kv (request.more z) = kv (request.more w)
    | Inr a \<Rightarrow> \<exists>stamp z. get_session commit rollback (invalidate s) (update s actor i t b e) w
            = (Inr (article_out_of (update_row stamp (update_query i e t b) a)), z)
          \<and> db (request.more z) = update_effect stamp (update_query i e t b) (db (request.more w))
          \<and> sv (request.more z) = db (request.more z)
          \<and> up s z \<and> coherent s windows (db (request.more z)) (kv (request.more z))"
proof -
  let ?w0 = "w\<lparr>session_info := None\<rparr>"
  let ?q = "update_query i e t b"
  have w0: "mysql_up s ?w0" "request.more ?w0 = request.more w" "pending_after_commit ?w0 = []"
    using assms(3) by (simp_all add: up_def mysql_up_def pending_after_commit_def)
  note spec = update_run [OF environmentD(1) [OF assms(1)] w0(1), unfolded w0(2), OF assms(4),
      where actor = actor and i = i and e = e and t = t and b = b]
  show ?thesis
  proof (cases "write_verdict (db (request.more w)) actor i e")
    case (Inl err)
    with spec obtain v where "update s actor i t b e ?w0 = (Inl err, v)"
      "kept (\<lambda>m. (kv m, sv m)) ?w0 v" by auto
    from refused_request [where handler = "update s actor i t b e" and w = w, OF assms(2,6) this]
    show ?thesis unfolding Inl sum.case .
  next
    case (Inr a)
    have live: "live_row (db (request.more w)) i = Some a"
      using Inr by (auto simp: write_verdict_def split: option.splits if_splits)
    from spec obtain stamp v where v:
      "update s actor i t b e ?w0 = (Inr (article_out_of (update_row stamp ?q a)), v)"
      "db (request.more v) = update_effect stamp ?q (db (request.more w))"
      "pending_after_commit v = [\<lparr>inv_article = Some i, inv_author = author_id a\<rparr>]"
      "settled s (\<lambda>m. (kv m, sv m)) ?w0 v"
      unfolding Inr sum.case using assms(5) w0(3) by (auto simp: queued_def)
    have "touches (db (request.more w)) (db (request.more v)) (author_id a) (Some i)"
      unfolding v(2) by (rule touches_update [OF assms(4) live]) (simp add: update_query_def)
    from write_request [where handler = "update s actor i t b e" and w = w,
        OF assms(1-3,7) v(1,4,3) this] assms(8) v(2)
    show ?thesis unfolding Inr sum.case by auto
  qed
qed

text \<open>C5. A delete request is atomic and keeps the cache honest: around the whole \<open>DELETE\<close> either the
  verdict refuses it and neither the table nor the cache changes, or the one row is soft-deleted, the
  change is committed, no read finds the article any more, and the cache is coherent with the new
  table.\<close>

theorem delete_request_refines:
  assumes "environment s db kv sv clock" and "transaction commit rollback db kv sv" and "up s w"
    and "distinct (map art_id (db (request.more w)))" and "has_session s"
    and "db (request.more w) = sv (request.more w)"
    and "coherent s windows (db (request.more w)) (kv (request.more w))"
    and "\<forall>who. counters_ok (kv (request.more w)) who"
  shows "case write_verdict (db (request.more w)) actor i e of
      Inl err \<Rightarrow> \<exists>z. get_session commit rollback (invalidate s) (delete s actor i e) w = (Inl err, z)
          \<and> db (request.more z) = db (request.more w) \<and> kv (request.more z) = kv (request.more w)
    | Inr a \<Rightarrow> \<exists>stamp u z. get_session commit rollback (invalidate s) (delete s actor i e) w = (Inr (), z)
          \<and> db (request.more z) = update_effect stamp (soft_delete_query i e u) (db (request.more w))
          \<and> live_row (db (request.more z)) i = None \<and> sv (request.more z) = db (request.more z)
          \<and> up s z \<and> coherent s windows (db (request.more z)) (kv (request.more z))"
proof -
  let ?w0 = "w\<lparr>session_info := None\<rparr>"
  have w0: "mysql_up s ?w0" "request.more ?w0 = request.more w" "pending_after_commit ?w0 = []"
    using assms(3) by (simp_all add: up_def mysql_up_def pending_after_commit_def)
  note spec = delete_run [OF environmentD(1) [OF assms(1)] w0(1), unfolded w0(2), OF assms(4),
      where actor = actor and i = i and e = e]
  show ?thesis
  proof (cases "write_verdict (db (request.more w)) actor i e")
    case (Inl err)
    with spec obtain v where "delete s actor i e ?w0 = (Inl err, v)"
      "kept (\<lambda>m. (kv m, sv m)) ?w0 v" by auto
    from refused_request [where handler = "delete s actor i e" and w = w, OF assms(2,6) this]
    show ?thesis unfolding Inl sum.case .
  next
    case (Inr a)
    have live: "live_row (db (request.more w)) i = Some a"
      using Inr by (auto simp: write_verdict_def split: option.splits if_splits)
    from spec obtain stamp u v where v: "delete s actor i e ?w0 = (Inr (), v)"
      "db (request.more v) = update_effect stamp (soft_delete_query i e u) (db (request.more w))"
      "live_row (db (request.more v)) i = None"
      "pending_after_commit v = [\<lparr>inv_article = Some i, inv_author = author_id a\<rparr>]"
      "settled s (\<lambda>m. (kv m, sv m)) ?w0 v"
      unfolding Inr sum.case using assms(5) w0(3) by (auto simp: queued_def)
    have touches: "touches (db (request.more w)) (db (request.more v)) (author_id a) (Some i)"
      unfolding v(2) by (rule touches_update [OF assms(4) live]) (simp add: soft_delete_query_def)
    have "counters_ok (kv (request.more w)) (author_id a)" using assms(8) by blast
    from write_request [where handler = "delete s actor i e" and w = w,
        OF assms(1-3,7) v(1,5,4) touches this] obtain z where
      "get_session commit rollback (invalidate s) (delete s actor i e) w = (Inr (), z)"
      "db (request.more z) = db (request.more v)" "sv (request.more z) = db (request.more v)" "up s z"
      "coherent s windows (db (request.more z)) (kv (request.more z))" by blast
    with v(2,3) show ?thesis unfolding Inr sum.case by metis
  qed
qed

text \<open>C6. A create request is atomic and keeps the cache honest: the \<open>POST\<close> answers the one new row, under
  a fresh id and in the name of the caller, the row is committed, every other row is as it was, and the
  cache is coherent with the new table, so that the pages that must show it do.\<close>

theorem create_request_refines:
  assumes "environment s db kv sv clock" and "transaction commit rollback db kv sv" and "up s w"
    and "distinct (map art_id (db (request.more w)))" and "has_session s"
    and "coherent s windows (db (request.more w)) (kv (request.more w))"
    and "counters_ok (kv (request.more w)) (user_id actor)"
  shows "\<exists>a z. get_session commit rollback (invalidate s) (create s actor t b) w
        = (Inr (article_out_of a), z)
    \<and> db (request.more z) = db (request.more w) @ [a]
    \<and> art_id a \<notin> art_id ` set (db (request.more w)) \<and> author_id a = user_id actor
    \<and> title a = t \<and> body a = b \<and> deleted_at a = None \<and> sv (request.more z) = db (request.more z)
    \<and> up s z \<and> coherent s windows (db (request.more z)) (kv (request.more z))"
proof -
  let ?w0 = "w\<lparr>session_info := None\<rparr>"
  have w0: "mysql_up s ?w0" "request.more ?w0 = request.more w" "pending_after_commit ?w0 = []"
    using assms(3) by (simp_all add: up_def mysql_up_def pending_after_commit_def)
  from create_run [OF environmentD(1) [OF assms(1)] w0(1), unfolded w0(2), OF assms(4),
      where actor = actor and t = t and b = b] obtain a v where
    v: "create s actor t b ?w0 = (Inr (article_out_of a), v)"
      "db (request.more v) = db (request.more w) @ [a]"
      "art_id a \<notin> art_id ` set (db (request.more w))" "author_id a = user_id actor"
      "title a = t" "body a = b" "deleted_at a = None"
      "pending_after_commit v = [\<lparr>inv_article = None, inv_author = user_id actor\<rparr>]"
      "settled s (\<lambda>m. (kv m, sv m)) ?w0 v"
    using assms(5) w0(3) by (auto simp: queued_def)
  have "touches (db (request.more w)) (db (request.more v)) (user_id actor) None"
    unfolding v(2) v(4) [symmetric] by (rule touches_create [OF assms(4) v(3)])
  from write_request [where handler = "create s actor t b" and w = w,
      OF assms(1-3,6) v(1,9,8) this assms(7)] v(2-7)
  show ?thesis by (intro exI [of _ a]) auto
qed

end
