(* ===== verification/Interleaving.thy ===== *)
theory Interleaving
  imports Coherence
begin

text \<open>
  The requests of \<open>app/services/article_service.py\<close> run concurrently: any number of them, in any number
  of processes, over one database and one Redis. A step of the relation is one command of one request
  (a Redis command, a read of MySQL, the transaction of a write), or Redis dropping a key; between two
  commands of a request every other request may run. The commands are those of the service and of the
  cache themselves, run in any process whose dependencies answer.
\<close>

subsection \<open>Requests in flight\<close>

text \<open>What a read is after: the body of an article, or the page of a window under the generation the
  request has read.\<close>

datatype target =
    Body int
  | Page int "position option" "int option" int

fun target_key :: "'m world article_service \<Rightarrow> target \<Rightarrow> string" where
  "target_key s (Body i) = article_key i"
| "target_key s (Page limit after author g) = list_key (sha256_hex s) g author limit (cursor_parts after)"

text \<open>
  Where a request stands. A read: before its first \<open>GET\<close>, after a miss, polling for the winner, about
  to load (having won the lock or not), with the text to store, and with the lock still to release. A
  write: committed and about to drop the body, about to raise the first counter, about to raise the
  second.
\<close>

datatype thread =
    Idle
  | Looking target
  | Missed target
  | Waiting target
  | Loading target bool
  | Loaded target bool string
  | Stored target bool
  | Dropping invalidation
  | Bumping int
  | BumpingAuthor int

datatype write_op =
    Creating user string string
  | Updating user int string string datetime
  | Deleting user int datetime

fun run_write :: "'m world article_service \<Rightarrow> write_op \<Rightarrow> ('m world, unit) command" where
  "run_write s (Creating actor t b) = bind_cmd (create s actor t b) (\<lambda>_. return_cmd ())"
| "run_write s (Updating actor i t b e) = bind_cmd (update s actor i t b e) (\<lambda>_. return_cmd ())"
| "run_write s (Deleting actor i e) = delete s actor i e"

text \<open>What a cached text is good for: it answers the read (a page that cannot be decoded at all ends
  the request with the error), or it counts as a miss.\<close>

fun answers_read :: "codec \<Rightarrow> target \<Rightarrow> string option \<Rightarrow> bool" where
  "answers_read c (Body i) raw = (decode_article c raw \<noteq> None)"
| "answers_read c (Page l p a g) raw = (decode_page c raw \<noteq> Inr None)"

text \<open>One command of a request, in a process whose dependencies answer.\<close>

definition runs ::
  "'m world article_service \<Rightarrow> ('m world, 'a) command \<Rightarrow> 'm \<Rightarrow> exn + 'a \<Rightarrow> 'm \<Rightarrow> bool" where
  "runs s cmd m r m' \<longleftrightarrow>
     (\<exists>w v. request.more w = m \<and> up s w \<and> cmd w = (r, v) \<and> request.more v = m')"

text \<open>The transaction of a write, with the one invalidation it leaves to run.\<close>

definition commits ::
  "'m world article_service \<Rightarrow> ('m world, unit) command \<Rightarrow> write_op \<Rightarrow> 'm \<Rightarrow> invalidation \<Rightarrow> 'm \<Rightarrow> bool"
  where
  "commits s commit op m job m' \<longleftrightarrow>
     (\<exists>w v v'. request.more w = m \<and> up s w \<and> session_info w = None
        \<and> run_write s op w = (Inr (), v) \<and> commit v = (Inr (), v')
        \<and> pending_after_commit v' = [job] \<and> request.more v' = m')"

definition counter_ok :: "(string \<rightharpoonup> string) \<Rightarrow> string \<Rightarrow> bool" where
  "counter_ok e k \<longleftrightarrow> 0 \<le> as_int (e k) \<and> as_int (e k) < 10 ^ 19"

subsection \<open>The steps\<close>

text \<open>\<open>windows\<close> are the page windows the clients ask for. \<open>INCR\<close> is run on counters in range.\<close>

inductive cluster_step ::
  "'m world article_service \<Rightarrow> ('m world, unit) command \<Rightarrow> ('m \<Rightarrow> article list)
   \<Rightarrow> ('m \<Rightarrow> string \<Rightarrow> string option) \<Rightarrow> ('m \<Rightarrow> 's) \<Rightarrow> (int \<times> position option) set
   \<Rightarrow> 'm \<times> (nat \<Rightarrow> thread) \<Rightarrow> 'm \<times> (nat \<Rightarrow> thread) \<Rightarrow> bool"
  for s commit db kv sv windows where
  ask_body: "ts j = Idle \<Longrightarrow>
    cluster_step s commit db kv sv windows (m, ts) (m, ts(j := Looking (Body i)))"
| ask_page: "ts j = Idle \<Longrightarrow> (limit, after) \<in> windows \<Longrightarrow>
    runs s (get_generations (svc_redis s) (svc_policies s) author) m (Inr (gg, ga)) m' \<Longrightarrow>
    cluster_step s commit db kv sv windows (m, ts)
      (m', ts(j := Looking (Page limit after author (if author \<noteq> None then ga else gg))))"
| hit: "ts j = Looking tgt \<or> ts j = Waiting tgt \<Longrightarrow>
    runs s (peek (svc_redis s) (svc_policies s) (target_key s tgt)) m (Inr raw) m' \<Longrightarrow>
    answers_read (svc_codec s) tgt raw \<Longrightarrow>
    cluster_step s commit db kv sv windows (m, ts) (m', ts(j := Idle))"
| miss: "ts j = Looking tgt \<Longrightarrow>
    runs s (peek (svc_redis s) (svc_policies s) (target_key s tgt)) m (Inr raw) m' \<Longrightarrow>
    \<not> answers_read (svc_codec s) tgt raw \<Longrightarrow>
    cluster_step s commit db kv sv windows (m, ts) (m', ts(j := Missed tgt))"
| lock: "ts j = Missed tgt \<Longrightarrow>
    runs s (acquire_lock (svc_redis s) (svc_policies s) (target_key s tgt) (lock_ttl s)) m (Inr won) m' \<Longrightarrow>
    cluster_step s commit db kv sv windows (m, ts)
      (m', ts(j := (if won then Loading tgt True else Waiting tgt)))"
| give_up: "ts j = Waiting tgt \<Longrightarrow>
    cluster_step s commit db kv sv windows (m, ts) (m, ts(j := Loading tgt False))"
| load_body: "ts j = Loading (Body i) won \<Longrightarrow> runs s (load s i) m (Inr a) m' \<Longrightarrow>
    cluster_step s commit db kv sv windows (m, ts)
      (m', ts(j := Loaded (Body i) won (dump_article_json (svc_codec s) (article_out_of a))))"
| load_nothing: "ts j = Loading (Body i) won \<Longrightarrow> runs s (load s i) m (Inl e) m' \<Longrightarrow>
    cluster_step s commit db kv sv windows (m, ts) (m', ts(j := Stored (Body i) won))"
| load_page: "ts j = Loading (Page limit after author g) won \<Longrightarrow>
    runs s (load_page s limit after author) m (Inr (page, next_after)) m' \<Longrightarrow>
    cluster_step s commit db kv sv windows (m, ts)
      (m', ts(j := Loaded (Page limit after author g) won (encode_page (svc_codec s) page next_after)))"
| store: "ts j = Loaded tgt won content \<Longrightarrow>
    runs s (cache_set (svc_redis s) (svc_policies s) (target_key s tgt) content ttl) m (Inr ()) m' \<Longrightarrow>
    cluster_step s commit db kv sv windows (m, ts) (m', ts(j := Stored tgt won))"
| release: "ts j = Stored tgt True \<Longrightarrow>
    runs s (release_lock (svc_redis s) (svc_policies s) (target_key s tgt)) m (Inr ()) m' \<Longrightarrow>
    cluster_step s commit db kv sv windows (m, ts) (m', ts(j := Idle))"
| leave: "ts j = Stored tgt False \<Longrightarrow>
    cluster_step s commit db kv sv windows (m, ts) (m, ts(j := Idle))"
| transact: "ts j = Idle \<Longrightarrow> commits s commit op m job m' \<Longrightarrow>
    cluster_step s commit db kv sv windows (m, ts) (m', ts(j := Dropping job))"
| drop_body: "ts j = Dropping \<lparr>inv_article = Some i, inv_author = who\<rparr> \<Longrightarrow>
    runs s (invalidate_article (svc_redis s) (svc_policies s) i) m (Inr ()) m' \<Longrightarrow>
    cluster_step s commit db kv sv windows (m, ts) (m', ts(j := Bumping who))"
| drop_nothing: "ts j = Dropping \<lparr>inv_article = None, inv_author = who\<rparr> \<Longrightarrow>
    cluster_step s commit db kv sv windows (m, ts) (m, ts(j := Bumping who))"
| bump: "ts j = Bumping who \<Longrightarrow> counter_ok (kv m) generation_key \<Longrightarrow>
    runs s (redis_incr (svc_redis s) generation_key) m (Inr n) m' \<Longrightarrow>
    cluster_step s commit db kv sv windows (m, ts) (m', ts(j := BumpingAuthor who))"
| bump_author: "ts j = BumpingAuthor who \<Longrightarrow> counter_ok (kv m) (author_generation_key who) \<Longrightarrow>
    runs s (redis_incr (svc_redis s) (author_generation_key who)) m (Inr n) m' \<Longrightarrow>
    cluster_step s commit db kv sv windows (m, ts) (m', ts(j := Idle))"
| expire: "\<forall>author. k \<noteq> generation_key \<and> k \<noteq> author_generation_key author \<Longrightarrow>
    kv m' = (kv m)(k := None) \<Longrightarrow> db m' = db m \<Longrightarrow> sv m' = sv m \<Longrightarrow>
    cluster_step s commit db kv sv windows (m, ts) (m', ts)"

text \<open>The states that requests can bring about, starting from none in flight.\<close>

inductive cluster_reach ::
  "'m world article_service \<Rightarrow> ('m world, unit) command \<Rightarrow> ('m \<Rightarrow> article list)
   \<Rightarrow> ('m \<Rightarrow> string \<Rightarrow> string option) \<Rightarrow> ('m \<Rightarrow> 's) \<Rightarrow> (int \<times> position option) set
   \<Rightarrow> 'm \<Rightarrow> 'm \<times> (nat \<Rightarrow> thread) \<Rightarrow> bool"
  for s commit db kv sv windows m0 where
  calm: "cluster_reach s commit db kv sv windows m0 (m0, \<lambda>_. Idle)"
| progress: "cluster_reach s commit db kv sv windows m0 c \<Longrightarrow>
    cluster_step s commit db kv sv windows c c' \<Longrightarrow>
    cluster_reach s commit db kv sv windows m0 c'"

subsection \<open>The invariant\<close>

text \<open>The writes committed whose invalidation has not reached the counter of \<open>author\<close>.\<close>

fun affects :: "thread \<Rightarrow> int option \<Rightarrow> bool" where
  "affects (Dropping job) author = (author = None \<or> author = Some (inv_author job))"
| "affects (Bumping who) author = (author = None \<or> author = Some who)"
| "affects (BumpingAuthor who) author = (author = Some who)"
| "affects _ author = False"

lemma affects_reader [simp]:
  "affects Idle = (\<lambda>_. False)" "affects (Looking tgt) = (\<lambda>_. False)"
  "affects (Missed tgt) = (\<lambda>_. False)" "affects (Waiting tgt) = (\<lambda>_. False)"
  "affects (Loading tgt won) = (\<lambda>_. False)" "affects (Loaded tgt won content) = (\<lambda>_. False)"
  "affects (Stored tgt won) = (\<lambda>_. False)"
  "affects (Dropping job) = affects (Bumping (inv_author job))"
  by (simp_all add: fun_eq_iff)

definition awaited :: "(nat \<Rightarrow> thread) \<Rightarrow> int option \<Rightarrow> bool" where
  "awaited ts author \<longleftrightarrow> (\<exists>j. affects (ts j) author)"

fun pursued :: "thread \<Rightarrow> target option" where
  "pursued (Looking tgt) = Some tgt"
| "pursued (Missed tgt) = Some tgt"
| "pursued (Waiting tgt) = Some tgt"
| "pursued (Loading tgt won) = Some tgt"
| "pursued (Loaded tgt won content) = Some tgt"
| "pursued (Stored tgt won) = Some tgt"
| "pursued _ = None"

fun held_lock :: "'m world article_service \<Rightarrow> thread \<Rightarrow> string option" where
  "held_lock s (Loading tgt True) = Some (target_key s tgt)"
| "held_lock s (Loaded tgt True content) = Some (target_key s tgt)"
| "held_lock s (Stored tgt True) = Some (target_key s tgt)"
| "held_lock s _ = None"

text \<open>A read of a page asks for a window in use under a generation that has been; what it has loaded
  under the current one is fresh, unless a write is to be waited for.\<close>

definition sane ::
  "'m world article_service \<Rightarrow> (int \<times> position option) set \<Rightarrow> (int option \<Rightarrow> bool) \<Rightarrow> article list
   \<Rightarrow> (string \<rightharpoonup> string) \<Rightarrow> thread \<Rightarrow> bool" where
  "sane s windows waits table e th \<longleftrightarrow>
     (\<forall>l p a g. pursued th = Some (Page l p a g) \<longrightarrow> (l, p) \<in> windows \<and> g \<le> generation e a)
     \<and> (\<forall>l p a g won content. th = Loaded (Page l p a g) won content \<longrightarrow> g = generation e a \<longrightarrow> \<not> waits a \<longrightarrow>
          decode_page (svc_codec s) (Some content) = Inr (Some (spec_page table l p a)))"

definition fresh_pages ::
  "'m world article_service \<Rightarrow> (int \<times> position option) set \<Rightarrow> (int option \<Rightarrow> bool) \<Rightarrow> article list
   \<Rightarrow> (string \<rightharpoonup> string) \<Rightarrow> bool" where
  "fresh_pages s windows waits table e \<longleftrightarrow>
     (\<forall>author l p content. (l, p) \<in> windows \<longrightarrow> \<not> waits author \<longrightarrow>
        e (list_key (sha256_hex s) (generation e author) author l p) = Some content \<longrightarrow>
        decode_page (svc_codec s) (Some content) = Inr (Some (spec_page table l p author)))"

definition none_beyond :: "'m world article_service \<Rightarrow> (string \<rightharpoonup> string) \<Rightarrow> bool" where
  "none_beyond s e \<longleftrightarrow>
     (\<forall>author g l p. generation e author < g \<longrightarrow> e (list_key (sha256_hex s) g author l p) = None)"

definition locks_held :: "'m world article_service \<Rightarrow> (string \<rightharpoonup> string) \<Rightarrow> (nat \<Rightarrow> thread) \<Rightarrow> bool" where
  "locks_held s e ts \<longleftrightarrow> (\<forall>k. e (lock_key k) \<noteq> None \<longrightarrow> (\<exists>j. held_lock s (ts j) = Some k))"

definition cluster_inv ::
  "'m world article_service \<Rightarrow> (int \<times> position option) set \<Rightarrow> article list \<Rightarrow> (string \<rightharpoonup> string)
   \<Rightarrow> (nat \<Rightarrow> thread) \<Rightarrow> bool" where
  "cluster_inv s windows table e ts \<longleftrightarrow>
     distinct (map art_id table)
     \<and> fresh_pages s windows (awaited ts) table e \<and> none_beyond s e
     \<and> (\<forall>j. sane s windows (awaited ts) table e (ts j)) \<and> locks_held s e ts"

lemma awaited_upd: "affects th = affects (ts j) \<Longrightarrow> awaited (ts(j := th)) = awaited ts"
  by (rule ext) (auto simp: awaited_def)

text \<open>A step that raises no counter, changes no table and stores no page keeps it.\<close>

lemma inv_move:
  assumes inv: "cluster_inv s windows table e ts"
    and gen: "\<And>a. generation e' a = generation e a"
    and pages: "\<And>g a l p. e' (list_key (sha256_hex s) g a l p) = e (list_key (sha256_hex s) g a l p)
        \<or> e' (list_key (sha256_hex s) g a l p) = None"
    and aff: "affects th = affects (ts j)"
    and th: "sane s windows (awaited ts) table e th"
    and locks: "\<And>k. e' (lock_key k) \<noteq> None \<Longrightarrow>
        held_lock s th = Some k \<or> e (lock_key k) \<noteq> None \<and> held_lock s (ts j) \<noteq> Some k"
  shows "cluster_inv s windows table e' (ts(j := th))"
proof -
  note aw = awaited_upd [where ts = ts and j = j, OF aff]
  have sane: "sane s windows w table e' = sane s windows w table e" for w
    by (simp add: sane_def gen fun_eq_iff)
  have "fresh_pages s windows (awaited ts) table e'"
    unfolding fresh_pages_def gen
  proof (intro allI impI)
    fix author l p content
    assume a: "(l, p) \<in> windows" "\<not> awaited ts author"
      "e' (list_key (sha256_hex s) (generation e author) author l p) = Some content"
    then have "e (list_key (sha256_hex s) (generation e author) author l p) = Some content"
      using pages [of "generation e author" author l p] by simp
    with a inv show "decode_page (svc_codec s) (Some content) = Inr (Some (spec_page table l p author))"
      by (simp add: cluster_inv_def fresh_pages_def)
  qed
  moreover have "none_beyond s e'"
    unfolding none_beyond_def gen
  proof (intro allI impI)
    fix author g l p
    assume "generation e author < g"
    with inv have "e (list_key (sha256_hex s) g author l p) = None"
      by (simp add: cluster_inv_def none_beyond_def)
    with pages [of g author l p] show "e' (list_key (sha256_hex s) g author l p) = None" by simp
  qed
  moreover have "locks_held s e' (ts(j := th))"
    unfolding locks_held_def
  proof (intro allI impI)
    fix k
    assume "e' (lock_key k) \<noteq> None"
    from locks [OF this] show "\<exists>i. held_lock s ((ts(j := th)) i) = Some k"
    proof
      assume "held_lock s th = Some k"
      then show ?thesis by (intro exI [of _ j]) simp
    next
      assume o: "e (lock_key k) \<noteq> None \<and> held_lock s (ts j) \<noteq> Some k"
      with inv obtain i where "held_lock s (ts i) = Some k"
        unfolding cluster_inv_def locks_held_def by blast
      with o show ?thesis by (intro exI [of _ i]) auto
    qed
  qed
  ultimately show ?thesis
    using inv th unfolding cluster_inv_def aw sane by simp
qed

text \<open>Storing what a read has loaded keeps it: under the current generation the page is fresh, under an
  older one nobody looks.\<close>

lemma inv_store:
  assumes inv: "cluster_inv s windows table e ts" and th: "ts j = Loaded tgt won content"
    and cf: "collision_free (sha256_hex s) windows"
  shows "cluster_inv s windows table (e(target_key s tgt \<mapsto> content)) (ts(j := Stored tgt won))"
proof -
  let ?e = "e(target_key s tgt \<mapsto> content)"
  have aw: "awaited (ts(j := Stored tgt won)) = awaited ts"
    by (rule awaited_upd) (simp add: th fun_eq_iff)
  have gen: "generation ?e a = generation e a" for a
    by (cases a; cases tgt) (simp_all add: generation_def)
  have sane: "sane s windows w table ?e = sane s windows w table e" for w
    by (simp add: sane_def gen fun_eq_iff)
  have j: "sane s windows (awaited ts) table e (ts j)" using inv by (simp add: cluster_inv_def)
  have "sane s windows (awaited ts) table e (Stored tgt won)"
    using j by (simp add: sane_def th)
  moreover have "fresh_pages s windows (awaited ts) table ?e"
    unfolding fresh_pages_def gen
  proof (intro allI impI)
    fix author l p text'
    let ?k = "list_key (sha256_hex s) (generation e author) author l p"
    assume a: "(l, p) \<in> windows" "\<not> awaited ts author" "?e ?k = Some text'"
    show "decode_page (svc_codec s) (Some text') = Inr (Some (spec_page table l p author))"
    proof (cases "?k = target_key s tgt")
      case False
      with a inv show ?thesis by (simp add: cluster_inv_def fresh_pages_def)
    next
      case True
      then obtain l' p' a' g' where t: "tgt = Page l' p' a' g'" by (cases tgt) auto
      with True have k: "generation e author = g'" "author = a'"
        "filter_hash (sha256_hex s) l p = filter_hash (sha256_hex s) l' p'"
        by (auto simp: list_key_eq)
      from j t have w: "(l', p') \<in> windows" by (simp add: sane_def th)
      with cf a(1) k(3) have "l = l'" "p = p'"
        unfolding collision_free_def inj_on_def by fastforce+
      with j t k a(2) True a(3) show ?thesis by (simp add: sane_def th)
    qed
  qed
  moreover have "none_beyond s ?e"
    unfolding none_beyond_def gen
  proof (intro allI impI)
    fix author g l p
    assume g: "generation e author < g"
    have "list_key (sha256_hex s) g author l p \<noteq> target_key s tgt"
    proof
      assume eq: "list_key (sha256_hex s) g author l p = target_key s tgt"
      then obtain l' p' a' g' where t: "tgt = Page l' p' a' g'" by (cases tgt) auto
      with eq have "g = g'" "author = a'" by (simp_all add: list_key_eq)
      with j t g show False by (simp add: sane_def th)
    qed
    with inv g show "?e (list_key (sha256_hex s) g author l p) = None"
      by (simp add: cluster_inv_def none_beyond_def)
  qed
  moreover have "locks_held s ?e (ts(j := Stored tgt won))"
    unfolding locks_held_def
  proof (intro allI impI)
    fix k
    assume "?e (lock_key k) \<noteq> None"
    then have "e (lock_key k) \<noteq> None" by (cases tgt) auto
    with inv obtain i where i: "held_lock s (ts i) = Some k"
      unfolding cluster_inv_def locks_held_def by blast
    have "held_lock s (Stored tgt won) = held_lock s (ts j)" by (cases won) (simp_all add: th)
    with i show "\<exists>i. held_lock s ((ts(j := Stored tgt won)) i) = Some k"
      by (intro exI [of _ i]) auto
  qed
  ultimately show ?thesis
    using inv unfolding cluster_inv_def aw sane by simp
qed

text \<open>A commit makes pages stale only for the authors whose counters its own invalidation will raise.\<close>

lemma inv_commit:
  assumes inv: "cluster_inv s windows table e ts" and idle: "ts j = Idle"
    and t: "touches table table' (inv_author job) (inv_article job)"
  shows "cluster_inv s windows table' e (ts(j := Dropping job))"
proof -
  let ?ts = "ts(j := Dropping job)"
  have aw: "awaited ?ts a \<longleftrightarrow> awaited ts a \<or> a = None \<or> a = Some (inv_author job)" for a
    unfolding awaited_def using idle by (auto split: if_splits) (metis affects.simps(4))
  have same: "spec_page table' l p a = spec_page table l p a" if "\<not> awaited ?ts a" for l p a
  proof -
    from that aw obtain b where "a = Some b" "b \<noteq> inv_author job" by (cases a) auto
    with spec_page_other_author [OF t] show ?thesis by simp
  qed
  have "fresh_pages s windows (awaited ?ts) table' e"
    using inv same by (simp add: cluster_inv_def fresh_pages_def aw)
  moreover have "sane s windows (awaited ?ts) table' e (?ts i)" for i
  proof (cases "i = j")
    case True
    then show ?thesis by (simp add: sane_def)
  next
    case False
    with inv have "sane s windows (awaited ts) table e (?ts i)" by (simp add: cluster_inv_def)
    with same show ?thesis by (simp add: sane_def aw)
  qed
  moreover have "locks_held s e ?ts"
    unfolding locks_held_def
  proof (intro allI impI)
    fix k
    assume "e (lock_key k) \<noteq> None"
    with inv obtain i where "held_lock s (ts i) = Some k"
      unfolding cluster_inv_def locks_held_def by blast
    with idle show "\<exists>i. held_lock s (?ts i) = Some k" by (intro exI [of _ i]) auto
  qed
  ultimately show ?thesis
    using inv t by (simp add: cluster_inv_def touches_def)
qed

text \<open>Raising a counter makes every page stored so far unreachable, and no page of the new generation
  exists.\<close>

lemma inv_raise:
  assumes inv: "cluster_inv s windows table e ts"
    and gen: "\<And>a. generation e' a = (if a = x then generation e a + 1 else generation e a)"
    and pages: "\<And>g a l p. e' (list_key (sha256_hex s) g a l p) = e (list_key (sha256_hex s) g a l p)"
    and locks: "\<And>k. e' (lock_key k) = e (lock_key k)"
    and aff: "\<And>a. affects th a \<longleftrightarrow> affects (ts j) a \<and> a \<noteq> x"
    and free: "pursued th = None" "held_lock s (ts j) = None"
  shows "cluster_inv s windows table e' (ts(j := th))"
proof -
  let ?ts = "ts(j := th)"
  have aw: "awaited ?ts a \<longleftrightarrow> awaited ts a" if "a \<noteq> x" for a
    using aff [of a] that by (auto simp: awaited_def)
  have beyond: "e (list_key (sha256_hex s) g a l p) = None" if "generation e a < g" for g a l p
    using inv that by (simp add: cluster_inv_def none_beyond_def)
  have "fresh_pages s windows (awaited ?ts) table e'"
    unfolding fresh_pages_def
  proof (intro allI impI)
    fix author l p content
    assume a: "(l, p) \<in> windows" "\<not> awaited ?ts author"
      "e' (list_key (sha256_hex s) (generation e' author) author l p) = Some content"
    show "decode_page (svc_codec s) (Some content) = Inr (Some (spec_page table l p author))"
    proof (cases "author = x")
      case True
      with a(3) beyond [of author "generation e author + 1" l p] show ?thesis
        by (simp add: pages gen)
    next
      case False
      with a aw [OF False] inv show ?thesis by (simp add: pages gen cluster_inv_def fresh_pages_def)
    qed
  qed
  moreover have "none_beyond s e'"
    using beyond unfolding none_beyond_def pages gen by (simp split: if_splits)
  moreover have "sane s windows (awaited ?ts) table e' (?ts i)" for i
  proof (cases "i = j")
    case True
    with free(1) show ?thesis by (auto simp: sane_def)
  next
    case False
    with inv have old: "sane s windows (awaited ts) table e (ts i)" by (simp add: cluster_inv_def)
    have "(l, p) \<in> windows \<and> g \<le> generation e' a" if "pursued (ts i) = Some (Page l p a g)" for l p a g
      using old that unfolding sane_def gen by fastforce
    moreover have "decode_page (svc_codec s) (Some content) = Inr (Some (spec_page table l p a))"
      if t: "ts i = Loaded (Page l p a g) won content" "g = generation e' a" "\<not> awaited ?ts a"
      for l p a g won content
    proof (cases "a = x")
      case True
      from old t(1) have "g \<le> generation e a" by (simp add: sane_def)
      with True t(2) show ?thesis by (simp add: gen)
    next
      case False
      with t aw [OF False] old show ?thesis by (simp add: sane_def gen)
    qed
    ultimately show ?thesis using False by (simp add: sane_def)
  qed
  moreover have "locks_held s e' ?ts"
    unfolding locks_held_def locks
  proof (intro allI impI)
    fix k
    assume "e (lock_key k) \<noteq> None"
    with inv obtain i where "held_lock s (ts i) = Some k"
      unfolding cluster_inv_def locks_held_def by blast
    with free(2) show "\<exists>i. held_lock s (?ts i) = Some k" by (intro exI [of _ i]) auto
  qed
  ultimately show ?thesis
    using inv by (simp add: cluster_inv_def)
qed

lemma generation_global_raised:
  assumes "counter_ok e generation_key"
  shows "generation (e(generation_key \<mapsto> str_int (as_int (e generation_key) + 1))) a
    = (if a = None then generation e a + 1 else generation e a)"
  using assms by (cases a) (auto simp: generation_def counter_ok_def as_int_counter)

lemma generation_author_raised:
  assumes "counter_ok e (author_generation_key who)"
  shows "generation (e(author_generation_key who
      \<mapsto> str_int (as_int (e (author_generation_key who)) + 1))) a
    = (if a = Some who then generation e a + 1 else generation e a)"
  using assms by (cases a) (auto simp: generation_def counter_ok_def as_int_counter)

subsection \<open>What the commands do\<close>

text \<open>What a command answers, and does to the keys, run on \<open>m\<close> in any process that is up.\<close>

definition does ::
  "'m world article_service \<Rightarrow> ('m \<Rightarrow> article list) \<Rightarrow> ('m \<Rightarrow> 's) \<Rightarrow> ('m \<Rightarrow> string \<Rightarrow> string option)
   \<Rightarrow> ('m world, 'a) command \<Rightarrow> 'm \<Rightarrow> exn + 'a \<Rightarrow> (string \<rightharpoonup> string) \<Rightarrow> bool" where
  "does s db sv kv cmd m r e \<longleftrightarrow>
     (\<forall>w. up s w \<longrightarrow> request.more w = m \<longrightarrow>
        (\<exists>v. cmd w = (r, v) \<and> read_step s db sv w v \<and> kv (request.more v) = e))"

lemma doesI:
  "(\<And>w. up s w \<Longrightarrow> request.more w = m \<Longrightarrow>
      \<exists>v. cmd w = (r, v) \<and> read_step s db sv w v \<and> kv (request.more v) = e) \<Longrightarrow>
   does s db sv kv cmd m r e"
  by (simp add: does_def)

lemma runs_step:
  assumes "does s db sv kv cmd m r' e" and "runs s cmd m r m'"
  shows "r = r' \<and> db m' = db m \<and> kv m' = e"
proof -
  from assms(2) obtain w v where w: "request.more w = m" "up s w" "cmd w = (r, v)"
    "request.more v = m'" unfolding runs_def by blast
  with assms(1) obtain v' where "cmd w = (r', v')" "read_step s db sv w v'"
    "kv (request.more v') = e" unfolding does_def by blast
  with w show ?thesis by (simp add: read_step_def)
qed

lemma up_anywhere: "up s w \<Longrightarrow> up s (w\<lparr>session_info := None, request.more := m\<rparr>)"
  by (simp add: up_def mysql_up_def redis_up_def usable_def)

lemma can_run:
  assumes "does s db sv kv cmd m r e" and "up s w0"
  shows "\<exists>m'. runs s cmd m r m' \<and> db m' = db m \<and> sv m' = sv m \<and> kv m' = e"
proof -
  let ?w = "w0\<lparr>session_info := None, request.more := m\<rparr>"
  have "up s ?w" "request.more ?w = m" using up_anywhere [OF assms(2)] by simp_all
  with assms(1) obtain v where v: "cmd ?w = (r, v)" "read_step s db sv ?w v"
    "kv (request.more v) = e" unfolding does_def by blast
  have "runs s cmd m r (request.more v)"
    unfolding runs_def using \<open>up s ?w\<close> \<open>request.more ?w = m\<close> v(1) by blast
  with v show ?thesis by (auto simp: read_step_def)
qed

lemma runs_generations:
  assumes "environment s db kv sv clock"
    and "runs s (get_generations (svc_redis s) (svc_policies s) author) m (Inr (gg, ga)) m'"
  shows "(if author \<noteq> None then ga else gg) = generation (kv m) author \<and> db m' = db m \<and> kv m' = kv m"
proof -
  from assms(2) obtain w v where w: "request.more w = m" "up s w"
    "get_generations (svc_redis s) (svc_policies s) author w = (Inr (gg, ga), v)"
    "request.more v = m'" unfolding runs_def by blast
  from get_generations_step [OF assms(1) w(2), of author] w(3) obtain v' gg' ga' where
    "(Inr (gg, ga) :: exn + int \<times> int, v) = (Inr (gg', ga'), v')"
    "(if author \<noteq> None then ga' else gg') = generation (kv (request.more w)) author"
    "read_step s db sv w v'" "kv (request.more v') = kv (request.more w)" by metis
  with w(1,4) show ?thesis by (auto simp: read_step_def)
qed

lemma touches_distinct: "touches table table' who art \<Longrightarrow> distinct (map art_id table')"
  by (simp add: touches_def)

text \<open>A write that goes through, one of the three: the change it makes and the invalidation it queues.\<close>

lemma run_write_change:
  assumes env: "environment s db kv sv clock" and "has_session s" and "up s w"
    and ids: "distinct (map art_id (db (request.more w)))" and fresh: "session_info w = None"
    and run: "run_write s op w = (Inr (), v)"
  shows "\<exists>job. pending_after_commit v = [job] \<and> kv (request.more v) = kv (request.more w)
    \<and> touches (db (request.more w)) (db (request.more v)) (inv_author job) (inv_article job)"
proof -
  have my: "mysql_up s w" using assms(3) by (simp add: up_def)
  have none: "pending_after_commit w = []" using fresh by (simp add: pending_after_commit_def)
  note sv = environmentD(1) [OF env]
  have q: "queued s who art = [\<lparr>inv_article = art, inv_author = who\<rparr>]" for who art
    using assms(2) by (simp add: queued_def)
  let ?T = "db (request.more w)"
  show ?thesis
  proof (cases op)
    case (Creating actor t b)
    obtain a u where u: "create s actor t b w = (Inr (article_out_of a), u)"
      "db (request.more u) = ?T @ [a]" "art_id a \<notin> art_id ` set ?T" "author_id a = user_id actor"
      "pending_after_commit u = queued s (user_id actor) None" "settled s (\<lambda>m. (kv m, sv m)) w u"
      using create_run [OF sv my ids, of actor t b] none by auto
    with run Creating have "u = v" by (simp add: bind_cmd_def)
    with u touches_create [OF ids u(3)] show ?thesis by (auto simp: q settled_def)
  next
    case (Updating actor i t b e)
    let ?q = "update_query i e t b"
    note spec = update_run [OF sv my ids, where actor = actor and i = i and e = e and t = t and b = b]
    show ?thesis
    proof (cases "write_verdict ?T actor i e")
      case (Inl err)
      with spec run Updating show ?thesis by (auto simp: bind_cmd_def)
    next
      case (Inr a)
      have live: "live_row ?T i = Some a"
        using Inr by (auto simp: write_verdict_def split: option.splits if_splits)
      from spec obtain stamp u where u:
        "update s actor i t b e w = (Inr (article_out_of (update_row stamp ?q a)), u)"
        "db (request.more u) = update_effect stamp ?q ?T"
        "pending_after_commit u = queued s (author_id a) (Some i)" "settled s (\<lambda>m. (kv m, sv m)) w u"
        unfolding Inr sum.case none by auto
      with run Updating have "u = v" by (simp add: bind_cmd_def)
      with u touches_update [OF ids live, of ?q e stamp] show ?thesis
        by (auto simp: q settled_def update_query_def)
    qed
  next
    case (Deleting actor i e)
    note spec = delete_run [OF sv my ids, where actor = actor and i = i and e = e]
    show ?thesis
    proof (cases "write_verdict ?T actor i e")
      case (Inl err)
      with spec run Deleting show ?thesis by auto
    next
      case (Inr a)
      have live: "live_row ?T i = Some a"
        using Inr by (auto simp: write_verdict_def split: option.splits if_splits)
      from spec obtain stamp d u where u: "delete s actor i e w = (Inr (), u)"
        "db (request.more u) = update_effect stamp (soft_delete_query i e d) ?T"
        "pending_after_commit u = queued s (author_id a) (Some i)" "settled s (\<lambda>m. (kv m, sv m)) w u"
        unfolding Inr sum.case none by auto
      with run Deleting have "u = v" by simp
      with u touches_update [OF ids live, of "soft_delete_query i e d" e stamp] show ?thesis
        by (auto simp: q settled_def soft_delete_query_def)
    qed
  qed
qed

lemma commits_change:
  assumes env: "environment s db kv sv clock" and tr: "transaction commit rollback db kv sv"
    and "has_session s" and ids: "distinct (map art_id (db m))" and c: "commits s commit op m job m'"
  shows "touches (db m) (db m') (inv_author job) (inv_article job) \<and> kv m' = kv m \<and> sv m' = db m'"
proof -
  from c obtain w v v' where w: "request.more w = m" "up s w" "session_info w = None"
    "run_write s op w = (Inr (), v)" "commit v = (Inr (), v')" "pending_after_commit v' = [job]"
    "request.more v' = m'" unfolding commits_def by blast
  from run_write_change [OF env assms(3) w(2) _ w(3,4)] ids w(1) obtain job' where
    j: "pending_after_commit v = [job']" "kv (request.more v) = kv m"
      "touches (db m) (db (request.more v)) (inv_author job') (inv_article job')" by auto
  from tr obtain u where "commit v = (Inr (), u)" "only_data kv v u"
    "db (request.more u) = db (request.more v)" "sv (request.more u) = db (request.more v)"
    unfolding transaction_def by blast
  with w(5,7) have "only_data kv v v'" "db m' = db (request.more v)" "sv m' = db m'" by auto
  moreover from this(1) have "pending_after_commit v' = pending_after_commit v"
    by (simp add: only_data_def kept_def pending_after_commit_def)
  ultimately show ?thesis using j w(6,7) by (auto simp: only_data_def kept_def)
qed

lemma does_peek:
  assumes "environment s db kv sv clock"
  shows "does s db sv kv (peek (svc_redis s) (svc_policies s) key) m (Inr (kv m key)) (kv m)"
proof (rule doesI)
  fix w
  assume up: "up s w" and m: "request.more w = m"
  let ?Q = "\<lambda>a m'. a = kv m key \<and> kv m' = kv m"
  have "answered (\<lambda>m. (db m, sv m)) (redis_get (svc_redis s) key) ?Q w"
    unfolding answered_def
  proof (intro allI impI)
    fix u :: "'a world"
    assume "request.more u = request.more w"
    with storesD(1) [OF environmentD(2) [OF assms(1)], of key u] m
    show "\<exists>a u'. redis_get (svc_redis s) key u = (Inr a, u')
        \<and> only_data (\<lambda>m. (db m, sv m)) u u' \<and> ?Q a (request.more u')" by auto
  qed
  from try_ok [OF _ this, where f = "\<lambda>x. x"] up
  have "\<exists>v. peek (svc_redis s) (svc_policies s) key w = (Inr (kv m key), v)
      \<and> untouched (\<lambda>m. (db m, sv m)) w v \<and> kv (request.more v) = kv m"
    unfolding peek_def by (auto simp: up_def)
  with untouched_read_step [OF _ up]
  show "\<exists>v. peek (svc_redis s) (svc_policies s) key w = (Inr (kv m key), v)
      \<and> read_step s db sv w v \<and> kv (request.more v) = kv m" by blast
qed

lemma does_lock:
  assumes "environment s db kv sv clock"
  shows "does s db sv kv (acquire_lock (svc_redis s) (svc_policies s) key ttl) m
    (Inr (kv m (lock_key key) = None))
    (if kv m (lock_key key) = None then (kv m)(lock_key key \<mapsto> ''1'') else kv m)"
proof (rule doesI)
  fix w
  assume up: "up s w" and m: "request.more w = m"
  from acquire_lock_ok [OF environmentD(2) [OF assms(1)], of w "svc_policies s" key ttl] up m
    untouched_read_step [OF _ up]
  show "\<exists>v. acquire_lock (svc_redis s) (svc_policies s) key ttl w
      = (Inr (kv m (lock_key key) = None), v) \<and> read_step s db sv w v
      \<and> kv (request.more v)
        = (if kv m (lock_key key) = None then (kv m)(lock_key key \<mapsto> ''1'') else kv m)"
    unfolding up_def by blast
qed

lemma does_load:
  assumes "environment s db kv sv clock" and "distinct (map art_id (db m))"
  shows "does s db sv kv (load s i) m
    (case live_row (db m) i of None \<Rightarrow> Inl not_found | Some a \<Rightarrow> Inr a) (kv m)"
  by (rule doesI) (use load_step [OF assms(1), of _ i] assms(2) in blast)

lemma does_load_page:
  assumes "environment s db kv sv clock" and "distinct (map art_id (db m))"
  shows "does s db sv kv (load_page s limit after author) m
    (Inr (spec_page (db m) limit after author)) (kv m)"
  by (rule doesI) (use load_page_step [OF assms(1), of _ limit after author] assms(2) in blast)

lemma does_set:
  assumes "environment s db kv sv clock"
  shows "does s db sv kv (cache_set (svc_redis s) (svc_policies s) key val ttl) m (Inr ())
    ((kv m)(key \<mapsto> val))"
  by (rule doesI) (use cache_set_step [OF assms(1), of _ key val ttl] in blast)

lemma does_release:
  assumes "environment s db kv sv clock"
  shows "does s db sv kv (release_lock (svc_redis s) (svc_policies s) key) m (Inr ())
    ((kv m)(lock_key key := None))"
  by (rule doesI) (use release_lock_step [OF assms(1), of _ key] in blast)

lemma does_drop:
  assumes "environment s db kv sv clock"
  shows "does s db sv kv (invalidate_article (svc_redis s) (svc_policies s) i) m (Inr ())
    ((kv m)(article_key i := None))"
proof (rule doesI)
  fix w
  assume up: "up s w" and m: "request.more w = m"
  from delete_ok [OF environmentD(2) [OF assms(1)], of w "svc_policies s" "''delete''" "article_key i"]
    up m untouched_read_step [OF _ up]
  show "\<exists>v. invalidate_article (svc_redis s) (svc_policies s) i w = (Inr (), v)
      \<and> read_step s db sv w v \<and> kv (request.more v) = (kv m)(article_key i := None)"
    unfolding up_def invalidate_article_def by blast
qed

lemma does_incr:
  assumes "environment s db kv sv clock"
  shows "does s db sv kv (redis_incr (svc_redis s) key) m (Inr (as_int (kv m key) + 1))
    ((kv m)(key \<mapsto> str_int (as_int (kv m key) + 1)))"
proof (rule doesI)
  fix w
  assume up: "up s w" and m: "request.more w = m"
  from storesD(5) [OF environmentD(2) [OF assms(1)], of key w] obtain v where
    v: "redis_incr (svc_redis s) key w = (Inr (as_int (kv m key) + 1), v)"
      "only_data (\<lambda>m. (db m, sv m)) w v"
      "kv (request.more v) = (kv m)(key \<mapsto> str_int (as_int (kv m key) + 1))"
    unfolding m by blast
  from v(2) up have "read_step s db sv w v"
    by (auto simp: read_step_def up_def mysql_up_def redis_up_def usable_def only_data_def kept_def)
  with v show "\<exists>v. redis_incr (svc_redis s) key w = (Inr (as_int (kv m key) + 1), v)
      \<and> read_step s db sv w v \<and> kv (request.more v) = (kv m)(key \<mapsto> str_int (as_int (kv m key) + 1))"
    by blast
qed

lemmas runs_peek = runs_step [OF does_peek]
lemmas runs_lock = runs_step [OF does_lock]
lemmas runs_load = runs_step [OF does_load]
lemmas runs_load_page = runs_step [OF does_load_page]
lemmas runs_set = runs_step [OF does_set]
lemmas runs_release = runs_step [OF does_release]
lemmas runs_drop = runs_step [OF does_drop]
lemmas runs_incr = runs_step [OF does_incr]

subsection \<open>Every step keeps the invariant\<close>

text \<open>A request that leaves the keys as they are and does not touch its lock only moves on.\<close>

lemma inv_go:
  assumes "cluster_inv s windows table e ts" and "affects th = affects (ts j)"
    and "sane s windows (awaited ts) table e th" and "held_lock s th = held_lock s (ts j)"
  shows "cluster_inv s windows table e (ts(j := th))"
  by (rule inv_move [OF assms(1) _ _ assms(2,3)]) (use assms(4) in auto)

lemma sane_of:
  assumes "sane s windows waits table e th" and "pursued th' = pursued th \<or> pursued th' = None"
    and "\<And>tgt won content. th' \<noteq> Loaded tgt won content"
  shows "sane s windows waits table e th'"
  using assms by (auto simp: sane_def)

lemma inv_sane: "cluster_inv s windows table e ts \<Longrightarrow> sane s windows (awaited ts) table e (ts j)"
  by (simp add: cluster_inv_def)

lemmas cluster_step_induct = cluster_step.induct [split_format (complete)]

lemma cluster_step_inv:
  assumes env: "environment s db kv sv clock" and tr: "transaction commit rollback db kv sv"
    and ses: "has_session s" and cf: "collision_free (sha256_hex s) windows"
    and step: "cluster_step s commit db kv sv windows (m, ts) (m', ts')"
    and inv: "cluster_inv s windows (db m) (kv m) ts"
  shows "cluster_inv s windows (db m') (kv m') ts'"
  using step inv
proof (induction rule: cluster_step_induct)
  case (ask_body ts j m i)
  from ask_body.prems have v: "cluster_inv s windows (db m) (kv m) ts" by simp
  have "cluster_inv s windows (db m) (kv m) (ts(j := Looking (Body i)))"
    by (rule inv_go [OF v]) (simp_all add: ask_body.hyps sane_def)
  then show ?case by (simp del: fun_upd_apply)
next
  case (ask_page ts j limit after author m gg ga m')
  note g = runs_generations [OF env ask_page.hyps(3)]
  from ask_page.prems have v: "cluster_inv s windows (db m) (kv m) ts" by simp
  let ?th = "Looking (Page limit after author (if author \<noteq> None then ga else gg))"
  have "cluster_inv s windows (db m) (kv m) (ts(j := ?th))"
    by (rule inv_go [OF v]) (use ask_page.hyps(1,2) g in \<open>simp_all add: sane_def\<close>)
  with g show ?case by (simp del: fun_upd_apply)
next
  case (hit ts j tgt m raw m')
  note g = runs_peek [OF env hit.hyps(2)]
  from hit.prems have v: "cluster_inv s windows (db m) (kv m) ts" by simp
  have "cluster_inv s windows (db m) (kv m) (ts(j := Idle))"
    by (rule inv_go [OF v]) (use hit.hyps(1) in \<open>auto simp: sane_def\<close>)
  with g show ?case by (simp del: fun_upd_apply)
next
  case (miss ts j tgt m raw m')
  note g = runs_peek [OF env miss.hyps(2)]
  from miss.prems have i: "cluster_inv s windows (db m) (kv m) ts" by simp
  have "sane s windows (awaited ts) (db m) (kv m) (Missed tgt)"
    using sane_of [OF inv_sane [OF i, of j]] miss.hyps(1) by simp
  then have "cluster_inv s windows (db m) (kv m) (ts(j := Missed tgt))"
    by (intro inv_go [OF i]) (simp_all add: miss.hyps(1))
  with g show ?case by (simp del: fun_upd_apply)
next
  case (lock ts j tgt m won m')
  note g = runs_lock [OF env lock.hyps(2)]
  from lock.prems have i: "cluster_inv s windows (db m) (kv m) ts" by simp
  let ?th = "if won then Loading tgt True else Waiting tgt"
  have "sane s windows (awaited ts) (db m) (kv m) ?th"
    using sane_of [OF inv_sane [OF i, of j]] lock.hyps(1) by simp
  moreover have "generation (kv m') a = generation (kv m) a" for a
    using g by (cases a) (simp_all add: generation_def)
  moreover have "held_lock s ?th = Some k \<or> kv m (lock_key k) \<noteq> None \<and> held_lock s (ts j) \<noteq> Some k"
    if "kv m' (lock_key k) \<noteq> None" for k
    using that g lock.hyps(1) by (auto split: if_splits)
  ultimately have "cluster_inv s windows (db m) (kv m') (ts(j := ?th))"
    using g lock.hyps(1) by (intro inv_move [OF i]) auto
  with g show ?case by (simp del: fun_upd_apply)
next
  case (give_up ts j tgt m)
  from give_up.prems have i: "cluster_inv s windows (db m) (kv m) ts" by simp
  have "sane s windows (awaited ts) (db m) (kv m) (Loading tgt False)"
    using sane_of [OF inv_sane [OF i, of j]] give_up.hyps by simp
  then have "cluster_inv s windows (db m) (kv m) (ts(j := Loading tgt False))"
    by (intro inv_go [OF i]) (simp_all add: give_up.hyps)
  then show ?case by (simp del: fun_upd_apply)
next
  case (load_body ts j i won m a m')
  from load_body.prems have v: "cluster_inv s windows (db m) (kv m) ts" by simp
  have g: "db m' = db m \<and> kv m' = kv m"
    using runs_load [OF env _ load_body.hyps(2)] v by (simp add: cluster_inv_def)
  have "cluster_inv s windows (db m) (kv m) (ts(j := Loaded (Body i) won content))" for content
    by (rule inv_go [OF v]; cases won) (simp_all add: load_body.hyps(1) sane_def)
  with g show ?case by (simp del: fun_upd_apply)
next
  case (load_nothing ts j i won m e m')
  from load_nothing.prems have v: "cluster_inv s windows (db m) (kv m) ts" by simp
  have g: "db m' = db m \<and> kv m' = kv m"
    using runs_load [OF env _ load_nothing.hyps(2)] v by (simp add: cluster_inv_def)
  have "cluster_inv s windows (db m) (kv m) (ts(j := Stored (Body i) won))"
    by (rule inv_go [OF v]; cases won) (simp_all add: load_nothing.hyps(1) sane_def)
  with g show ?case by (simp del: fun_upd_apply)
next
  case (load_page ts j limit after author g won m page next_after m')
  from load_page.prems have v: "cluster_inv s windows (db m) (kv m) ts" by simp
  have p: "(page, next_after) = spec_page (db m) limit after author \<and> db m' = db m \<and> kv m' = kv m"
    using runs_load_page [OF env _ load_page.hyps(2)] v by (simp add: cluster_inv_def)
  let ?th = "Loaded (Page limit after author g) won (encode_page (svc_codec s) page next_after)"
  have "sane s windows (awaited ts) (db m) (kv m) ?th"
    using inv_sane [OF v, of j] load_page.hyps(1) p page_codec [OF environmentD(3) [OF env]]
    by (simp add: sane_def)
  then have "cluster_inv s windows (db m) (kv m) (ts(j := ?th))"
    by (intro inv_go [OF v]; cases won) (simp_all add: load_page.hyps(1))
  with p show ?case by (simp del: fun_upd_apply)
next
  case (store ts j tgt won content ttl m m')
  from store.prems have v: "cluster_inv s windows (db m) (kv m) ts" by simp
  show ?case
    using runs_set [OF env store.hyps(2)] inv_store [OF v, of j tgt won content] store.hyps(1) cf
    by (simp del: fun_upd_apply)
next
  case (release ts j tgt m m')
  note g = runs_release [OF env release.hyps(2)]
  from release.prems have i: "cluster_inv s windows (db m) (kv m) ts" by simp
  have "generation (kv m') a = generation (kv m) a" for a
    using g by (cases a) (simp_all add: generation_def)
  then have "cluster_inv s windows (db m) (kv m') (ts(j := Idle))"
    using g release.hyps(1) by (intro inv_move [OF i]) (auto simp: sane_def split: if_splits)
  with g show ?case by (simp del: fun_upd_apply)
next
  case (leave ts j tgt m)
  from leave.prems have v: "cluster_inv s windows (db m) (kv m) ts" by simp
  have "cluster_inv s windows (db m) (kv m) (ts(j := Idle))"
    by (rule inv_go [OF v]) (simp_all add: leave.hyps sane_def)
  then show ?case by (simp del: fun_upd_apply)
next
  case (transact ts j op m job m')
  from transact.prems have i: "cluster_inv s windows (db m) (kv m) ts" by simp
  then have "distinct (map art_id (db m))" by (simp add: cluster_inv_def)
  from commits_change [OF env tr ses this transact.hyps(2)] inv_commit [OF i, of j] transact.hyps(1)
  show ?case by (simp del: fun_upd_apply)
next
  case (drop_body ts j i who m m')
  note g = runs_drop [OF env drop_body.hyps(2)]
  from drop_body.prems have v: "cluster_inv s windows (db m) (kv m) ts" by simp
  have "generation (kv m') a = generation (kv m) a" for a
    using g by simp
  then have "cluster_inv s windows (db m) (kv m') (ts(j := Bumping who))"
    using g drop_body.hyps(1) by (intro inv_move [OF v]) (auto simp: sane_def)
  with g show ?case by (simp del: fun_upd_apply)
next
  case (drop_nothing ts j who m)
  from drop_nothing.prems have v: "cluster_inv s windows (db m) (kv m) ts" by simp
  have "cluster_inv s windows (db m) (kv m) (ts(j := Bumping who))"
    by (rule inv_go [OF v]) (simp_all add: drop_nothing.hyps sane_def)
  then show ?case by (simp del: fun_upd_apply)
next
  case (bump ts j who m n m')
  note g = runs_incr [OF env bump.hyps(3)]
  from bump.prems have v: "cluster_inv s windows (db m) (kv m) ts" by simp
  have "cluster_inv s windows (db m) (kv m') (ts(j := BumpingAuthor who))"
    using g bump.hyps(1) generation_global_raised [OF bump.hyps(2)]
    by (intro inv_raise [OF v, where x = None]) auto
  with g show ?case by (simp del: fun_upd_apply)
next
  case (bump_author ts j who m n m')
  note g = runs_incr [OF env bump_author.hyps(3)]
  from bump_author.prems have v: "cluster_inv s windows (db m) (kv m) ts" by simp
  have "cluster_inv s windows (db m) (kv m') (ts(j := Idle))"
    using g bump_author.hyps(1) generation_author_raised [OF bump_author.hyps(2)]
    by (intro inv_raise [OF v, where x = "Some who"]) auto
  with g show ?case by (simp del: fun_upd_apply)
next
  case (expire k m' m ts)
  from expire.prems have v: "cluster_inv s windows (db m) (kv m) ts" by simp
  have "generation (kv m') a = generation (kv m) a" for a
    using expire.hyps(1,2) by (cases a) (auto simp: generation_def)
  then have "cluster_inv s windows (db m) (kv m') (ts(j := ts j))" for j
    using expire.hyps(2) inv_sane [OF v, of j]
    by (intro inv_move [OF v]) (auto split: if_splits)
  from this [of 0] expire.hyps(3) show ?case by (simp del: fun_upd_apply)
qed

subsection \<open>What readers see\<close>

lemma awaited_idle: "awaited (\<lambda>_. Idle) = (\<lambda>_. False)"
  by (simp add: awaited_def fun_eq_iff)

lemma inv_calm:
  assumes "distinct (map art_id table)" and "coherent_pages s windows table e" and "unlocked e"
  shows "cluster_inv s windows table e (\<lambda>_. Idle)"
  using assms
  by (simp add: cluster_inv_def fresh_pages_def none_beyond_def sane_def locks_held_def
      coherent_pages_def unlocked_def)

lemma cluster_reach_inv:
  assumes env: "environment s db kv sv clock" and tr: "transaction commit rollback db kv sv"
    and ses: "has_session s" and cf: "collision_free (sha256_hex s) windows"
    and m0: "distinct (map art_id (db m0))" "coherent_pages s windows (db m0) (kv m0)" "unlocked (kv m0)"
    and reach: "cluster_reach s commit db kv sv windows m0 c"
  shows "cluster_inv s windows (db (fst c)) (kv (fst c)) (snd c)"
  using reach
proof (induction rule: cluster_reach.induct)
  case calm
  from inv_calm [OF m0] show ?case by simp
next
  case (progress c c')
  obtain m ts m' ts' where c: "c = (m, ts)" "c' = (m', ts')" by fastforce
  from cluster_step_inv [OF env tr ses cf progress.hyps(2) [unfolded c]] progress.IH show ?case
    by (simp add: c)
qed

text \<open>C9. Concurrent listings are fresh: however the commands of any number of reads and writes interleave,
  while no committed write that concerns \<open>author\<close> still has its counter to raise, whatever a reader
  finds under the current generation is the page the table gives.\<close>

theorem concurrent_pages_fresh:
  assumes "environment s db kv sv clock" and "transaction commit rollback db kv sv"
    and "has_session s" and "collision_free (sha256_hex s) windows"
    and "distinct (map art_id (db m0))" and "coherent_pages s windows (db m0) (kv m0)"
    and "unlocked (kv m0)" and "cluster_reach s commit db kv sv windows m0 (m, ts)"
    and "\<not> awaited ts author" and "(limit, after) \<in> windows"
    and "runs s (peek (svc_redis s) (svc_policies s)
          (target_key s (Page limit after author (generation (kv m) author)))) m (Inr (Some content)) m'"
  shows "decode_page (svc_codec s) (Some content) = Inr (Some (spec_page (db m) limit after author))"
proof -
  have "fresh_pages s windows (awaited ts) (db m) (kv m)"
    using cluster_reach_inv [OF assms(1-8)] by (simp add: cluster_inv_def)
  moreover have "kv m (list_key (sha256_hex s) (generation (kv m) author) author limit after)
      = Some content"
    using runs_peek [OF assms(1,11)] by simp
  ultimately show ?thesis using assms(9,10) unfolding fresh_pages_def by blast
qed

text \<open>C10. Once the requests in flight are done, in whatever order their commands ran and whatever Redis
  dropped meanwhile, no lock is left and the next listing answers the page the table gives.\<close>

theorem listing_exact_after_requests:
  assumes "environment s db kv sv clock" and "transaction commit rollback db kv sv"
    and "has_session s" and "collision_free (sha256_hex s) windows"
    and "distinct (map art_id (db m0))" and "coherent_pages s windows (db m0) (kv m0)"
    and "unlocked (kv m0)" and "cluster_reach s commit db kv sv windows m0 (m, ts)"
    and "\<forall>j. ts j = Idle" and "(limit, after) \<in> windows" and "up s w" and "request.more w = m"
  shows "unlocked (kv m)
    \<and> fst (list_articles s limit after author w) = Inr (spec_page (db m) limit after author)"
proof -
  have inv: "cluster_inv s windows (db m) (kv m) ts"
    using cluster_reach_inv [OF assms(1-8)] by simp
  have "ts = (\<lambda>_. Idle)" using assms(9) by auto
  with inv have c: "coherent_pages s windows (db m) (kv m)" "unlocked (kv m)"
    by (simp_all add: cluster_inv_def fresh_pages_def none_beyond_def locks_held_def coherent_pages_def
        unlocked_def awaited_idle)
  moreover have "distinct (map art_id (db m))" using inv by (simp add: cluster_inv_def)
  ultimately show ?thesis
    using list_articles_run [OF assms(1,11), unfolded assms(12), of windows limit after author] assms(10)
    by auto
qed

end
