(* ===== verification/Scenarios.thy ===== *)
theory Scenarios
  imports Coherence
begin

text \<open>
  The theorems about the article service applied to concrete requests in the reference environment,
  and the one scenario in which a write is acknowledged and lost.
\<close>

abbreviation demo_kept :: "store \<Rightarrow> (string \<rightharpoonup> string) \<times> article list" where
  "demo_kept \<equiv> \<lambda>st. (kv_entries st, table_saved st)"

lemma demo_codec_ok: "codec_ok demo_codec"
  by (simp add: codec_ok_def demo_codec_def)

lemma demo_environment: "environment demo_service table_view kv_entries table_saved server_time"
  using memory_serves memory_stores demo_codec_ok by (simp add: environment_def demo_service_def)

lemma demo_up: "mysql_up demo_service demo_world" "redis_up demo_world" "up demo_service demo_world"
  by (simp_all add: up_def mysql_up_def redis_up_def demo_service_def demo_world_def new_breaker_def
      usable_def new_article_cache_def)

lemma demo_more:
  "table_view (request.more demo_world) = demo_table"
  "table_saved (request.more demo_world) = demo_table"
  "kv_entries (request.more demo_world) = Map.empty"
  by (simp_all add: demo_world_def)

lemma demo_distinct: "distinct (map art_id (table_view (request.more demo_world)))"
  by (simp add: demo_more demo_table_def demo_article_def)

lemma demo_serves:
  "serves (repo_session (articles demo_service)) table_view server_time demo_kept"
  using memory_serves by (simp add: demo_service_def)

lemma demo_live: "live_row demo_table 4 = Some (demo_article 4 7 200)" "live_row demo_table 3 = None"
  by (simp_all add: live_row_def demo_table_def demo_article_def)

lemma demo_verdict:
  "write_verdict demo_table (demo_user 7 ''user'') 4 200 = Inr (demo_article 4 7 200)"
  by (simp add: write_verdict_def demo_live may_write_def demo_user_def demo_article_def)

theorem update_spec_witness:
  "\<exists>dto v. update demo_service (demo_user 7 ''user'') 4 ''new'' ''text'' 200 demo_world = (Inr dto, v)
    \<and> pending_after_commit v = [\<lparr>inv_article = Some 4, inv_author = 7\<rparr>]"
  using update_spec [OF demo_serves demo_up(1) demo_distinct, where actor = "demo_user 7 ''user''"
      and i = 4 and e = 200 and t = "''new''" and b = "''text''"]
  by (auto simp: demo_more demo_verdict queued_def demo_service_def demo_world_def
      pending_after_commit_def demo_article_def)

theorem delete_spec_witness:
  "\<exists>v. delete demo_service (demo_user 7 ''user'') 4 200 demo_world = (Inr (), v)
    \<and> live_row (table_view (request.more v)) 4 = None"
  using delete_spec [OF demo_serves demo_up(1) demo_distinct, where actor = "demo_user 7 ''user''"
      and i = 4 and e = 200]
  by (auto simp: demo_more demo_verdict)

theorem create_spec_witness:
  "\<exists>a v. create demo_service (demo_user 9 ''user'') ''t'' ''b'' demo_world = (Inr (article_out_of a), v)
    \<and> author_id a = 9"
  using create_spec [OF demo_serves demo_up(1) demo_distinct, where actor = "demo_user 9 ''user''"
      and t = "''t''" and b = "''b''"]
  by (auto simp: demo_user_def)

definition demo_windows :: "(int \<times> position option) set" where
  "demo_windows = {(1, None), (2, None)}"

lemma demo_collision_free: "collision_free (sha256_hex demo_service) demo_windows"
  by (auto simp: collision_free_def demo_windows_def demo_service_def filter_hash_def
      filter_material_def FILTER_HASH_LENGTH_def str_int_def dec_nat.simps digit_char_def)

lemma demo_coherent:
  "coherent demo_service demo_windows (table_view (request.more demo_world))
     (kv_entries (request.more demo_world))"
  by (simp add: demo_more coherent_def coherent_articles_def coherent_pages_def unlocked_def)

theorem get_refines_table_witness:
  "fst (get_article demo_service 4 demo_world) = Inr (article_out_of (demo_article 4 7 200))"
  using get_refines_table [OF demo_environment demo_up(3) demo_distinct demo_coherent, of 4]
  by (auto simp: demo_more demo_live)

theorem list_refines_table_witness:
  "fst (list_articles demo_service 2 None None demo_world)
   = Inr (spec_page demo_table 2 None None)"
  using list_refines_table [OF demo_environment demo_up(3) demo_distinct demo_coherent _
      demo_collision_free, of 2 None None]
  by (auto simp: demo_more demo_windows_def)

definition demo_commit :: "(store world, unit) command" where
  "demo_commit w =
     (Inr (), w\<lparr>request.more := (request.more w)\<lparr>table_saved := table_view (request.more w)\<rparr>\<rparr>)"

definition demo_rollback_cmd :: "(store world, unit) command" where
  "demo_rollback_cmd w = (Inr (), put_rows (table_saved (request.more w)) w)"

lemma demo_transaction: "transaction demo_commit demo_rollback_cmd table_view kv_entries table_saved"
  by (auto simp: transaction_def demo_commit_def demo_rollback_cmd_def only_data_def kept_def
      put_rows_def)

lemma demo_counters: "counters_ok (kv_entries (request.more demo_world)) who"
  by (simp add: counters_ok_def generation_def demo_more as_int_def)

theorem update_request_refines_witness:
  "\<exists>dto z. get_session demo_commit demo_rollback_cmd (invalidate demo_service)
      (update demo_service (demo_user 7 ''user'') 4 ''new'' ''text'' 200) demo_world = (Inr dto, z)
    \<and> coherent demo_service demo_windows (table_view (request.more z)) (kv_entries (request.more z))"
proof -
  have "has_session demo_service" by (simp add: demo_service_def)
  moreover have "table_view (request.more demo_world) = table_saved (request.more demo_world)"
    by (simp add: demo_more)
  ultimately show ?thesis
    using update_request_refines [OF demo_environment demo_transaction demo_up(3) demo_distinct _ _
        demo_coherent, where actor = "demo_user 7 ''user''" and i = 4 and e = 200
        and t = "''new''" and b = "''text''"] demo_counters
    by (auto simp: demo_more demo_verdict)
qed


theorem delete_request_refines_witness:
  "\<exists>z. get_session demo_commit demo_rollback_cmd (invalidate demo_service)
      (delete demo_service (demo_user 7 ''user'') 4 200) demo_world = (Inr (), z)
    \<and> live_row (table_view (request.more z)) 4 = None
    \<and> coherent demo_service demo_windows (table_view (request.more z)) (kv_entries (request.more z))"
proof -
  have "has_session demo_service" by (simp add: demo_service_def)
  moreover have "table_view (request.more demo_world) = table_saved (request.more demo_world)"
    by (simp add: demo_more)
  ultimately show ?thesis
    using delete_request_refines [OF demo_environment demo_transaction demo_up(3) demo_distinct _ _
        demo_coherent, where actor = "demo_user 7 ''user''" and i = 4 and e = 200] demo_counters
    by (auto simp: demo_more demo_verdict)
qed

theorem create_request_refines_witness:
  "\<exists>a z. get_session demo_commit demo_rollback_cmd (invalidate demo_service)
      (create demo_service (demo_user 9 ''user'') ''t'' ''b'') demo_world = (Inr (article_out_of a), z)
    \<and> table_saved (request.more z) = demo_table @ [a] \<and> author_id a = 9"
proof -
  have "has_session demo_service" by (simp add: demo_service_def)
  from create_request_refines [OF demo_environment demo_transaction demo_up(3) demo_distinct this
      demo_coherent demo_counters, where actor = "demo_user 9 ''user''" and t = "''t''" and b = "''b''"]
  show ?thesis by (auto simp: demo_more demo_user_def)
qed

subsection \<open>A write acknowledged and lost\<close>

text \<open>
  The session of \<open>flaky_service\<close> loses its connection after the \<open>UPDATE\<close> of a transaction: a
  \<open>SELECT\<close> in a transaction with uncommitted work fails, until the rollback has given it a new one.
\<close>

definition flaky_sql :: "store world sql_session" where
  "flaky_sql = memory_sql
     \<lparr>execute_select := (\<lambda>q dl w.
        if table_view (request.more w) \<noteq> table_saved (request.more w)
        then (Done (Inl (OperationalError ''connection lost'')), w)
        else execute_select memory_sql q dl w)\<rparr>"

definition flaky_service :: "store world article_service" where
  "flaky_service = demo_service\<lparr>articles := (articles demo_service)\<lparr>repo_session := flaky_sql\<rparr>\<rparr>"

lemma flaky_simps [simp]:
  "repo_session (articles flaky_service) = flaky_sql"
  "repo_waits (articles flaky_service) k = 0"
  "svc_policies flaky_service ''mysql'' = Some (database_policy default_settings)"
  "has_session flaky_service"
  "svc_redis flaky_service = memory_kv"
  by (simp_all add: flaky_service_def demo_service_def)

lemma default_database [simp]:
  "attempts (database_policy default_settings) = 2"
  "0 < call_timeout_seconds (database_policy default_settings)"
  by (simp_all add: database_policy_def default_settings_def)

lemma demo_select: "run_select (get_query 4) demo_table = [demo_article 4 7 200]"
  using get_query_answer [OF demo_distinct [unfolded demo_more] run_select_answers, of 4]
  by (simp add: demo_live)

abbreviation mysql_fresh :: "store world \<Rightarrow> bool" where
  "mysql_fresh w \<equiv> breakers w ''mysql'' = Some (new_breaker ''mysql'' 5 10 1 [])"

lemma fresh_succeeds: "mysql_fresh w \<Longrightarrow> breaker_succeeds ''mysql'' w = w"
proof -
  assume f: "mysql_fresh w"
  have "record_success (new_breaker ''mysql'' 5 10 1 []) = new_breaker ''mysql'' 5 10 1 []"
    by (simp add: record_success_def new_breaker_def)
  with f show ?thesis
    by (simp add: breaker_succeeds_def update_breaker_def fun_upd_idem)
qed

lemma fresh_call:
  assumes "mysql_fresh w" and "\<And>dl. op dl w = (Done (Inr r), w')" and "mysql_fresh w'"
  shows "guarded_call (svc_policies flaky_service) waits ''mysql'' hook retry op w = (Inr r, w')"
  using guarded_call_first_try [of "svc_policies flaky_service" "''mysql''" _ w
      "new_breaker ''mysql'' 5 10 1 []" op r w'] assms fresh_succeeds [OF assms(3)]
  by (simp add: new_breaker_def)

text \<open>A read whose first attempt dies and whose second, after the rollback, answers.\<close>

lemma fresh_second_try:
  assumes f: "mysql_fresh w" and fail: "\<And>dl. op dl w = (Done (Inl (OperationalError m)), w)"
    and hook: "\<And>dl. hook dl w = (Done (Inr ()), w1)"
    and again: "\<And>dl. op dl w1 = (Done (Inr r), w1)" and f1: "mysql_fresh w1"
  shows "guarded_call (svc_policies flaky_service) (\<lambda>k. 0) ''mysql'' (Some hook) True op w
    = (Inr r, log_metric (observe_retry ''mysql'' ''success'') w1)"
proof -
  let ?p = "database_policy default_settings"
  let ?dl = "now w + call_timeout_seconds ?p"
  have a: "allow (now w) (new_breaker ''mysql'' 5 10 1 []) = (True, new_breaker ''mysql'' 5 10 1 [])"
    by (simp add: allow_def new_breaker_def)
  have adm: "admitted_state ''mysql'' ?p (new_breaker ''mysql'' 5 10 1 []) w = w"
    using f a by (simp add: admitted_state_def update_breaker_def fun_upd_idem)
  have second: "retry_loop ?p (\<lambda>k. 0) (Some hook) op (Suc 1) ?dl w = (2, Done (Inr r), w1)"
    by (subst retry_loop.simps) (simp add: attempt_body_def hook again)
  have "retry_loop ?p (\<lambda>k. 0) (Some hook) op 1 ?dl w = (2, Done (Inr r), w1)"
    using second by (subst retry_loop.simps) (simp add: attempt_body_def fail asyncio_sleep_def)
  then have w: "with_retry ?p ''mysql'' (\<lambda>k. 0) (Some hook) op ?dl w
      = (Done (Inr r), log_metric (observe_retry ''mysql'' ''success'') w1)"
    by (simp add: with_retry_def)
  have "guarded_call (svc_policies flaky_service) (\<lambda>k. 0) ''mysql'' (Some hook) True op w
      = conclude ''mysql'' ?p (Done (Inr r)) (log_metric (observe_retry ''mysql'' ''success'') w1)"
    using guarded_call_admitted [of "svc_policies flaky_service" "''mysql''" ?p w
        "new_breaker ''mysql'' 5 10 1 []" "\<lambda>k. 0" "Some hook" True op] f a adm w by simp
  also have "\<dots> = (Inr r, log_metric (observe_retry ''mysql'' ''success'') w1)"
    using f1 fresh_succeeds [of "log_metric (observe_retry ''mysql'' ''success'') w1"]
    by (simp add: conclude_def)
  finally show ?thesis .
qed

text \<open>The invalidation needs nothing of the database.\<close>

lemma invalidate_answers:
  assumes "stores (svc_redis s) kv rest" and "redis_up w"
  shows "\<exists>z. invalidate s \<lparr>inv_article = Some i, inv_author = who\<rparr> w = (Inr (), z)
    \<and> rest (request.more z) = rest (request.more w)"
proof -
  obtain u where u: "invalidate_article (svc_redis s) (svc_policies s) i w = (Inr (), u)"
    "untouched rest w u"
    using delete_ok [OF assms] unfolding invalidate_article_def by blast
  then have "redis_up u" by (simp add: untouched_def)
  from bump_ok [OF assms(1) this, of "svc_policies s" who] obtain z where
    "bump_generations (svc_redis s) (svc_policies s) (Some who) u = (Inr (), z)" "untouched rest u z"
    by blast
  with u show ?thesis by (simp add: invalidate_def bind_cmd_def untouched_def)
qed

definition lost_table :: "article list" where
  "lost_table = update_effect 500 (update_query 4 200 ''new'' ''text'') demo_table"

lemma lost_table_differs: "lost_table \<noteq> demo_table"
  by (simp add: lost_table_def demo_table_def update_effect_def update_row_def update_query_def
      matches_cas demo_article_def assign_all_def Let_def)


lemma fresh_demo: "mysql_fresh demo_world"
  by (simp add: demo_world_def)

lemma fresh_put_rows [simp]: "mysql_fresh (put_rows r w) \<longleftrightarrow> mysql_fresh w"
  by (simp add: put_rows_def)

lemma fresh_after_commit [simp]: "mysql_fresh (after_commit c w) \<longleftrightarrow> mysql_fresh w"
  by (simp add: after_commit_def)

lemma after_commit_more [simp]: "request.more (after_commit c w) = request.more w"
  by (simp add: after_commit_def)

lemma flaky_load_first: "load flaky_service 4 demo_world = (Inr (demo_article 4 7 200), demo_world)"
proof -
  let ?op = "bind_await (execute_select flaky_sql (get_query 4))
      (\<lambda>rows. finish (scalar_one_or_none rows))"
  have "?op dl demo_world = (Done (Inr (Some (demo_article 4 7 200))), demo_world)" for dl
    by (simp add: bind_await_def flaky_sql_def memory_sql_def demo_more demo_select finish_def
        scalar_one_or_none_def)
  from fresh_call [where op = ?op, OF fresh_demo this fresh_demo]
  have "repo_get (articles flaky_service) 4 demo_world
      = (Inr (Some (demo_article 4 7 200)), demo_world)"
    by (simp add: repo_get_def read_mysql_def guarded_read_def)
  then show ?thesis by (simp add: load_def bind_cmd_def)
qed

lemma flaky_update_cas:
  "update_cas (articles flaky_service) 4 200 ''new'' ''text'' demo_world
   = (Inr 1, put_rows lost_table demo_world)"
proof -
  have one: "update_count (update_query 4 200 ''new'' ''text'') demo_table = 1"
    by (simp add: update_count_def update_query_def matches_cas [abs_def] demo_table_def
        demo_article_def)
  have "execute_update flaky_sql (update_query 4 200 ''new'' ''text'') dl demo_world
      = (Done (Inr 1), put_rows lost_table demo_world)" for dl
    using one
    by (simp add: flaky_sql_def memory_sql_def demo_more lost_table_def) (simp add: demo_world_def)
  from fresh_call [where op = "execute_update flaky_sql (update_query 4 200 ''new'' ''text'')",
      OF fresh_demo this] fresh_demo show ?thesis
    by (simp add: update_cas_def write_mysql_def guarded_write_def)
qed

lemma flaky_load_again:
  assumes "mysql_fresh w" and "table_view (request.more w) = lost_table"
    and "table_saved (request.more w) = demo_table"
  shows "load flaky_service 4 w
    = (Inr (demo_article 4 7 200), log_metric (observe_retry ''mysql'' ''success'') (put_rows demo_table w))"
proof -
  let ?op = "bind_await (execute_select flaky_sql (get_query 4))
      (\<lambda>rows. finish (scalar_one_or_none rows))"
  have fail: "?op dl w = (Done (Inl (OperationalError ''connection lost'')), w)" for dl
    using assms lost_table_differs by (simp add: bind_await_def flaky_sql_def)
  have hook: "session_rollback flaky_sql dl w = (Done (Inr ()), put_rows demo_table w)" for dl
    using assms(3) by (simp add: flaky_sql_def memory_sql_def)
  have again: "?op dl (put_rows demo_table w)
      = (Done (Inr (Some (demo_article 4 7 200))), put_rows demo_table w)" for dl
    using assms(3)
    by (simp add: bind_await_def flaky_sql_def memory_sql_def demo_select finish_def
        scalar_one_or_none_def)
  have "repo_waits (articles flaky_service) = (\<lambda>k. 0)" by (rule ext) simp
  with fresh_second_try [where op = ?op and hook = "session_rollback flaky_sql", OF assms(1) fail hook again] assms(1)
  have "repo_get (articles flaky_service) 4 w = (Inr (Some (demo_article 4 7 200)),
      log_metric (observe_retry ''mysql'' ''success'') (put_rows demo_table w))"
    by (simp add: repo_get_def read_mysql_def guarded_read_def)
  then show ?thesis by (simp add: load_def bind_cmd_def)
qed

text \<open>C12. An update can be acknowledged and lost. When the connection dies between the \<open>UPDATE\<close> and the
  read that follows it in \<open>ArticleService.update\<close>, the retry of that read rolls the transaction back,
  the \<open>UPDATE\<close> with it, and reads the old row; the request then commits nothing and answers with
  success and the old text.\<close>

theorem acknowledged_update_lost:
  "fst (get_session demo_commit demo_rollback_cmd (invalidate flaky_service)
      (update flaky_service (demo_user 7 ''user'') 4 ''new'' ''text'' 200) demo_world)
     = Inr (article_out_of (demo_article 4 7 200))
   \<and> table_saved (request.more (snd (get_session demo_commit demo_rollback_cmd
        (invalidate flaky_service)
        (update flaky_service (demo_user 7 ''user'') 4 ''new'' ''text'' 200) demo_world))) = demo_table"
proof -
  let ?job = "\<lparr>inv_article = Some 4, inv_author = 7\<rparr>"
  let ?w2 = "after_commit ?job (put_rows lost_table demo_world)"
  let ?w3 = "log_metric (observe_retry ''mysql'' ''success'') (put_rows demo_table ?w2)"
  have start: "demo_world\<lparr>session_info := None\<rparr> = demo_world" by (simp add: demo_world_def)
  have "load flaky_service 4 ?w2 = (Inr (demo_article 4 7 200), ?w3)"
    using fresh_demo by (intro flaky_load_again) (simp_all add: demo_more)
  then have upd: "update flaky_service (demo_user 7 ''user'') 4 ''new'' ''text'' 200 demo_world
      = (Inr (article_out_of (demo_article 4 7 200)), ?w3)"
    using flaky_load_first flaky_update_cas
    by (simp add: update_def bind_cmd_def authorize_write_def demo_user_def invalidate_after_commit_def
        Let_def) (simp add: demo_article_def)
  define w4 where "w4 = snd (demo_commit ?w3)"
  have commit: "demo_commit ?w3 = (Inr (), w4)" by (simp add: demo_commit_def w4_def)
  have saved: "table_saved (request.more w4) = demo_table" by (simp add: demo_commit_def w4_def)
  have pend: "pending_after_commit w4 = [?job]"
    by (simp add: w4_def demo_commit_def log_metric_def put_rows_def after_commit_def demo_world_def
        pending_after_commit_def)
  have st: "stores (svc_redis flaky_service) kv_entries (\<lambda>st. (table_view st, table_saved st))"
    using memory_stores by simp
  have up: "redis_up (discard_after_commit w4)"
    by (simp add: w4_def redis_up_def usable_def discard_after_commit_def demo_commit_def put_rows_def
        after_commit_def demo_world_def new_article_cache_def new_breaker_def log_metric_def)
  obtain z where z: "invalidate flaky_service ?job (discard_after_commit w4) = (Inr (), z)"
    "table_saved (request.more z) = table_saved (request.more (discard_after_commit w4))"
    using invalidate_answers [OF st up, of 4 7] by auto
  have "run_callbacks (invalidate flaky_service) [?job] (discard_after_commit w4) = (Inr (), z)"
    using z(1) by (simp only: run_callbacks.simps prod.case sum.case)
  then have "get_session demo_commit demo_rollback_cmd (invalidate flaky_service)
      (update flaky_service (demo_user 7 ''user'') 4 ''new'' ''text'' 200) demo_world
      = (Inr (article_out_of (demo_article 4 7 200)), z)"
    by (simp only: get_session_def start upd commit prod.case sum.case bind_cmd_def
        drain_after_commit_def pend return_cmd_def)
  moreover have "table_saved (request.more z) = demo_table"
    using z(2) saved by (simp add: discard_after_commit_def)
  ultimately show ?thesis by simp
qed


theorem loser_wait_bounded_witness:
  "now (snd (await_loader demo_service ''article:4'' demo_world)) \<le> 0 + 2 + POLL_INTERVAL_SECONDS + 0"
  using loser_wait_bounded [of demo_service "''article:4''" 0 demo_world 0]
  by (simp add: demo_service_def memory_kv_def POLL_INTERVAL_SECONDS_def demo_world_def)

end
