(* ===== verification/Races.thy ===== *)
theory Races
  imports Interleaving Scenarios
begin

text \<open>
  What interleaved requests can do to the cache, run: a reader whose load a write overtakes leaves the
  old body behind the invalidation, where it is served for the whole of its lifetime; and the theorems
  about concurrent listings applied to requests of the reference environment.
\<close>

subsection \<open>A write in one process\<close>

lemma can_update:
  assumes env: "environment s db kv sv clock" and tr: "transaction commit rollback db kv sv"
    and ses: "has_session s" and ids: "distinct (map art_id (db m))" and up: "up s w0"
    and verdict: "write_verdict (db m) actor i e = Inr a"
  shows "\<exists>stamp m'. commits s commit (Updating actor i t b e) m
        \<lparr>inv_article = Some i, inv_author = author_id a\<rparr> m'
      \<and> kv m' = kv m \<and> sv m' = db m'
      \<and> db m' = update_effect stamp (update_query i e t b) (db m)"
proof -
  let ?w = "w0\<lparr>session_info := None, request.more := m\<rparr>"
  let ?q = "update_query i e t b"
  have w: "up s ?w" "request.more ?w = m" "session_info ?w = None"
    using up_anywhere [OF up] by simp_all
  then have my: "mysql_up s ?w" by (simp add: up_def)
  have none: "pending_after_commit ?w = []" by (simp add: pending_after_commit_def)
  note spec = update_run [OF environmentD(1) [OF env] my, unfolded w(2), OF ids,
      where actor = actor and i = i and e = e and t = t and b = b]
  from spec obtain stamp v where v:
    "update s actor i t b e ?w = (Inr (article_out_of (update_row stamp ?q a)), v)"
    "db (request.more v) = update_effect stamp ?q (db m)"
    "pending_after_commit v = queued s (author_id a) (Some i)"
    unfolding verdict sum.case none by auto
  from tr obtain v' where v': "commit v = (Inr (), v')" "only_data kv v v'"
    "db (request.more v') = db (request.more v)"
    unfolding transaction_def by blast
  have "pending_after_commit v' = pending_after_commit v"
    using v'(2) by (simp add: only_data_def kept_def pending_after_commit_def)
  with v(3) ses have "pending_after_commit v' = [\<lparr>inv_article = Some i, inv_author = author_id a\<rparr>]"
    by (simp add: queued_def)
  moreover have "run_write s (Updating actor i t b e) ?w = (Inr (), v)"
    using v(1) by (simp add: bind_cmd_def)
  ultimately have c: "commits s commit (Updating actor i t b e) m
      \<lparr>inv_article = Some i, inv_author = author_id a\<rparr> (request.more v')"
    unfolding commits_def using w v'(1) by blast
  from commits_change [OF env tr ses ids c] c v(2) v'(3) show ?thesis
    by (intro exI [of _ stamp] exI [of _ "request.more v'"]) simp
qed

text \<open>The invalidation of a write run to its end, with nothing in between.\<close>

lemma can_invalidate:
  assumes env: "environment s db kv sv clock" and up: "up s w0"
    and c: "cluster_reach s commit db kv sv windows m0 (m, ts)"
    and j: "ts j = Dropping \<lparr>inv_article = Some i, inv_author = who\<rparr>"
    and counters: "counters_ok (kv m) who"
  shows "\<exists>m'. cluster_reach s commit db kv sv windows m0 (m', ts(j := Idle))
    \<and> db m' = db m \<and> sv m' = sv m \<and> kv m' = invalidated (kv m) who (Some i)"
proof -
  from can_run [OF does_drop [OF env] up] obtain m1 where
    m1: "runs s (invalidate_article (svc_redis s) (svc_policies s) i) m (Inr ()) m1"
      "db m1 = db m" "sv m1 = sv m" "kv m1 = (kv m)(article_key i := None)" by blast
  from can_run [OF does_incr [OF env] up] obtain m2 n2 where
    m2: "runs s (redis_incr (svc_redis s) generation_key) m1 (Inr n2) m2" "db m2 = db m1" "sv m2 = sv m1"
      "kv m2 = (kv m1)(generation_key \<mapsto> str_int (as_int (kv m1 generation_key) + 1))" by blast
  from can_run [OF does_incr [OF env] up] obtain m3 n3 where
    m3: "runs s (redis_incr (svc_redis s) (author_generation_key who)) m2 (Inr n3) m3"
      "db m3 = db m2" "sv m3 = sv m2"
      "kv m3 = (kv m2)(author_generation_key who
         \<mapsto> str_int (as_int (kv m2 (author_generation_key who)) + 1))" by blast
  have g: "counter_ok (kv m1) generation_key" "counter_ok (kv m2) (author_generation_key who)"
    using counters by (auto simp: m1(4) m2(4) counter_ok_def counters_ok_def generation_def)
  have "cluster_step s commit db kv sv windows (m, ts) (m1, ts(j := Bumping who))"
    by (rule cluster_step.drop_body [where ts = ts and j = j, OF j m1(1)])
  from cluster_reach.progress [OF c this]
  have r: "cluster_reach s commit db kv sv windows m0 (m1, ts(j := Bumping who))" .
  have "cluster_step s commit db kv sv windows
      (m1, ts(j := Bumping who)) (m2, ts(j := BumpingAuthor who))"
    using cluster_step.bump [where ts = "ts(j := Bumping who)" and j = j
        and kv = kv and m = m1 and who = who, OF _ g(1) m2(1)] by simp
  from cluster_reach.progress [OF r this]
  have r: "cluster_reach s commit db kv sv windows m0 (m2, ts(j := BumpingAuthor who))" .
  have "cluster_step s commit db kv sv windows
      (m2, ts(j := BumpingAuthor who)) (m3, ts(j := Idle))"
    using cluster_step.bump_author [where ts = "ts(j := BumpingAuthor who)" and j = j
        and kv = kv and m = m2 and who = who, OF _ g(2) m3(1)]
    by simp
  from cluster_reach.progress [OF r this]
  have "cluster_reach s commit db kv sv windows m0 (m3, ts(j := Idle))" .
  moreover have "kv m3 = invalidated (kv m) who (Some i)"
    by (simp add: m1(4) m2(4) m3(4) invalidated_def bumped_def Let_def)
  ultimately show ?thesis using m1 m2 m3 by auto
qed

subsection \<open>A read, up to its store and from there to its end\<close>

lemma can_load_body:
  assumes env: "environment s db kv sv clock" and up: "up s w0"
    and c: "cluster_reach s commit db kv sv windows m0 (m, ts)" and j: "ts j = Idle"
    and ids: "distinct (map art_id (db m))" and live: "live_row (db m) i = Some a"
    and out: "kv m (article_key i) = None" and free: "kv m (lock_key (article_key i)) = None"
  shows "\<exists>m'. cluster_reach s commit db kv sv windows m0
        (m', ts(j := Loaded (Body i) True (dump_article_json (svc_codec s) (article_out_of a))))
    \<and> db m' = db m \<and> sv m' = sv m \<and> kv m' = (kv m)(lock_key (article_key i) \<mapsto> ''1'')"
proof -
  let ?k = "article_key i"
  from can_run [OF does_peek [OF env] up] obtain m1 where
    m1: "runs s (peek (svc_redis s) (svc_policies s) ?k) m (Inr (kv m ?k)) m1"
      "db m1 = db m" "sv m1 = sv m" "kv m1 = kv m" by blast
  from can_run [OF does_lock [OF env] up, of ?k "lock_ttl s" m1] obtain m2 where
    m2: "runs s (acquire_lock (svc_redis s) (svc_policies s) ?k (lock_ttl s)) m1 (Inr True) m2"
      "db m2 = db m" "sv m2 = sv m" "kv m2 = (kv m)(lock_key ?k \<mapsto> ''1'')"
    using free by (auto simp: m1)
  have "distinct (map art_id (db m2))" using ids by (simp add: m2)
  from can_run [OF does_load [OF env this] up, of i] obtain m3 where
    m3: "runs s (load s i) m2 (Inr a) m3" "db m3 = db m" "sv m3 = sv m" "kv m3 = kv m2"
    using live by (auto simp: m2)
  have "cluster_step s commit db kv sv windows (m, ts) (m, ts(j := Looking (Body i)))"
    by (rule cluster_step.ask_body [where ts = ts and j = j, OF j])
  from cluster_reach.progress [OF c this]
  have r: "cluster_reach s commit db kv sv windows m0 (m, ts(j := Looking (Body i)))" .
  have "cluster_step s commit db kv sv windows (m, ts(j := Looking (Body i)))
      (m1, ts(j := Missed (Body i)))"
    using cluster_step.miss [where ts = "ts(j := Looking (Body i))" and j = j and tgt = "Body i"
        and m = m and raw = "kv m ?k" and m' = m1 and s = s] m1(1) out
    by (simp add: decode_article_def)
  from cluster_reach.progress [OF r this]
  have r: "cluster_reach s commit db kv sv windows m0 (m1, ts(j := Missed (Body i)))" .
  have "cluster_step s commit db kv sv windows (m1, ts(j := Missed (Body i)))
      (m2, ts(j := Loading (Body i) True))"
    using cluster_step.lock [where ts = "ts(j := Missed (Body i))" and j = j and tgt = "Body i"
        and m = m1 and won = True and m' = m2 and s = s] m2(1) by simp
  from cluster_reach.progress [OF r this]
  have r: "cluster_reach s commit db kv sv windows m0 (m2, ts(j := Loading (Body i) True))" .
  have "cluster_step s commit db kv sv windows (m2, ts(j := Loading (Body i) True))
      (m3, ts(j := Loaded (Body i) True (dump_article_json (svc_codec s) (article_out_of a))))"
    using cluster_step.load_body [where ts = "ts(j := Loading (Body i) True)" and j = j and i = i
        and m = m2 and a = a and m' = m3 and s = s and won = True] m3(1) by simp
  from cluster_reach.progress [OF r this] m2 m3 show ?thesis by auto
qed

lemma can_fill:
  assumes env: "environment s db kv sv clock" and up: "up s w0"
    and c: "cluster_reach s commit db kv sv windows m0 (m, ts)" and j: "ts j = Loaded tgt True content"
  shows "\<exists>m'. cluster_reach s commit db kv sv windows m0 (m', ts(j := Idle))
    \<and> db m' = db m \<and> sv m' = sv m
    \<and> kv m' = (kv m)(target_key s tgt \<mapsto> content, lock_key (target_key s tgt) := None)"
proof -
  from can_run [OF does_set [OF env] up] obtain m1 where
    m1: "runs s (cache_set (svc_redis s) (svc_policies s) (target_key s tgt) content 1) m (Inr ()) m1"
      "db m1 = db m" "sv m1 = sv m" "kv m1 = (kv m)(target_key s tgt \<mapsto> content)" by blast
  from can_run [OF does_release [OF env] up] obtain m2 where
    m2: "runs s (release_lock (svc_redis s) (svc_policies s) (target_key s tgt)) m1 (Inr ()) m2"
      "db m2 = db m1" "sv m2 = sv m1" "kv m2 = (kv m1)(lock_key (target_key s tgt) := None)" by blast
  have "cluster_step s commit db kv sv windows (m, ts) (m1, ts(j := Stored tgt True))"
    by (rule cluster_step.store [where ts = ts and j = j, OF j m1(1)])
  from cluster_reach.progress [OF c this]
  have r: "cluster_reach s commit db kv sv windows m0 (m1, ts(j := Stored tgt True))" .
  have "cluster_step s commit db kv sv windows (m1, ts(j := Stored tgt True)) (m2, ts(j := Idle))"
    using cluster_step.release [where ts = "ts(j := Stored tgt True)" and j = j and tgt = tgt
        and m = m1 and m' = m2 and s = s] m2(1) by simp
  from cluster_reach.progress [OF r this] m1 m2 show ?thesis by auto
qed

subsection \<open>The load that a write overtakes\<close>

lemma update_row_body:
  assumes "art_id a = i" and "deleted_at a = None" and "updated_at a = e"
  shows "body (update_row stamp (update_query i e t b) a) = b"
proof -
  have "body a = b" if same: "a\<lparr>title := t, body := b\<rparr> = a"
  proof -
    have "body (a\<lparr>title := t, body := b\<rparr>) = b" by simp
    then show ?thesis unfolding same .
  qed
  with assms show ?thesis
    by (auto simp: update_row_def update_query_def matches_cas assign_all_def Let_def)
qed

lemma verdict_body:
  assumes "write_verdict table actor i e = Inr a"
  shows "live_row table i = Some a
    \<and> live_row (update_effect stamp (update_query i e t b) table) i
      = Some (update_row stamp (update_query i e t b) a)
    \<and> body (update_row stamp (update_query i e t b) a) = b"
proof -
  from assms have a: "live_row table i = Some a" "updated_at a = e"
    by (auto simp: write_verdict_def split: option.splits if_splits)
  with live_row_Some [OF a(1)] update_row_body show ?thesis
    by (simp add: live_row_update [OF update_query_keeps_live])
qed

lemma overtaken_load:
  assumes "environment s db kv sv clock" and "transaction commit rollback db kv sv"
    and "has_session s" and "distinct (map art_id (db m0))" and "unlocked (kv m0)"
    and "write_verdict (db m0) actor i e = Inr a" and "body a \<noteq> b"
    and "kv m0 (article_key i) = None" and "counters_ok (kv m0) (author_id a)" and "up s w0"
  shows "\<exists>m fresh w. cluster_reach s commit db kv sv windows m0 (m, \<lambda>_. Idle)
    \<and> live_row (db m) i = Some fresh \<and> body fresh = b
    \<and> request.more w = m \<and> up s w
    \<and> fst (get_article s i w) = Inr (article_out_of a) \<and> out_body (article_out_of a) \<noteq> b"
proof -
  note env = assms(1) and up = assms(10)
  let ?k = "article_key i" and ?old = "dump_article_json (svc_codec s) (article_out_of a)"
  have live: "live_row (db m0) i = Some a" using verdict_body [OF assms(6)] by blast
  have free: "kv m0 (lock_key ?k) = None" using assms(5) by (simp add: unlocked_def)
  obtain m1 where m1: "db m1 = db m0" "kv m1 = (kv m0)(lock_key ?k \<mapsto> ''1'')"
    "cluster_reach s commit db kv sv windows m0 (m1, (\<lambda>_. Idle)(0 := Loaded (Body i) True ?old))"
    using can_load_body [OF env up cluster_reach.calm refl assms(4) live assms(8) free, where j = 0]
    by blast
  let ?ts = "(\<lambda>_ :: nat. Idle)(0 := Loaded (Body i) True ?old)"
  have "distinct (map art_id (db m1))" "write_verdict (db m1) actor i e = Inr a"
    using assms(4,6) by (simp_all add: m1(1))
  from can_update [OF env assms(2,3) this(1) up this(2), of "[]" b] obtain stamp m2 where
    m2: "commits s commit (Updating actor i [] b e) m1 \<lparr>inv_article = Some i, inv_author = author_id a\<rparr> m2"
      "kv m2 = kv m1" "db m2 = update_effect stamp (update_query i e [] b) (db m0)"
    unfolding m1(1) by blast
  let ?dropping = "Dropping \<lparr>inv_article = Some i, inv_author = author_id a\<rparr>"
  have "cluster_step s commit db kv sv windows (m1, ?ts) (m2, ?ts(1 := ?dropping))"
    by (rule cluster_step.transact [where ts = ?ts and j = 1, OF _ m2(1)]) simp
  from cluster_reach.progress [OF m1(3) this]
  have r: "cluster_reach s commit db kv sv windows m0 (m2, ?ts(1 := ?dropping))" .
  have "counters_ok (kv m2) (author_id a)"
    using assms(9) by (simp add: counters_ok_def generation_def m2(2) m1(2))
  from can_invalidate [OF env up r _ this, of 1 i] obtain m3 where
    m3: "cluster_reach s commit db kv sv windows m0 (m3, ?ts(1 := ?dropping, 1 := Idle))"
      "db m3 = db m2" by auto
  have "?ts(1 := ?dropping, 1 := Idle) = ?ts" by (rule ext) simp
  with m3(1) have r: "cluster_reach s commit db kv sv windows m0 (m3, ?ts)" by simp
  from can_fill [OF env up r, of 0 "Body i" ?old] obtain m4 where
    m4: "cluster_reach s commit db kv sv windows m0 (m4, ?ts(0 := Idle))" "db m4 = db m3"
      "kv m4 = (kv m3)(?k \<mapsto> ?old, lock_key ?k := None)" by auto
  have "?ts(0 := Idle) = (\<lambda>_ :: nat. Idle)" by (rule ext) simp
  with m4(1) have reach: "cluster_reach s commit db kv sv windows m0 (m4, \<lambda>_. Idle)" by simp
  let ?w = "w0\<lparr>session_info := None, request.more := m4\<rparr>"
  have w: "up s ?w" "request.more ?w = m4" using up_anywhere [OF up] by simp_all
  have "validate_article_json (svc_codec s) ?old = Some (article_out_of a)"
    using environmentD(3) [OF env] by (simp add: codec_ok_def)
  moreover obtain v where "cache_get_article (svc_redis s) (svc_policies s) i ?w = (Inr (Some ?old), v)"
    using cache_get_article_step [OF env w(1), of i] m4(3) w(2) by auto
  ultimately have "fst (get_article s i ?w) = Inr (article_out_of a)"
    by (simp add: get_article_def Let_def decode_article_def)
  moreover have "out_body (article_out_of a) \<noteq> b" using assms(7) by (simp add: article_out_of_def)
  moreover have "db m4 = update_effect stamp (update_query i e [] b) (db m0)"
    by (simp add: m4(2) m3(2) m2(3))
  ultimately show ?thesis
    using verdict_body [OF assms(6), of stamp "[]" b] reach w
    by (intro exI [of _ m4] exI [of _ "update_row stamp (update_query i e [] b) a"] exI [of _ ?w]) simp
qed

text \<open>C13. A committed update can stay invisible for the whole lifetime of a cache entry. A reader loads the
  old body; before it stores it, an update commits and its invalidation runs to the end; then the
  reader stores what it had loaded. No request is left in flight, the table has the new body, and the
  next read answers the old one, whatever the commands that failed: none did.\<close>

theorem stale_body_race:
  assumes "environment s db kv sv clock" and "transaction commit rollback db kv sv"
    and "has_session s" and "distinct (map art_id (db m0))" and "unlocked (kv m0)"
    and "write_verdict (db m0) actor i e = Inr a" and "body a \<noteq> b"
    and "kv m0 (article_key i) = None" and "counters_ok (kv m0) (author_id a)" and "up s w0"
  shows "\<exists>m fresh w. cluster_reach s commit db kv sv windows m0 (m, \<lambda>_. Idle)
    \<and> live_row (db m) i = Some fresh \<and> body fresh = b
    \<and> request.more w = m \<and> up s w
    \<and> fst (get_article s i w) = Inr (article_out_of a) \<and> out_body (article_out_of a) \<noteq> b"
  by (rule overtaken_load [OF assms])

subsection \<open>In the reference environment\<close>

lemma demo_unlocked: "unlocked (kv_entries (request.more demo_world))"
  by (simp add: unlocked_def demo_more)

lemma demo_coherent_pages:
  "coherent_pages demo_service demo_windows (table_view (request.more demo_world))
     (kv_entries (request.more demo_world))"
  using demo_coherent by (simp add: coherent_def)

lemma demo_ses: "has_session demo_service"
  by (simp add: demo_service_def)

abbreviation demo_reach :: "store \<times> (nat \<Rightarrow> thread) \<Rightarrow> bool" where
  "demo_reach \<equiv> cluster_reach demo_service demo_commit table_view kv_entries table_saved demo_windows
     (request.more demo_world)"

lemma demo_overtaken:
  "\<exists>m fresh w. demo_reach (m, \<lambda>_. Idle)
    \<and> live_row (table_view m) 4 = Some fresh \<and> body fresh = ''text''
    \<and> request.more w = m \<and> up demo_service w
    \<and> fst (get_article demo_service 4 w) = Inr (article_out_of (demo_article 4 7 200))
    \<and> out_body (article_out_of (demo_article 4 7 200)) \<noteq> ''text''"
proof (rule overtaken_load [OF demo_environment demo_transaction demo_ses demo_distinct demo_unlocked])
  show "write_verdict (table_view (request.more demo_world)) (demo_user 7 ''user'') 4 200
      = Inr (demo_article 4 7 200)"
    unfolding demo_more by (rule demo_verdict)
  show "body (demo_article 4 7 200) \<noteq> ''text''" by (simp add: demo_article_def)
  show "kv_entries (request.more demo_world) (article_key 4) = None" by (simp add: demo_more)
  show "counters_ok (kv_entries (request.more demo_world)) (author_id (demo_article 4 7 200))"
    by (rule demo_counters)
  show "up demo_service demo_world" by (rule demo_up(3))
qed

theorem stale_body_race_witness:
  "\<exists>m fresh w. demo_reach (m, \<lambda>_. Idle)
    \<and> live_row (table_view m) 4 = Some fresh \<and> body fresh = ''text''
    \<and> request.more w = m \<and> up demo_service w
    \<and> fst (get_article demo_service 4 w) = Inr (article_out_of (demo_article 4 7 200))
    \<and> out_body (article_out_of (demo_article 4 7 200)) \<noteq> ''text''"
proof (rule stale_body_race [OF demo_environment demo_transaction demo_ses demo_distinct demo_unlocked])
  show "write_verdict (table_view (request.more demo_world)) (demo_user 7 ''user'') 4 200
      = Inr (demo_article 4 7 200)"
    unfolding demo_more by (rule demo_verdict)
  show "body (demo_article 4 7 200) \<noteq> ''text''" by (simp add: demo_article_def)
  show "kv_entries (request.more demo_world) (article_key 4) = None" by (simp add: demo_more)
  show "counters_ok (kv_entries (request.more demo_world)) (author_id (demo_article 4 7 200))"
    by (rule demo_counters)
  show "up demo_service demo_world" by (rule demo_up(3))
qed

theorem listing_exact_after_requests_witness:
  "\<exists>m w. demo_reach (m, \<lambda>_. Idle)
    \<and> (\<exists>fresh. live_row (table_view m) 4 = Some fresh \<and> body fresh = ''text'')
    \<and> fst (list_articles demo_service 2 None (Some 7) w)
        = Inr (spec_page (table_view m) 2 None (Some 7))"
proof -
  obtain m fresh w where m: "demo_reach (m, \<lambda>_. Idle)" "live_row (table_view m) 4 = Some fresh"
    "body fresh = ''text''" "request.more w = m" "up demo_service w"
    using demo_overtaken by blast
  have "(2, None) \<in> demo_windows" by (simp add: demo_windows_def)
  from listing_exact_after_requests [OF demo_environment demo_transaction demo_ses demo_collision_free
      demo_distinct demo_coherent_pages demo_unlocked m(1) _ this m(5,4), where author = "Some 7"] m
  show ?thesis by auto
qed

lemma can_load_page:
  fixes author :: "int option"
  assumes env: "environment s db kv sv clock" and up: "up s w0"
    and c: "cluster_reach s commit db kv sv windows m0 (m, \<lambda>_. Idle)"
    and ids: "distinct (map art_id (db m))" and win: "(l, p) \<in> windows"
  defines "tgt \<equiv> Page l p author (generation (kv m) author)"
  assumes out: "kv m (target_key s tgt) = None" and free: "kv m (lock_key (target_key s tgt)) = None"
  shows "\<exists>m'. cluster_reach s commit db kv sv windows m0 (m', (\<lambda>_. Idle)(0 := Loaded tgt True
          (encode_page (svc_codec s) (fst (spec_page (db m) l p author)) (snd (spec_page (db m) l p author)))))
    \<and> db m' = db m \<and> kv m' = (kv m)(lock_key (target_key s tgt) \<mapsto> ''1'')"
proof -
  let ?k = "target_key s tgt"
  let ?w = "w0\<lparr>session_info := None, request.more := m\<rparr>"
  have w: "up s ?w" "request.more ?w = m" using up_anywhere [OF up] by simp_all
  obtain v gg ga where g: "get_generations (svc_redis s) (svc_policies s) author ?w = (Inr (gg, ga), v)"
    "(if author \<noteq> None then ga else gg) = generation (kv m) author"
    "read_step s db sv ?w v" "kv (request.more v) = kv m"
    using get_generations_step [OF env w(1), of author] unfolding w(2) by blast
  let ?m0 = "request.more v"
  have r0: "runs s (get_generations (svc_redis s) (svc_policies s) author) m (Inr (gg, ga)) ?m0"
    unfolding runs_def using w g(1) by blast
  have d0: "db ?m0 = db m" using g(3) w(2) by (simp add: read_step_def)
  from can_run [OF does_peek [OF env] up] obtain m1 where
    m1: "runs s (peek (svc_redis s) (svc_policies s) ?k) ?m0 (Inr (kv ?m0 ?k)) m1"
      "db m1 = db ?m0" "kv m1 = kv ?m0" by blast
  from can_run [OF does_lock [OF env] up, of ?k "lock_ttl s" m1] obtain m2 where
    m2: "runs s (acquire_lock (svc_redis s) (svc_policies s) ?k (lock_ttl s)) m1 (Inr True) m2"
      "db m2 = db m" "kv m2 = (kv m)(lock_key ?k \<mapsto> ''1'')"
    using free by (auto simp: m1 d0 g(4))
  have "distinct (map art_id (db m2))" using ids by (simp add: m2)
  from can_run [OF does_load_page [OF env this] up, of l p author] obtain m3 where
    m3: "runs s (load_page s l p author) m2 (Inr (spec_page (db m) l p author)) m3" "db m3 = db m"
      "kv m3 = kv m2" by (auto simp: m2)
  have "cluster_step s commit db kv sv windows (m, \<lambda>_. Idle) (?m0, (\<lambda>_. Idle)(0 := Looking tgt))"
    using cluster_step.ask_page [where ts = "\<lambda>_. Idle" and j = 0 and limit = l and after = p
        and s = s and m = m and gg = gg and ga = ga and author = author and m' = ?m0, OF refl win r0]
    unfolding g(2) tgt_def .
  from cluster_reach.progress [OF c this]
  have r: "cluster_reach s commit db kv sv windows m0 (?m0, (\<lambda>_. Idle)(0 := Looking tgt))" .
  have "cluster_step s commit db kv sv windows (?m0, (\<lambda>_. Idle)(0 := Looking tgt))
      (m1, (\<lambda>_. Idle)(0 := Missed tgt))"
    using cluster_step.miss [where ts = "(\<lambda>_. Idle)(0 := Looking tgt)" and j = 0 and tgt = tgt
        and m = ?m0 and raw = "kv ?m0 ?k" and m' = m1 and s = s] m1(1) out g(4)
    by (simp add: tgt_def decode_none)
  from cluster_reach.progress [OF r this]
  have r: "cluster_reach s commit db kv sv windows m0 (m1, (\<lambda>_. Idle)(0 := Missed tgt))" .
  have "cluster_step s commit db kv sv windows (m1, (\<lambda>_. Idle)(0 := Missed tgt))
      (m2, (\<lambda>_. Idle)(0 := Loading tgt True))"
    using cluster_step.lock [where ts = "(\<lambda>_. Idle)(0 := Missed tgt)" and j = 0 and tgt = tgt
        and m = m1 and won = True and m' = m2 and s = s] m2(1) by simp
  from cluster_reach.progress [OF r this]
  have r: "cluster_reach s commit db kv sv windows m0 (m2, (\<lambda>_. Idle)(0 := Loading tgt True))" .
  let ?r = "spec_page (db m) l p author"
  have "cluster_step s commit db kv sv windows (m2, (\<lambda>_. Idle)(0 := Loading tgt True))
      (m3, (\<lambda>_. Idle)(0 := Loaded tgt True (encode_page (svc_codec s) (fst ?r) (snd ?r))))"
    using cluster_step.load_page [where ts = "(\<lambda>_. Idle)(0 := Loading tgt True)" and j = 0
        and limit = l and after = p and author = author and g = "generation (kv m) author"
        and m = m2 and page = "fst ?r" and next_after = "snd ?r" and m' = m3 and s = s and won = True]
      m3(1)
    by (simp add: tgt_def)
  from cluster_reach.progress [OF r this] m2 m3 show ?thesis by auto
qed

theorem concurrent_pages_fresh_witness:
  "\<exists>m ts content m'. demo_reach (m, ts) \<and> \<not> awaited ts (Some 7)
    \<and> runs demo_service (peek memory_kv (svc_policies demo_service)
          (target_key demo_service (Page 2 None (Some 7) (generation (kv_entries m) (Some 7)))))
        m (Inr (Some content)) m'
    \<and> decode_page (svc_codec demo_service) (Some content)
        = Inr (Some (spec_page (table_view m) 2 None (Some 7)))"
proof -
  let ?m0 = "request.more demo_world" and ?p = "spec_page demo_table 2 None (Some 7)"
  let ?tgt = "Page 2 None (Some 7) (generation (kv_entries ?m0) (Some 7))"
  have win: "(2, None) \<in> demo_windows" by (simp add: demo_windows_def)
  have empty: "kv_entries ?m0 k = None" for k by (simp add: demo_more)
  obtain m1 where m1: "demo_reach (m1, (\<lambda>_. Idle)(0 := Loaded ?tgt True
        (encode_page (svc_codec demo_service) (fst ?p) (snd ?p))))"
      "kv_entries m1 = (kv_entries ?m0)(lock_key (target_key demo_service ?tgt) \<mapsto> ''1'')"
    using can_load_page [OF demo_environment demo_up(3) cluster_reach.calm demo_distinct win empty empty,
        where author = "Some 7" and commit = demo_commit] unfolding demo_more by blast
  from can_fill [OF demo_environment demo_up(3) m1(1), of 0] obtain m2 where
    m2: "demo_reach (m2, (\<lambda>_. Idle)(0 := Idle))"
      "kv_entries m2 = (kv_entries m1)(target_key demo_service ?tgt
         \<mapsto> encode_page (svc_codec demo_service) (fst ?p) (snd ?p),
         lock_key (target_key demo_service ?tgt) := None)" by auto
  have gen: "generation (kv_entries m2) (Some 7) = generation (kv_entries ?m0) (Some 7)"
    by (simp add: m2(2) m1(2) generation_def)
  have calm: "\<not> awaited ((\<lambda>_. Idle)(0 := Idle)) (Some 7)" by (simp add: awaited_def)
  have val: "kv_entries m2 (target_key demo_service ?tgt)
      = Some (encode_page (svc_codec demo_service) (fst ?p) (snd ?p))"
    by (simp add: m2(2))
  obtain m3 where m3: "runs demo_service (peek (svc_redis demo_service) (svc_policies demo_service)
          (target_key demo_service (Page 2 None (Some 7) (generation (kv_entries m2) (Some 7)))))
        m2 (Inr (Some (encode_page (svc_codec demo_service) (fst ?p) (snd ?p)))) m3"
    using can_run [OF does_peek [OF demo_environment, where key = "target_key demo_service ?tgt"
        and m = m2] demo_up(3)] unfolding val gen by blast
  from concurrent_pages_fresh [OF demo_environment demo_transaction demo_ses demo_collision_free
      demo_distinct demo_coherent_pages demo_unlocked m2(1) calm win m3]
  show ?thesis using m2(1) calm m3 by (auto simp: demo_service_def)
qed

end
