(* ===== verification/Degraded.thy ===== *)
theory Degraded
  imports Scenarios
begin

text \<open>
  Reading while Redis fails. Every command may answer or raise a cache failure, in any pattern, and one
  that fails may or may not have been carried out; the breaker of Redis may be in any state. The reads
  of the article service still answer what the table holds, and what the failures leave behind (a lock
  nobody released, a page nobody stored, a body stored after all) does not mislead the reads that
  follow. Two consecutive checks of the breaker with no \<open>await\<close> in between see the same clock.
\<close>

subsection \<open>A Redis that may fail\<close>

definition outcome :: "exn + 'a \<Rightarrow> ('a \<Rightarrow> bool) \<Rightarrow> bool" where
  "outcome r P = (case r of Inl e \<Rightarrow> is_cache_failure e | Inr a \<Rightarrow> P a)"

lemma outcome_any: "outcome r P \<Longrightarrow> outcome r (\<lambda>_. True)"
  by (auto simp: outcome_def split: sum.splits)

text \<open>The four commands a read sends.\<close>

definition unreliable :: "'m world redis_client \<Rightarrow> ('m \<Rightarrow> string \<Rightarrow> string option) \<Rightarrow> ('m \<Rightarrow> 'd) \<Rightarrow> bool" where
  "unreliable redis kv rest \<longleftrightarrow>
     (\<forall>k w. \<exists>r w'. redis_get redis k w = (r, w') \<and> outcome r (\<lambda>x. x = kv (request.more w) k)
        \<and> only_data rest w w' \<and> kv (request.more w') = kv (request.more w))
     \<and> (\<forall>ks w. \<exists>r w'. redis_mget redis ks w = (r, w')
        \<and> outcome r (\<lambda>xs. xs = map (kv (request.more w)) ks)
        \<and> only_data rest w w' \<and> kv (request.more w') = kv (request.more w))
     \<and> (\<forall>k v ex nx w. \<exists>r w'. redis_set redis k v ex nx w = (r, w')
        \<and> outcome r (\<lambda>ok. ok = (\<not> nx \<or> kv (request.more w) k = None)
            \<and> (ok \<longrightarrow> kv (request.more w') = (kv (request.more w))(k \<mapsto> v)))
        \<and> only_data rest w w'
        \<and> (kv (request.more w') = kv (request.more w)
           \<or> (\<not> nx \<or> kv (request.more w) k = None)
             \<and> kv (request.more w') = (kv (request.more w))(k \<mapsto> v)))
     \<and> (\<forall>k w. \<exists>r w'. redis_delete redis k w = (r, w')
        \<and> outcome r (\<lambda>_. kv (request.more w') = (kv (request.more w))(k := None))
        \<and> only_data rest w w'
        \<and> (kv (request.more w') = kv (request.more w)
           \<or> kv (request.more w') = (kv (request.more w))(k := None)))"

lemma unreliableD:
  assumes "unreliable redis kv rest"
  shows "\<exists>r w'. redis_get redis k w = (r, w') \<and> outcome r (\<lambda>x. x = kv (request.more w) k)
        \<and> only_data rest w w' \<and> kv (request.more w') = kv (request.more w)"
    and "\<exists>r w'. redis_mget redis ks w = (r, w') \<and> outcome r (\<lambda>xs. xs = map (kv (request.more w)) ks)
        \<and> only_data rest w w' \<and> kv (request.more w') = kv (request.more w)"
    and "\<exists>r w'. redis_set redis k v ex nx w = (r, w')
        \<and> outcome r (\<lambda>ok. ok = (\<not> nx \<or> kv (request.more w) k = None)
            \<and> (ok \<longrightarrow> kv (request.more w') = (kv (request.more w))(k \<mapsto> v)))
        \<and> only_data rest w w'
        \<and> (kv (request.more w') = kv (request.more w)
           \<or> (\<not> nx \<or> kv (request.more w) k = None)
             \<and> kv (request.more w') = (kv (request.more w))(k \<mapsto> v))"
    and "\<exists>r w'. redis_delete redis k w = (r, w')
        \<and> outcome r (\<lambda>_. kv (request.more w') = (kv (request.more w))(k := None))
        \<and> only_data rest w w'
        \<and> (kv (request.more w') = kv (request.more w)
           \<or> kv (request.more w') = (kv (request.more w))(k := None))"
  using assms unfolding unreliable_def by blast+

text \<open>A Redis that always answers is one of them.\<close>

lemma stores_unreliable: "stores redis kv rest \<Longrightarrow> unreliable redis kv rest"
proof -
  assume s: "stores redis kv rest"
  have set: "\<exists>r w'. redis_set redis k v ex nx w = (r, w')
        \<and> outcome r (\<lambda>ok. ok = (\<not> nx \<or> kv (request.more w) k = None)
            \<and> (ok \<longrightarrow> kv (request.more w') = (kv (request.more w))(k \<mapsto> v)))
        \<and> only_data rest w w'
        \<and> (kv (request.more w') = kv (request.more w)
           \<or> (\<not> nx \<or> kv (request.more w) k = None)
             \<and> kv (request.more w') = (kv (request.more w))(k \<mapsto> v))" for k v ex nx w
    using storesD(3) [OF s, of k v ex nx w] by (auto simp: outcome_def)
  show ?thesis
    unfolding unreliable_def
    using storesD(1) [OF s] storesD(2) [OF s] set storesD(4) [OF s]
    by (intro conjI allI) (fastforce simp: outcome_def)+
qed

subsection \<open>One command\<close>

text \<open>A cache instance that can find its breaker, or make it.\<close>

definition breaker_known :: "(string \<rightharpoonup> dependency_policy) \<Rightarrow> 'm world \<Rightarrow> bool" where
  "breaker_known policies w \<longleftrightarrow>
     (policies ''redis'' \<noteq> None \<or> breakers w ''redis'' \<noteq> None)
     \<and> (cache_breaker (cache w) = None
        \<or> cache_breaker (cache w) = Some ''redis'' \<and> breakers w ''redis'' \<noteq> None)"

text \<open>What a call of the cache leaves alone, whether it fails or not.\<close>

definition spared ::
  "(string \<rightharpoonup> dependency_policy) \<Rightarrow> ('m \<Rightarrow> 'd) \<Rightarrow> 'm world \<Rightarrow> 'm world \<Rightarrow> bool" where
  "spared policies rest w v \<longleftrightarrow>
     session_info v = session_info w \<and> breakers v ''mysql'' = breakers w ''mysql''
     \<and> rest (request.more v) = rest (request.more w) \<and> breaker_known policies v"

text \<open>A cache that lets no command through: off, latched, or behind a breaker that refuses.\<close>

definition muted :: "(string \<rightharpoonup> dependency_policy) \<Rightarrow> 'm world \<Rightarrow> bool" where
  "muted policies w \<longleftrightarrow> live policies w = (Inr False, w)"

lemma muted_try: "muted policies w \<Longrightarrow> try_redis policies op fb cmd fin w = (Inr fb, w)"
  by (simp add: muted_def try_redis_refused)

text \<open>A refusal is repeated as long as the clock stands still.\<close>

lemma allow_refused: "allow t b = (False, b') \<Longrightarrow> allow t b' = (False, b')"
proof -
  have h: "cb_state (to_half_open b) = HALF_OPEN" by (simp add: breaker_defs)
  assume "allow t b = (False, b')"
  then show ?thesis using h by (auto simp: allow_def admit_probe_def split: if_splits)
qed

lemma live_known:
  assumes k: "breaker_known policies w"
  shows "\<exists>ok v. live policies w = (Inr ok, v) \<and> spared policies rest w v
    \<and> request.more v = request.more w
    \<and> (if ok then cache_breaker (cache v) = Some ''redis'' else muted policies v)"
proof (cases "usable w")
  case False
  from live_unusable [OF this, of policies] k show ?thesis
    by (intro exI [of _ False] exI [of _ w]) (simp add: spared_def muted_def)
next
  case True
  let ?c = "(cache w)\<lparr>cache_breaker := Some ''redis''\<rparr>"
  obtain b where r: "\<exists>w0. resolve_breaker policies w = (Inr ''redis'', w0) \<and> cache w0 = ?c
      \<and> session_info w0 = session_info w \<and> request.more w0 = request.more w \<and> now w0 = now w
      \<and> breakers w0 ''mysql'' = breakers w ''mysql'' \<and> breakers w0 ''redis'' = Some b"
  proof (cases "breakers w ''redis''")
    case (Some b)
    with k show ?thesis
      by (intro that [of b]) (auto simp: resolve_breaker_def breaker_known_def)
  next
    case None
    with k obtain p where "policies ''redis'' = Some p" "cache_breaker (cache w) = None"
      by (auto simp: breaker_known_def)
    with None show ?thesis
      by (intro that [of "new_breaker ''redis'' (pol_failure_threshold p) (pol_reset_seconds p)
          (pol_half_open_max_calls p) []"]) (simp add: resolve_breaker_def get_breaker_def)
  qed
  then obtain w0 where w0: "resolve_breaker policies w = (Inr ''redis'', w0)" "cache w0 = ?c"
    "session_info w0 = session_info w" "request.more w0 = request.more w" "now w0 = now w"
    "breakers w0 ''mysql'' = breakers w ''mysql''" "breakers w0 ''redis'' = Some b" by blast
  obtain ok b' where a: "allow (now w) b = (ok, b')" by fastforce
  let ?v = "update_breaker ''redis'' (\<lambda>_. b') w0"
  have l: "live policies w = (Inr ok, ?v)"
    using True w0 a by (simp add: live_def usable_def breaker_allow_def)
  have kv: "spared policies rest w ?v" "request.more ?v = request.more w"
    "cache_breaker (cache ?v) = Some ''redis''"
    using w0 by (simp_all add: spared_def breaker_known_def update_breaker_def)
  have "muted policies ?v" if no: "\<not> ok"
  proof -
    have again: "allow (now ?v) b' = (False, b')" using allow_refused a no w0(5) by simp
    have "resolve_breaker policies ?v = (Inr ''redis'', ?v)"
      using w0(2) by (simp add: resolve_breaker_def)
    moreover have "breaker_allow ''redis'' ?v = (Inr False, update_breaker ''redis'' (\<lambda>_. b') ?v)"
      using w0(7) again by (simp add: breaker_allow_def)
    moreover have "update_breaker ''redis'' (\<lambda>_. b') ?v = ?v"
      using w0(7) by (simp add: update_breaker_def)
    ultimately show ?thesis
      using True w0(2) by (simp add: muted_def live_def usable_def bind_cmd_def)
  qed
  with l kv show ?thesis by (intro exI [of _ ok] exI [of _ ?v]) simp
qed

text \<open>\<open>P\<close> holds of the answer, if there is one, and \<open>R\<close> of what the command leaves behind.\<close>

definition tried ::
  "('m \<Rightarrow> 'd) \<Rightarrow> ('m world, 'a) command \<Rightarrow> ('a \<Rightarrow> bool) \<Rightarrow> ('m \<Rightarrow> bool) \<Rightarrow> 'm world \<Rightarrow> bool" where
  "tried rest cmd P R w \<longleftrightarrow>
     (\<forall>u. request.more u = request.more w \<longrightarrow>
        (\<exists>r u'. cmd u = (r, u') \<and> outcome r P \<and> only_data rest u u' \<and> R (request.more u')))"

lemma degrade_fields [simp]:
  "session_info (degrade op w) = session_info w" "request.more (degrade op w) = request.more w"
  "cache_breaker (cache (degrade op w)) = cache_breaker (cache w)"
  by (auto simp: degrade_def Let_def breaker_fails_def update_breaker_def log_metric_def
      split: option.split)

lemma degrade_breakers:
  assumes "cache_breaker (cache w) = Some ''redis''"
  shows "breakers (degrade op w) ''mysql'' = breakers w ''mysql''"
    and "breakers (degrade op w) ''redis'' = None \<longleftrightarrow> breakers w ''redis'' = None"
    and "muted policies (degrade op w)"
proof -
  show "breakers (degrade op w) ''mysql'' = breakers w ''mysql''"
    "breakers (degrade op w) ''redis'' = None \<longleftrightarrow> breakers w ''redis'' = None"
    using assms by (simp_all add: degrade_def Let_def verdict_breakers log_metric_def)
  have "\<not> usable (degrade op w)"
    using assms by (simp add: degrade_def Let_def usable_def log_metric_def)
  then show "muted policies (degrade op w)" by (simp add: muted_def live_unusable)
qed

lemma try_tried:
  assumes known: "breaker_known policies w" and cmd: "tried rest cmd P R w"
    and here: "R (request.more w)"
    and fin: "\<And>a v. fst (fin a v) = f a \<and> only_data rest v (snd (fin a v))
        \<and> request.more (snd (fin a v)) = request.more v"
  shows "\<exists>v. spared policies rest w v \<and> R (request.more v)
    \<and> ((\<exists>a. try_redis policies op fb cmd fin w = (Inr (f a), v) \<and> P a)
       \<or> try_redis policies op fb cmd fin w = (Inr fb, v) \<and> muted policies v)"
proof -
  from live_known [OF known, of rest] obtain ok w1 where w1: "live policies w = (Inr ok, w1)"
    "spared policies rest w w1" "request.more w1 = request.more w"
    "if ok then cache_breaker (cache w1) = Some ''redis'' else muted policies w1" by blast
  show ?thesis
  proof (cases ok)
    case False
    with w1 have "try_redis policies op fb cmd fin w = (Inr fb, w1)" by (simp add: try_redis_refused)
    with False w1 here show ?thesis by auto
  next
    case True
    with w1(4) have c1: "cache_breaker (cache w1) = Some ''redis''" by simp
    from cmd w1(3) obtain r w2 where w2: "cmd w1 = (r, w2)" "only_data rest w1 w2"
      "outcome r P" "R (request.more w2)" unfolding tried_def by blast
    have c2: "cache_breaker (cache w2) = Some ''redis''" "breakers w2 = breakers w1"
      using w2(2) c1 by (simp_all add: only_data_def kept_def)
    have s2: "spared policies rest w w2"
      using w1(2) w2(2) by (simp add: spared_def breaker_known_def only_data_def kept_def)
    show ?thesis
    proof (cases r)
      case (Inl e)
      with w1(1) w2 True have "try_redis policies op fb cmd fin w = (Inr fb, degrade op w2)"
        by (simp add: try_redis_def outcome_def)
      moreover have "spared policies rest w (degrade op w2)"
        using s2 degrade_breakers [OF c2(1)] c2(1) by (simp add: spared_def breaker_known_def)
      ultimately show ?thesis using w2(4) degrade_breakers(3) [OF c2(1)] by auto
    next
      case (Inr a)
      let ?u = "breaker_succeeds ''redis'' w2" and ?v = "snd (fin a (breaker_succeeds ''redis'' w2))"
      have "succeed w2 = ?u" using c2(1) by (simp add: succeed_def)
      with w1(1) w2(1) True Inr fin have run: "try_redis policies op fb cmd fin w = (Inr (f a), ?v)"
        by (simp add: try_redis_def case_prod_beta)
      have "spared policies rest w ?u"
        using s2 by (simp add: spared_def breaker_known_def verdict_breakers)
      moreover have "only_data rest ?u ?v" "request.more ?v = request.more ?u"
        using fin by blast+
      ultimately have "spared policies rest w ?v"
        by (simp add: spared_def breaker_known_def only_data_def kept_def)
      moreover have "P a" using w2(3) Inr by (simp add: outcome_def)
      ultimately show ?thesis using run w2(4) \<open>request.more ?v = request.more ?u\<close> by auto
    qed
  qed
qed

subsection \<open>The methods\<close>

lemma get_tried:
  fixes w :: "'m world"
  assumes "unreliable redis kv rest"
  shows "tried rest (redis_get redis key) (\<lambda>x. x = kv (request.more w) key)
    (\<lambda>m. kv m = kv (request.more w)) w"
  unfolding tried_def using unreliableD(1) [OF assms] by fastforce

lemma cache_get_tried:
  assumes "unreliable redis kv rest" and "breaker_known policies w"
  shows "\<exists>r v. cache_get redis policies key entity w = (Inr r, v) \<and> spared policies rest w v
    \<and> kv (request.more v) = kv (request.more w)
    \<and> (r = kv (request.more w) key \<or> r = None \<and> muted policies v)"
proof -
  let ?fin = "\<lambda>value w. case value of
      None \<Rightarrow> (None, log_metric (observe_cache_miss entity) w)
    | Some v \<Rightarrow> (Some v, log_metric (observe_cache_hit entity) w)"
  have "fst (?fin a u) = a \<and> only_data rest u (snd (?fin a u))
      \<and> request.more (snd (?fin a u)) = request.more u" for a and u :: "'a world"
    by (simp split: option.split)
  from try_tried [where op = "''get''" and fb = None and f = "\<lambda>x. x" and fin = ?fin,
      OF assms(2) get_tried [OF assms(1)] refl this] show ?thesis
    unfolding cache_get_def by blast
qed

lemma peek_tried:
  assumes "unreliable redis kv rest" and "breaker_known policies w"
  shows "\<exists>r v. peek redis policies key w = (Inr r, v) \<and> spared policies rest w v
    \<and> kv (request.more v) = kv (request.more w) \<and> (r = kv (request.more w) key \<or> r = None)"
  using try_tried [where op = "''get''" and fb = None and f = "\<lambda>x. x" and fin = "\<lambda>a w. (a, w)",
      OF assms(2) get_tried [OF assms(1), of key] refl]
  unfolding peek_def by auto

lemma get_generations_tried:
  assumes "unreliable redis kv rest" and "breaker_known policies w"
  shows "\<exists>gg ga v. get_generations redis policies author w = (Inr (gg, ga), v)
    \<and> spared policies rest w v \<and> kv (request.more v) = kv (request.more w)
    \<and> ((if author \<noteq> None then ga else gg) = generation (kv (request.more w)) author
       \<or> gg = 0 \<and> ga = 0 \<and> muted policies v)"
proof -
  let ?vals = "map (kv (request.more w)) (generation_keys author)"
  let ?R = "\<lambda>m. kv m = kv (request.more w)"
  let ?f = "\<lambda>values :: string option list.
      let parsed = map as_int values; padded = parsed @ replicate (2 - length parsed) 0 in
      (padded ! 0, padded ! 1)"
  have "tried rest (redis_mget redis (generation_keys author)) (\<lambda>x. x = ?vals) ?R w"
    unfolding tried_def using unreliableD(2) [OF assms(1)] by fastforce
  then have "\<exists>v. spared policies rest w v \<and> ?R (request.more v)
    \<and> ((\<exists>a. get_generations redis policies author w = (Inr (?f a), v) \<and> a = ?vals)
       \<or> get_generations redis policies author w = (Inr (0, 0), v) \<and> muted policies v)"
    unfolding get_generations_def
    by (intro try_tried [where P = "\<lambda>x. x = ?vals" and R = ?R, OF assms(2)]) (simp_all add: Let_def)
  then obtain v where v: "spared policies rest w v" "kv (request.more v) = kv (request.more w)"
    "get_generations redis policies author w = (Inr (?f ?vals), v)
     \<or> get_generations redis policies author w = (Inr (0, 0), v) \<and> muted policies v" by blast
  have "(if author \<noteq> None then snd (?f ?vals) else fst (?f ?vals))
      = generation (kv (request.more w)) author"
    by (cases author) (simp_all add: generation_def generation_keys_def Let_def numeral_2_eq_2)
  moreover obtain gg ga where "?f ?vals = (gg, ga)" by fastforce
  ultimately show ?thesis using v by (metis fst_conv snd_conv)
qed

text \<open>What the commands that write may have done to one key.\<close>

lemma cache_set_tried:
  assumes "unreliable redis kv rest" and "breaker_known policies w"
  shows "\<exists>v. cache_set redis policies key val ttl w = (Inr (), v) \<and> spared policies rest w v
    \<and> (kv (request.more v) = kv (request.more w)
       \<or> kv (request.more v) = (kv (request.more w))(key \<mapsto> val))"
proof -
  have "tried rest (redis_set redis key val (max 1 ttl) False) (\<lambda>_. True)
      (\<lambda>m. kv m = kv (request.more w) \<or> kv m = (kv (request.more w))(key \<mapsto> val)) w"
    unfolding tried_def
  proof (intro allI impI)
    fix u :: "'a world"
    assume "request.more u = request.more w"
    with unreliableD(3) [OF assms(1), of key val "max 1 ttl" False u]
    show "\<exists>r u'. redis_set redis key val (max 1 ttl) False u = (r, u') \<and> outcome r (\<lambda>_. True)
        \<and> only_data rest u u' \<and> (kv (request.more u') = kv (request.more w)
          \<or> kv (request.more u') = (kv (request.more w))(key \<mapsto> val))"
      using outcome_any by metis
  qed
  from try_tried [OF assms(2) this, where f = "\<lambda>_. ()" and fin = "\<lambda>_ w. ((), w)"] show ?thesis
    unfolding cache_set_def by auto
qed

lemma relocked: "\<exists>x. e = e(lock_key key := x)"
  by (intro exI [of _ "e (lock_key key)"]) simp

lemma acquire_lock_tried:
  assumes "unreliable redis kv rest" and "breaker_known policies w"
  shows "\<exists>won v. acquire_lock redis policies key ttl w = (Inr won, v) \<and> spared policies rest w v
    \<and> (\<exists>x. kv (request.more v) = (kv (request.more w))(lock_key key := x))"
proof -
  have "tried rest (redis_set redis (lock_key key) ''1'' (max 1 ttl) True) (\<lambda>_. True)
      (\<lambda>m. \<exists>x. kv m = (kv (request.more w))(lock_key key := x)) w"
    unfolding tried_def
  proof (intro allI impI)
    fix u :: "'a world"
    assume "request.more u = request.more w"
    with unreliableD(3) [OF assms(1), of "lock_key key" "''1''" "max 1 ttl" True u]
    obtain r u' where "redis_set redis (lock_key key) ''1'' (max 1 ttl) True u = (r, u')"
      "outcome r (\<lambda>_. True)" "only_data rest u u'"
      "kv (request.more u') = kv (request.more w)
       \<or> kv (request.more u') = (kv (request.more w))(lock_key key \<mapsto> ''1'')"
      using outcome_any by metis
    then show "\<exists>r u'. redis_set redis (lock_key key) ''1'' (max 1 ttl) True u = (r, u')
        \<and> outcome r (\<lambda>_. True) \<and> only_data rest u u'
        \<and> (\<exists>x. kv (request.more u') = (kv (request.more w))(lock_key key := x))"
      using relocked by metis
  qed
  from try_tried [where op = "''lock''" and fb = True and f = "\<lambda>x. x" and fin = "\<lambda>a w. (a, w)",
      OF assms(2) this relocked] show ?thesis
    unfolding acquire_lock_def by (simp del: fun_upd_apply) blast
qed

lemma release_lock_tried:
  assumes "unreliable redis kv rest" and "breaker_known policies w"
  shows "\<exists>v. release_lock redis policies key w = (Inr (), v) \<and> spared policies rest w v
    \<and> (\<exists>x. kv (request.more v) = (kv (request.more w))(lock_key key := x))"
proof -
  have "tried rest (redis_delete redis (lock_key key)) (\<lambda>_. True)
      (\<lambda>m. \<exists>x. kv m = (kv (request.more w))(lock_key key := x)) w"
    unfolding tried_def
  proof (intro allI impI)
    fix u :: "'a world"
    assume "request.more u = request.more w"
    with unreliableD(4) [OF assms(1), of "lock_key key" u]
    obtain r u' where "redis_delete redis (lock_key key) u = (r, u')"
      "outcome r (\<lambda>_. True)" "only_data rest u u'"
      "kv (request.more u') = kv (request.more w)
       \<or> kv (request.more u') = (kv (request.more w))(lock_key key := None)"
      using outcome_any by metis
    then show "\<exists>r u'. redis_delete redis (lock_key key) u = (r, u')
        \<and> outcome r (\<lambda>_. True) \<and> only_data rest u u'
        \<and> (\<exists>x. kv (request.more u') = (kv (request.more w))(lock_key key := x))"
      using relocked by metis
  qed
  from try_tried [where op = "''lock''" and fb = "()" and f = "\<lambda>_. ()" and fin = "\<lambda>_ w. ((), w)",
      OF assms(2) this relocked] show ?thesis
    unfolding release_lock_def by (simp del: fun_upd_apply) blast
qed

subsection \<open>What holds throughout\<close>

text \<open>
  The keys of Redis tell no lie about the table. Locks may be left over, and pages under generations
  that have passed may be anything.
\<close>

definition trusted ::
  "'m world article_service \<Rightarrow> (int \<times> position option) set \<Rightarrow> article list \<Rightarrow> (string \<rightharpoonup> string) \<Rightarrow> bool" where
  "trusted s windows table e \<longleftrightarrow>
     coherent_articles s table e \<and> coherent_pages s windows table e
     \<and> (\<forall>author. 0 \<le> generation e author)"

lemma trusted_lock: "trusted s windows table e \<Longrightarrow> trusted s windows table (e(lock_key k := x))"
  by (simp add: trusted_def coherent_articles_def coherent_pages_def)

lemma trusted_put_article:
  assumes "trusted s windows table e" and "live_row table i = Some a" and "codec_ok (svc_codec s)"
  shows "trusted s windows table
    (e(article_key i \<mapsto> dump_article_json (svc_codec s) (article_out_of a)))"
  using assms articles_put [OF _ assms(2,3), of e] by (simp add: trusted_def coherent_pages_def)

lemma trusted_put_page:
  fixes author :: "int option"
  assumes "trusted s windows table e" and "codec_ok (svc_codec s)"
    and "collision_free (sha256_hex s) windows" and "(limit, after) \<in> windows"
    and "g \<le> generation e author"
  shows "trusted s windows table (e(list_key (sha256_hex s) g author limit after
     \<mapsto> encode_page (svc_codec s) (fst (spec_page table limit after author))
         (snd (spec_page table limit after author))))"
  using assms pages_put [OF _ assms(2-5), of table]
  by (simp add: trusted_def coherent_articles_def)

definition sound ::
  "'m world article_service \<Rightarrow> ('m \<Rightarrow> article list) \<Rightarrow> ('m \<Rightarrow> string \<Rightarrow> string option)
   \<Rightarrow> (int \<times> position option) set \<Rightarrow> article list \<Rightarrow> 'm world \<Rightarrow> bool" where
  "sound s db kv windows table w \<longleftrightarrow>
     mysql_up s w \<and> breaker_known (svc_policies s) w \<and> db (request.more w) = table
     \<and> trusted s windows table (kv (request.more w))"

text \<open>A step of a reading request, or of the tasks it waits for.\<close>

definition weathered ::
  "'m world article_service \<Rightarrow> ('m \<Rightarrow> article list) \<Rightarrow> ('m \<Rightarrow> string \<Rightarrow> string option) \<Rightarrow> ('m \<Rightarrow> 's)
   \<Rightarrow> (int \<times> position option) set \<Rightarrow> article list \<Rightarrow> 'm world \<Rightarrow> 'm world \<Rightarrow> bool" where
  "weathered s db kv sv windows table w v \<longleftrightarrow>
     sound s db kv windows table v \<and> session_info v = session_info w
     \<and> sv (request.more v) = sv (request.more w)
     \<and> (\<forall>a. generation (kv (request.more v)) a = generation (kv (request.more w)) a)"

lemma weathered_refl: "sound s db kv windows table w \<Longrightarrow> weathered s db kv sv windows table w w"
  by (simp add: weathered_def)

lemma weathered_trans [trans]:
  "weathered s db kv sv windows table u v \<Longrightarrow> weathered s db kv sv windows table v w \<Longrightarrow>
   weathered s db kv sv windows table u w"
  by (simp add: weathered_def)

lemma weathered_sound: "weathered s db kv sv windows table w v \<Longrightarrow> sound s db kv windows table v"
  by (simp add: weathered_def)

lemma spared_weathered:
  assumes "spared (svc_policies s) (\<lambda>m. (db m, sv m)) w v" and "sound s db kv windows table w"
    and "trusted s windows table (kv (request.more v))"
    and "\<And>a. generation (kv (request.more v)) a = generation (kv (request.more w)) a"
  shows "weathered s db kv sv windows table w v"
  using assms by (simp add: weathered_def sound_def spared_def mysql_up_def)

text \<open>MySQL answers, Redis may fail.\<close>

definition half_up ::
  "'m world article_service \<Rightarrow> ('m \<Rightarrow> article list) \<Rightarrow> ('m \<Rightarrow> string \<Rightarrow> string option)
   \<Rightarrow> ('m \<Rightarrow> 's) \<Rightarrow> ('m \<Rightarrow> datetime) \<Rightarrow> bool" where
  "half_up s db kv sv clock \<longleftrightarrow>
     serves (repo_session (articles s)) db clock (\<lambda>m. (kv m, sv m))
     \<and> unreliable (svc_redis s) kv (\<lambda>m. (db m, sv m)) \<and> codec_ok (svc_codec s)"

lemma half_upD:
  assumes "half_up s db kv sv clock"
  shows "serves (repo_session (articles s)) db clock (\<lambda>m. (kv m, sv m))"
    and "unreliable (svc_redis s) kv (\<lambda>m. (db m, sv m))" and "codec_ok (svc_codec s)"
  using assms by (simp_all add: half_up_def)

text \<open>What other tasks do while this one sleeps: they read.\<close>

definition others_read ::
  "'m world article_service \<Rightarrow> ('m \<Rightarrow> article list) \<Rightarrow> ('m \<Rightarrow> string \<Rightarrow> string option) \<Rightarrow> ('m \<Rightarrow> 's)
   \<Rightarrow> (int \<times> position option) set \<Rightarrow> article list \<Rightarrow> bool" where
  "others_read s db kv sv windows table \<longleftrightarrow>
     (\<forall>w. sound s db kv windows table w \<longrightarrow>
        weathered s db kv sv windows table w (others_run s w))"

subsection \<open>The parts of a read\<close>

lemma soundD:
  assumes "sound s db kv windows table w"
  shows "mysql_up s w" and "breaker_known (svc_policies s) w" and "db (request.more w) = table"
    and "trusted s windows table (kv (request.more w))"
  using assms by (simp_all add: sound_def)

lemma mysql_weathered:
  assumes "kept (\<lambda>m. (kv m, sv m)) w v" and "mysql_up s v" and "db (request.more v) = db (request.more w)"
    and "sound s db kv windows table w"
  shows "weathered s db kv sv windows table w v"
  using assms by (simp add: weathered_def sound_def kept_def breaker_known_def)

lemma load_weathered:
  assumes "half_up s db kv sv clock" and "sound s db kv windows table w" and "distinct (map art_id table)"
  shows "\<exists>v. load s i w = (case live_row table i of None \<Rightarrow> Inl not_found | Some a \<Rightarrow> Inr a, v)
    \<and> weathered s db kv sv windows table w v"
  using load_ok [OF half_upD(1) [OF assms(1)] soundD(1) [OF assms(2)], of i] assms(3)
    soundD(3) [OF assms(2)] mysql_weathered [OF _ _ _ assms(2)] by auto

lemma load_page_weathered:
  assumes "half_up s db kv sv clock" and "sound s db kv windows table w" and "distinct (map art_id table)"
  shows "\<exists>v. load_page s limit after author w = (Inr (spec_page table limit after author), v)
    \<and> weathered s db kv sv windows table w v"
proof -
  from repo_list_ok [OF half_upD(1) [OF assms(1)] soundD(1) [OF assms(2)], of "limit + 1" after author]
    assms(3) soundD(3) [OF assms(2)] obtain v where
    v: "repo_list (articles s) (limit + 1) after author w = (Inr (map summary_row
        (run_select (build_list_query (limit + 1) after author) table)), v)"
      "mysql_up s v" "db (request.more v) = db (request.more w)" "kept (\<lambda>m. (kv m, sv m)) w v" by auto
  have "load_page s limit after author w = (Inr (spec_page table limit after author), v)"
    using v(1) by (simp add: load_page_def spec_page_def bind_cmd_def Let_def case_prod_beta)
  with mysql_weathered [OF v(4,2,3) assms(2)] show ?thesis by blast
qed

lemma await_weathered:
  assumes env: "half_up s db kv sv clock" and calm: "others_read s db kv sv windows table"
    and P: "\<forall>e found. trusted s windows table e \<longrightarrow> (\<forall>a. generation e a = gens a)
      \<longrightarrow> e key = Some found \<longrightarrow> P found"
  shows "sound s db kv windows table w \<Longrightarrow> \<forall>a. generation (kv (request.more w)) a = gens a \<Longrightarrow>
    \<exists>r v. await_loop s n deadline key w = (Inr r, v) \<and> weathered s db kv sv windows table w v
      \<and> (\<forall>text. r = Some text \<longrightarrow> P text)"
proof (induction n arbitrary: w)
  case 0
  then show ?case by (simp add: weathered_refl)
next
  case (Suc n)
  show ?case
  proof (cases "now w < deadline")
    case False
    with Suc.prems show ?thesis by (simp add: weathered_refl)
  next
    case True
    let ?u = "sleep_cmd s POLL_INTERVAL_SECONDS w"
    have "weathered s db kv sv windows table w (others_run s w)"
      using calm Suc.prems(1) by (simp add: others_read_def)
    then have wu: "weathered s db kv sv windows table w ?u"
      by (simp add: sleep_cmd_def Let_def weathered_def sound_def mysql_up_def breaker_known_def)
    note u = soundD [OF weathered_sound [OF wu]]
    from peek_tried [OF half_upD(2) [OF env] u(2)] obtain r v where
      v: "peek (svc_redis s) (svc_policies s) key ?u = (Inr r, v)"
        "spared (svc_policies s) (\<lambda>m. (db m, sv m)) ?u v" "kv (request.more v) = kv (request.more ?u)"
        "r = kv (request.more ?u) key \<or> r = None" by blast
    have uv: "weathered s db kv sv windows table ?u v"
      using spared_weathered [OF v(2) weathered_sound [OF wu]] u(4) v(3) by simp
    have wv: "weathered s db kv sv windows table w v" using wu uv by (rule weathered_trans)
    have gens: "\<forall>a. generation (kv (request.more ?u)) a = gens a"
      "\<forall>a. generation (kv (request.more v)) a = gens a"
      using wu Suc.prems(2) v(3) by (simp_all add: weathered_def)
    show ?thesis
    proof (cases r)
      case None
      from Suc.IH [OF weathered_sound [OF wv] gens(2)] obtain r' v' where
        "await_loop s n deadline key v = (Inr r', v')" "weathered s db kv sv windows table v v'"
        "\<forall>text. r' = Some text \<longrightarrow> P text" by blast
      with True None v(1) weathered_trans [OF wv] show ?thesis by auto
    next
      case (Some found)
      with v(4) have "kv (request.more ?u) key = Some found" by auto
      with P u(4) gens(1) have "P found" by blast
      with Some True v(1) wv show ?thesis by auto
    qed
  qed
qed

text \<open>
  The single flight: whoever wins goes on, and a loser is given nothing, or something a reader may
  trust; a muted cache lets everybody win.
\<close>

lemma flight_weathered:
  assumes env: "half_up s db kv sv clock" and calm: "others_read s db kv sv windows table"
    and snd: "sound s db kv windows table w"
    and P: "muted (svc_policies s) w \<or> (\<forall>e found. trusted s windows table e
        \<longrightarrow> (\<forall>a. generation e a = generation (kv (request.more w)) a)
        \<longrightarrow> e key = Some found \<longrightarrow> P found)"
  shows "\<exists>won found u v. acquire_lock (svc_redis s) (svc_policies s) key ttl w = (Inr won, u)
    \<and> (if won then return_cmd None else await_loader s key) u = (Inr found, v)
    \<and> weathered s db kv sv windows table w v \<and> (\<forall>x. found = Some x \<longrightarrow> P x)"
proof (cases "muted (svc_policies s) w")
  case True
  then have "acquire_lock (svc_redis s) (svc_policies s) key ttl w = (Inr True, w)"
    by (simp add: acquire_lock_def muted_try)
  moreover have "(if True then return_cmd None else await_loader s key) w = (Inr None, w)"
    by (simp add: return_cmd_def)
  ultimately show ?thesis using weathered_refl [OF snd] by fastforce
next
  case False
  with P have P: "\<forall>e found. trusted s windows table e
      \<longrightarrow> (\<forall>a. generation e a = generation (kv (request.more w)) a) \<longrightarrow> e key = Some found \<longrightarrow> P found"
    by blast
  from acquire_lock_tried [OF half_upD(2) [OF env] soundD(2) [OF snd], of key ttl] obtain won u x where
    u: "acquire_lock (svc_redis s) (svc_policies s) key ttl w = (Inr won, u)"
      "spared (svc_policies s) (\<lambda>m. (db m, sv m)) w u"
      "kv (request.more u) = (kv (request.more w))(lock_key key := x)" by blast
  have wu: "weathered s db kv sv windows table w u"
    using spared_weathered [OF u(2) snd] trusted_lock [OF soundD(4) [OF snd]] u(3) by simp
  then have gens: "\<forall>a. generation (kv (request.more u)) a = generation (kv (request.more w)) a"
    by (simp add: weathered_def)
  show ?thesis
  proof (cases won)
    case True
    with u(1) wu show ?thesis by (fastforce simp: return_cmd_def)
  next
    case no: False
    from await_weathered [OF env calm P weathered_sound [OF wu] gens] obtain found v where
      "await_loader s key u = (Inr found, v)" "weathered s db kv sv windows table u v"
      "\<forall>x. found = Some x \<longrightarrow> P x" unfolding await_loader_def by blast
    with u(1) no weathered_trans [OF wu] show ?thesis by fastforce
  qed
qed

lemma cleanup_weathered:
  assumes "half_up s db kv sv clock" and "act w = (r, v)" and "weathered s db kv sv windows table w v"
  shows "\<exists>z. finally_do act (if won then release_lock (svc_redis s) (svc_policies s) key else return_cmd ()) w
      = (r, z) \<and> weathered s db kv sv windows table w z"
proof (cases won)
  case True
  note v = weathered_sound [OF assms(3)]
  from release_lock_tried [OF half_upD(2) [OF assms(1)] soundD(2) [OF v], of key] obtain z x where
    z: "release_lock (svc_redis s) (svc_policies s) key v = (Inr (), z)"
      "spared (svc_policies s) (\<lambda>m. (db m, sv m)) v z"
      "kv (request.more z) = (kv (request.more v))(lock_key key := x)" by blast
  have "weathered s db kv sv windows table v z"
    using spared_weathered [OF z(2) v] trusted_lock [OF soundD(4) [OF v]] z(3) by simp
  with True z(1) assms(2) weathered_trans [OF assms(3)] show ?thesis by (simp add: finally_do_def)
next
  case False
  with assms(2,3) show ?thesis by (simp add: finally_do_def return_cmd_def)
qed

text \<open>Storing one key, or not.\<close>

lemma put_weathered:
  assumes "half_up s db kv sv clock" and "sound s db kv windows table w"
    and "trusted s windows table ((kv (request.more w))(key \<mapsto> val))"
    and "\<And>a. generation ((kv (request.more w))(key \<mapsto> val)) a = generation (kv (request.more w)) a"
  shows "\<exists>v. cache_set (svc_redis s) (svc_policies s) key val ttl w = (Inr (), v)
    \<and> weathered s db kv sv windows table w v"
proof -
  from cache_set_tried [OF half_upD(2) [OF assms(1)] soundD(2) [OF assms(2)], of key val ttl]
  obtain v where v: "cache_set (svc_redis s) (svc_policies s) key val ttl w = (Inr (), v)"
    "spared (svc_policies s) (\<lambda>m. (db m, sv m)) w v"
    "kv (request.more v) = kv (request.more w) \<or> kv (request.more v) = (kv (request.more w))(key \<mapsto> val)"
    by blast
  have "trusted s windows table (kv (request.more v))"
    "generation (kv (request.more v)) a = generation (kv (request.more w)) a" for a
    using v(3) assms(3,4) soundD(4) [OF assms(2)] by auto
  from spared_weathered [OF v(2) assms(2) this] v(1) show ?thesis by blast
qed

subsection \<open>Reading one article\<close>

lemma trusted_article:
  assumes "trusted s windows table e" and "e (article_key i) = Some found"
  shows "\<exists>a. live_row table i = Some a
    \<and> decode_article (svc_codec s) (Some found) = Some (article_out_of a)"
  using coherent_articlesD [where e = e and i = i and s = s and table = table, OF _ assms(2)] assms(1) by (simp add: trusted_def)

lemma get_article_weathered:
  assumes env: "half_up s db kv sv clock" and calm: "others_read s db kv sv windows table"
    and ids: "distinct (map art_id table)" and snd: "sound s db kv windows table w"
  shows "\<exists>v. get_article s i w = (case live_row table i of
        None \<Rightarrow> Inl not_found | Some a \<Rightarrow> Inr (article_out_of a), v)
    \<and> weathered s db kv sv windows table w v"
proof -
  let ?k = "article_key i" and ?c = "svc_codec s"
  let ?good = "\<lambda>found. \<exists>a. live_row table i = Some a
    \<and> decode_article ?c (Some found) = Some (article_out_of a)"
  from cache_get_tried [OF half_upD(2) [OF env] soundD(2) [OF snd], of ?k ARTICLE_TTL_ENTITY]
  obtain r w1 where r: "cache_get_article (svc_redis s) (svc_policies s) i w = (Inr r, w1)"
    "spared (svc_policies s) (\<lambda>m. (db m, sv m)) w w1" "kv (request.more w1) = kv (request.more w)"
    "\<forall>x. r = Some x \<longrightarrow> kv (request.more w) ?k = Some x"
    unfolding cache_get_article_def by (metis option.distinct(1))
  have s1: "weathered s db kv sv windows table w w1"
    using spared_weathered [OF r(2) snd] soundD(4) [OF snd] r(3) by simp
  show ?thesis
  proof (cases r)
    case (Some x)
    with r(4) trusted_article [OF soundD(4) [OF snd], of i x] have "?good x" by blast
    with Some r(1) s1 show ?thesis by (auto simp: get_article_def Let_def bind_cmd_def return_cmd_def)
  next
    case None
    have "\<forall>e found. trusted s windows table e
        \<longrightarrow> (\<forall>a. generation e a = generation (kv (request.more w1)) a)
        \<longrightarrow> e ?k = Some found \<longrightarrow> ?good found" using trusted_article by blast
    from flight_weathered [OF env calm weathered_sound [OF s1] disjI2, OF this, of "lock_ttl s"]
    obtain won found u w2 where
      f: "acquire_lock (svc_redis s) (svc_policies s) ?k (lock_ttl s) w1 = (Inr won, u)"
        "(if won then return_cmd None else await_loader s ?k) u = (Inr found, w2)"
        "weathered s db kv sv windows table w1 w2" "\<forall>x. found = Some x \<longrightarrow> ?good x" by blast
    have s2: "weathered s db kv sv windows table w w2" using s1 f(3) by (rule weathered_trans)
    let ?load = "bind_cmd (load s i) (\<lambda>a w. bind_cmd (set_article (svc_redis s) (svc_policies s) i
        (dump_article_json ?c (article_out_of a)) (article_ttl_jittered s w))
        (\<lambda>_. return_cmd (article_out_of a)) w)"
    let ?clean = "if won then release_lock (svc_redis s) (svc_policies s) ?k else return_cmd ()"
    have run: "get_article s i w = (case decode_article ?c found of Some dto \<Rightarrow> (Inr dto, w2)
        | None \<Rightarrow> finally_do ?load ?clean w2)"
      using r(1) None f(1,2)
      by (simp add: get_article_def Let_def bind_cmd_def decode_article_def return_cmd_def
          split: option.split)
    show ?thesis
    proof (cases found)
      case (Some x)
      with f(4) run s2 show ?thesis by auto
    next
      case none: None
      from load_weathered [OF env weathered_sound [OF s2] ids, of i] obtain w3 where
        w3: "load s i w2 = (case live_row table i of None \<Rightarrow> Inl not_found | Some a \<Rightarrow> Inr a, w3)"
          "weathered s db kv sv windows table w2 w3" by blast
      have "\<exists>w4. ?load w2 = (case live_row table i of None \<Rightarrow> Inl not_found
          | Some a \<Rightarrow> Inr (article_out_of a), w4) \<and> weathered s db kv sv windows table w2 w4"
      proof (cases "live_row table i")
        case None
        with w3 show ?thesis by (simp add: bind_cmd_def)
      next
        case (Some a)
        note s3 = weathered_sound [OF w3(2)]
        from put_weathered [OF env s3 trusted_put_article [OF soundD(4) [OF s3] Some half_upD(3) [OF env]],
            of "article_ttl_jittered s w3"] obtain w4 where
          "set_article (svc_redis s) (svc_policies s) i (dump_article_json ?c (article_out_of a))
             (article_ttl_jittered s w3) w3 = (Inr (), w4)" "weathered s db kv sv windows table w3 w4"
          unfolding set_article_def by auto
        with w3 Some weathered_trans [OF w3(2)] show ?thesis by (auto simp: bind_cmd_def return_cmd_def)
      qed
      then obtain w4 where w4: "?load w2 = (case live_row table i of None \<Rightarrow> Inl not_found
          | Some a \<Rightarrow> Inr (article_out_of a), w4)" "weathered s db kv sv windows table w2 w4" by blast
      from cleanup_weathered [where act = ?load, OF env w4, of won ?k] run none weathered_trans [OF s2]
      show ?thesis by (auto simp: decode_article_def)
    qed
  qed
qed

subsection \<open>Reading a page\<close>

lemma trusted_page:
  assumes "trusted s windows table e" and "(limit, after) \<in> windows"
    and "e (list_key (sha256_hex s) (generation e author) author limit after) = Some found"
  shows "decode_page (svc_codec s) (Some found) = Inr (Some (spec_page table limit after author))"
  using assms by (simp add: trusted_def coherent_pages_def)

text \<open>
  The look at the cached page. A fallback generation is never looked up: what made the generations
  fall back keeps the page out of reach as well.
\<close>

lemma list_page_weathered:
  assumes env: "half_up s db kv sv clock" and snd: "sound s db kv windows table w"
    and win: "(limit, after) \<in> windows"
    and g: "muted (svc_policies s) w \<or> g = generation (kv (request.more w)) author"
  shows "\<exists>r v. get_list_page (svc_redis s) (svc_policies s) (list_key (sha256_hex s) g author limit after) w
      = (Inr r, v) \<and> weathered s db kv sv windows table w v
    \<and> (\<forall>x. r = Some x \<longrightarrow> decode_page (svc_codec s) (Some x) = Inr (Some (spec_page table limit after author)))
    \<and> (muted (svc_policies s) v \<or> g = generation (kv (request.more v)) author)"
proof (cases "muted (svc_policies s) w")
  case True
  then show ?thesis
    by (simp add: get_list_page_def cache_get_def muted_try weathered_refl [OF snd])
next
  case False
  with g have g: "g = generation (kv (request.more w)) author" by blast
  let ?k = "list_key (sha256_hex s) g author limit after"
  from cache_get_tried [OF half_upD(2) [OF env] soundD(2) [OF snd], of ?k LIST_TTL_ENTITY]
  obtain r v where r: "get_list_page (svc_redis s) (svc_policies s) ?k w = (Inr r, v)"
    "spared (svc_policies s) (\<lambda>m. (db m, sv m)) w v" "kv (request.more v) = kv (request.more w)"
    "\<forall>x. r = Some x \<longrightarrow> kv (request.more w) ?k = Some x"
    unfolding get_list_page_def by (metis option.distinct(1))
  have "weathered s db kv sv windows table w v"
    using spared_weathered [OF r(2) snd] soundD(4) [OF snd] r(3) by simp
  moreover have "decode_page (svc_codec s) (Some x) = Inr (Some (spec_page table limit after author))"
    if "r = Some x" for x
    using that r(4) trusted_page [OF soundD(4) [OF snd] win, of author] g by blast
  ultimately show ?thesis using r(1,3) g by auto
qed

text \<open>The load of a page and its store, under whatever generation was read.\<close>

lemma store_page_weathered:
  fixes author :: "int option"
  assumes env: "half_up s db kv sv clock" and ids: "distinct (map art_id table)"
    and snd: "sound s db kv windows table w" and cf: "collision_free (sha256_hex s) windows"
    and win: "(limit, after) \<in> windows" and g: "g \<le> generation (kv (request.more w)) author"
  shows "\<exists>v. bind_cmd (load_page s limit after author) (\<lambda>(page, next_after) w.
      bind_cmd
        (set_list_page (svc_redis s) (svc_policies s) (list_key (sha256_hex s) g author limit after)
           (encode_page (svc_codec s) page next_after) (list_ttl_jittered s w))
        (\<lambda>_. return_cmd (page, next_after)) w) w = (Inr (spec_page table limit after author), v)
    \<and> weathered s db kv sv windows table w v"
proof -
  let ?p = "spec_page table limit after author"
  from load_page_weathered [OF env snd ids, of limit after author] obtain u where
    u: "load_page s limit after author w = (Inr ?p, u)" "weathered s db kv sv windows table w u" by blast
  note su = weathered_sound [OF u(2)]
  have "g \<le> generation (kv (request.more u)) author" using g u(2) by (simp add: weathered_def)
  from put_weathered [OF env su trusted_put_page [OF soundD(4) [OF su] half_upD(3) [OF env] cf win this],
      of "list_ttl_jittered s u"] obtain v where
    "set_list_page (svc_redis s) (svc_policies s) (list_key (sha256_hex s) g author limit after)
       (encode_page (svc_codec s) (fst ?p) (snd ?p)) (list_ttl_jittered s u) u = (Inr (), v)"
    "weathered s db kv sv windows table u v" unfolding set_list_page_def by auto
  with u weathered_trans [OF u(2)] show ?thesis
    by (auto simp: bind_cmd_def return_cmd_def case_prod_beta)
qed

lemma list_articles_weathered:
  assumes env: "half_up s db kv sv clock" and calm: "others_read s db kv sv windows table"
    and ids: "distinct (map art_id table)" and snd: "sound s db kv windows table w"
    and cf: "collision_free (sha256_hex s) windows" and win: "(limit, after) \<in> windows"
  shows "\<exists>v. list_articles s limit after author w = (Inr (spec_page table limit after author), v)
    \<and> weathered s db kv sv windows table w v"
proof -
  let ?p = "spec_page table limit after author" and ?c = "svc_codec s"
  let ?good = "\<lambda>x. decode_page ?c (Some x) = Inr (Some ?p)"
  from get_generations_tried [OF half_upD(2) [OF env] soundD(2) [OF snd], of author]
  obtain gg ga w0 where w0: "get_generations (svc_redis s) (svc_policies s) author w = (Inr (gg, ga), w0)"
    "spared (svc_policies s) (\<lambda>m. (db m, sv m)) w w0" "kv (request.more w0) = kv (request.more w)"
    "(if author \<noteq> None then ga else gg) = generation (kv (request.more w)) author
     \<or> gg = 0 \<and> ga = 0 \<and> muted (svc_policies s) w0" by blast
  define g where "g = (if author \<noteq> None then ga else gg)"
  let ?k = "list_key (sha256_hex s) g author limit after"
  have s0: "weathered s db kv sv windows table w w0"
    using spared_weathered [OF w0(2) snd] soundD(4) [OF snd] w0(3) by simp
  have le: "g \<le> generation (kv (request.more w)) author"
    using w0(4) soundD(4) [OF snd] by (auto simp: g_def trusted_def)
  have "muted (svc_policies s) w0 \<or> g = generation (kv (request.more w0)) author"
    using w0(3,4) by (auto simp: g_def)
  from list_page_weathered [OF env weathered_sound [OF s0] win this] obtain r w1 where
    r: "get_list_page (svc_redis s) (svc_policies s) ?k w0 = (Inr r, w1)"
      "weathered s db kv sv windows table w0 w1" "\<forall>x. r = Some x \<longrightarrow> ?good x"
      "muted (svc_policies s) w1 \<or> g = generation (kv (request.more w1)) author" by blast
  have s1: "weathered s db kv sv windows table w w1" using s0 r(2) by (rule weathered_trans)
  show ?thesis
  proof (cases r)
    case (Some x)
    with r(1,3) s1 w0(1) show ?thesis
      by (auto simp: list_articles_def g_def Let_def bind_cmd_def return_cmd_def)
  next
    case None
    have "muted (svc_policies s) w1 \<or> (\<forall>e found. trusted s windows table e
        \<longrightarrow> (\<forall>a. generation e a = generation (kv (request.more w1)) a)
        \<longrightarrow> e ?k = Some found \<longrightarrow> ?good found)"
      using r(4) trusted_page [OF _ win, of s table _ author] by metis
    from flight_weathered [OF env calm weathered_sound [OF s1] this, of "lock_ttl s"]
    obtain won found u w2 where
      f: "acquire_lock (svc_redis s) (svc_policies s) ?k (lock_ttl s) w1 = (Inr won, u)"
        "(if won then return_cmd None else await_loader s ?k) u = (Inr found, w2)"
        "weathered s db kv sv windows table w1 w2" "\<forall>x. found = Some x \<longrightarrow> ?good x" by blast
    have s2: "weathered s db kv sv windows table w w2" using s1 f(3) by (rule weathered_trans)
    let ?load = "bind_cmd (load_page s limit after author) (\<lambda>(page, next_after) w.
      bind_cmd (set_list_page (svc_redis s) (svc_policies s) ?k (encode_page ?c page next_after)
        (list_ttl_jittered s w)) (\<lambda>_. return_cmd (page, next_after)) w)"
    let ?clean = "if won then release_lock (svc_redis s) (svc_policies s) ?k else return_cmd ()"
    have run: "list_articles s limit after author w = (case decode_page ?c found of
        Inl e \<Rightarrow> (Inl e, w2) | Inr (Some waited) \<Rightarrow> (Inr waited, w2) | Inr None \<Rightarrow> finally_do ?load ?clean w2)"
      using r(1) None f(1,2) w0(1) unfolding g_def
      by (cases author; cases won) (simp_all add: list_articles_def Let_def bind_cmd_def decode_none
          return_cmd_def raise_cmd_def split: option.split sum.split)
    show ?thesis
    proof (cases found)
      case (Some x)
      with f(4) run s2 show ?thesis by auto
    next
      case none: None
      have "g \<le> generation (kv (request.more w2)) author" using le s2 by (simp add: weathered_def)
      from store_page_weathered [OF env ids weathered_sound [OF s2] cf win this] obtain w3 where
        w3: "?load w2 = (Inr ?p, w3)" "weathered s db kv sv windows table w2 w3" by blast
      from cleanup_weathered [where act = ?load, OF env w3, of won ?k] run none weathered_trans [OF s2]
      show ?thesis by (auto simp: decode_none)
    qed
  qed
qed

subsection \<open>Requests\<close>

datatype read_call = ReadOne int | ReadPage int "position option" "int option"

datatype read_reply = OneReply "exn + article_out" | PageReply "exn + page"

text \<open>Each request has a session and a cache instance of its own.\<close>

definition begun :: "bool \<Rightarrow> 'm world \<Rightarrow> 'm world" where
  "begun is_enabled w = w\<lparr>session_info := None, cache := new_article_cache is_enabled\<rparr>"

fun serve_read :: "'m world article_service \<Rightarrow> read_call \<Rightarrow> 'm world \<Rightarrow> read_reply \<times> 'm world" where
  "serve_read s (ReadOne i) w = map_prod OneReply id (get_article s i w)"
| "serve_read s (ReadPage limit after author) w =
     map_prod PageReply id (list_articles s limit after author w)"

fun serve_reads ::
  "'m world article_service \<Rightarrow> bool \<Rightarrow> read_call list \<Rightarrow> 'm world \<Rightarrow> read_reply list \<times> 'm world" where
  "serve_reads s is_enabled [] w = ([], w)"
| "serve_reads s is_enabled (c # cs) w =
     (let (reply, w1) = serve_read s c (begun is_enabled w); (replies, w2) = serve_reads s is_enabled cs w1 in
      (reply # replies, w2))"

fun table_reply :: "article list \<Rightarrow> read_call \<Rightarrow> read_reply" where
  "table_reply table (ReadOne i) = OneReply (case live_row table i of
     None \<Rightarrow> Inl not_found | Some a \<Rightarrow> Inr (article_out_of a))"
| "table_reply table (ReadPage limit after author) = PageReply (Inr (spec_page table limit after author))"

fun in_windows :: "(int \<times> position option) set \<Rightarrow> read_call \<Rightarrow> bool" where
  "in_windows windows (ReadOne i) = True"
| "in_windows windows (ReadPage limit after author) \<longleftrightarrow> (limit, after) \<in> windows"

lemma sound_begun: "sound s db kv windows table w \<Longrightarrow> sound s db kv windows table (begun is_enabled w)"
  by (auto simp: sound_def begun_def mysql_up_def breaker_known_def new_article_cache_def)

lemma serve_read_weathered:
  assumes "half_up s db kv sv clock" and "others_read s db kv sv windows table"
    and "distinct (map art_id table)" and "sound s db kv windows table w"
    and "collision_free (sha256_hex s) windows" and "in_windows windows c"
  shows "\<exists>v. serve_read s c w = (table_reply table c, v) \<and> sound s db kv windows table v"
proof (cases c)
  case (ReadOne i)
  from get_article_weathered [OF assms(1-4), of i] ReadOne weathered_sound show ?thesis by fastforce
next
  case (ReadPage limit after author)
  with assms(6) have "(limit, after) \<in> windows" by simp
  from list_articles_weathered [OF assms(1-5) this, of author] ReadPage weathered_sound
  show ?thesis by fastforce
qed

lemma serve_reads_table:
  assumes "half_up s db kv sv clock" and "others_read s db kv sv windows table"
    and "distinct (map art_id table)" and "collision_free (sha256_hex s) windows"
  shows "sound s db kv windows table w \<Longrightarrow> \<forall>c \<in> set cs. in_windows windows c \<Longrightarrow>
    \<exists>v. serve_reads s is_enabled cs w = (map (table_reply table) cs, v)
      \<and> sound s db kv windows table v"
proof (induction cs arbitrary: w)
  case (Cons c cs)
  from serve_read_weathered [OF assms(1-3) sound_begun [OF Cons.prems(1)] assms(4), of c is_enabled]
    Cons.prems(2) obtain w1 where
    "serve_read s c (begun is_enabled w) = (table_reply table c, w1)" "sound s db kv windows table w1"
    by auto
  with Cons.IH [of w1] Cons.prems(2) show ?case by auto
qed simp


subsection \<open>Witness: a Redis that times out\<close>

text \<open>Every \<open>MGET\<close> times out, and every \<open>SET\<close> does after it was carried out.\<close>

definition faulty_kv :: "store world redis_client" where
  "faulty_kv = memory_kv
     \<lparr>redis_mget := (\<lambda>ks. raise_cmd (RedisTimeoutError ''timeout'')),
      redis_set := (\<lambda>k v ex nx w.
        (Inl (RedisTimeoutError ''timeout''), snd (redis_set memory_kv k v ex nx w)))\<rparr>"

definition faulty_service :: "store world article_service" where
  "faulty_service = demo_service\<lparr>svc_redis := faulty_kv\<rparr>"

text \<open>An empty page is left from before the first write, under the generation 0.\<close>

definition faulty_world :: "store world" where
  "faulty_world = put_entries
     [generation_key \<mapsto> str_int 1,
      list_key (sha256_hex faulty_service) 0 None 2 None \<mapsto> encode_page demo_codec [] None] demo_world"

lemma faulty_simps [simp]:
  "repo_session (articles faulty_service) = memory_sql" "svc_redis faulty_service = faulty_kv"
  "svc_codec faulty_service = demo_codec" "others_run faulty_service w = w"
  "svc_policies faulty_service = svc_policies demo_service"
  by (simp_all add: faulty_service_def demo_service_def)

lemma faulty_unreliable: "unreliable faulty_kv kv_entries (\<lambda>st. (table_view st, table_saved st))"
  by (auto simp: unreliable_def faulty_kv_def memory_kv_def outcome_def raise_cmd_def)

lemma faulty_half_up: "half_up faulty_service table_view kv_entries table_saved server_time"
  using memory_serves faulty_unreliable demo_codec_ok by (simp add: half_up_def)

lemma faulty_sound: "sound faulty_service table_view kv_entries demo_windows demo_table faulty_world"
proof -
  let ?e = "kv_entries (request.more faulty_world)"
  have e: "?e = [generation_key \<mapsto> str_int 1,
      list_key (sha256_hex faulty_service) 0 None 2 None \<mapsto> encode_page demo_codec [] None]"
    by (simp add: faulty_world_def)
  have g: "generation ?e a = (if a = None then 1 else 0)" for a
    unfolding e by (cases a) (simp_all add: generation_def as_int_counter as_int_def [of None])
  have none: "?e (list_key (sha256_hex faulty_service) g author l p) = None"
    if "generation ?e author \<le> g" for g author l p
    using that unfolding g unfolding e by (auto simp: list_key_eq split: if_splits)
  have "coherent_articles faulty_service demo_table ?e" by (simp add: coherent_articles_def e)
  moreover have "coherent_pages faulty_service demo_windows demo_table ?e"
    unfolding coherent_pages_def by (simp add: none)
  ultimately have "trusted faulty_service demo_windows demo_table ?e" by (simp add: trusted_def g)
  moreover have "mysql_up faulty_service faulty_world" "breaker_known (svc_policies demo_service) faulty_world"
    "table_view (request.more faulty_world) = demo_table"
    by (simp_all add: mysql_up_def breaker_known_def faulty_world_def put_entries_def demo_world_def
        demo_service_def new_breaker_def new_article_cache_def)
  ultimately show ?thesis by (simp add: sound_def)
qed


end
