(* ===== verification/Logging.thy ===== *)
theory Logging
  imports Json Settings
begin

text \<open>
  \<open>app/observability/logging.py\<close>: which keys are secret, the redaction of an event, the order of the
  processor chain, and the configured level. An event is a \<open>json\<close> object; the processors that belong
  to structlog are arguments.
\<close>

subsection \<open>Secret keys\<close>

definition REDACTED :: string where "REDACTED = ''***REDACTED***''"

definition SENSITIVE_WORDS :: "string set" where
  "SENSITIVE_WORDS =
     {''password'', ''passwd'', ''secret'', ''token'', ''authorization'', ''credential'',
      ''credentials'', ''cookie''}"

definition SENSITIVE_KEYS :: "string set" where
  "SENSITIVE_KEYS = {''api_key'', ''apikey'', ''x-api-key'', ''set-cookie''}"

definition is_word_break :: "char \<Rightarrow> bool" where
  "is_word_break c \<longleftrightarrow> c \<in> {CHR ''.'', CHR ''_'', CHR ''-''} \<or> is_space c"

text \<open>\<open>_WORD_SPLIT.split\<close>: the pieces between maximal runs of separators, empty ones included.\<close>

function word_split :: "string \<Rightarrow> string list" where
  "word_split s =
     (let rest = dropWhile (\<lambda>c. \<not> is_word_break c) s in
      takeWhile (\<lambda>c. \<not> is_word_break c) s
        # (if rest = [] then [] else word_split (dropWhile is_word_break rest)))"
  by pat_completeness auto
termination
proof (relation "measure length", goal_cases)
  case (2 s rest)
  then have "rest \<noteq> []" by simp
  then obtain c r where r: "rest = c # r" by (cases rest) auto
  with 2 have "dropWhile (\<lambda>c. \<not> is_word_break c) s = c # r" by simp
  then have "is_word_break c" by (simp add: dropWhile_eq_Cons_conv)
  with r have "length (dropWhile is_word_break rest) \<le> length r" by (simp add: length_dropWhile_le)
  also have "\<dots> < length rest" using r by simp
  also have "\<dots> \<le> length s" using 2 by (simp add: length_dropWhile_le)
  finally show ?case by simp
qed simp

declare word_split.simps [simp del]

definition is_sensitive :: "string \<Rightarrow> bool" where
  "is_sensitive key =
     (let normalized = lower key in
      normalized \<in> SENSITIVE_KEYS \<or> (\<exists>word \<in> set (word_split normalized). word \<in> SENSITIVE_WORDS))"

lemma is_sensitive_lower [simp]: "is_sensitive (lower key) = is_sensitive key"
  by (simp add: is_sensitive_def)

subsection \<open>Redaction\<close>

fun is_dict :: "json \<Rightarrow> bool" where
  "is_dict (JObj _) = True"
| "is_dict _ = False"

fun redact_secrets :: "json \<Rightarrow> json" where
  "redact_secrets (JObj kvs) =
     JObj (map (\<lambda>(key, v).
            (key, if is_sensitive key \<and> v \<noteq> JNull then JStr REDACTED
                  else if is_dict v then redact_secrets v else v)) kvs)"
| "redact_secrets v = v"

text \<open>An entry of an object, at any depth of objects inside objects.\<close>

inductive entry :: "json \<Rightarrow> string \<Rightarrow> json \<Rightarrow> bool" where
  here: "(k, v) \<in> set kvs \<Longrightarrow> entry (JObj kvs) k v"
| deeper: "(k', JObj kvs') \<in> set kvs \<Longrightarrow> entry (JObj kvs') k v \<Longrightarrow> entry (JObj kvs) k v"

inductive_cases entry_JObjE: "entry (JObj kvs) k v"

lemma is_dict_iff: "is_dict v \<longleftrightarrow> (\<exists>kvs. v = JObj kvs)"
  by (cases v) auto

lemma is_dict_redact [simp]: "is_dict (redact_secrets v) = is_dict v"
  by (cases v) auto

lemma redact_JNull_iff [simp]: "redact_secrets v = JNull \<longleftrightarrow> v = JNull"
  by (cases v) auto

lemma redact_clean:
  "entry (redact_secrets d) k v \<Longrightarrow> is_sensitive k \<Longrightarrow> v = JNull \<or> v = JStr REDACTED"
proof (induction "redact_secrets d" k v arbitrary: d rule: entry.induct)
  case (here k v kvs)
  then obtain kvs0 where "d = JObj kvs0" by (cases d) auto
  with here show ?case by (auto split: if_splits)
next
  case (deeper k' kvs' kvs k v)
  then obtain kvs0 where d: "d = JObj kvs0" by (cases d) auto
  with deeper.hyps(1,4) obtain v0 where "(k', v0) \<in> set kvs0"
      and v0: "JObj kvs' = (if is_sensitive k' \<and> v0 \<noteq> JNull then JStr REDACTED
                      else if is_dict v0 then redact_secrets v0 else v0)"
    by auto
  from v0 have "JObj kvs' = redact_secrets v0" by (cases v0) (auto split: if_splits)
  from deeper.hyps(3) [OF this] deeper.prems show ?case by blast
qed

lemma redact_idem: "redact_secrets (redact_secrets d) = redact_secrets d"
  by (induction d rule: redact_secrets.induct) (auto simp: is_dict_iff)


lemma word_split_token: "word_split ''access_token'' = [''access'', ''token'']"
  by (simp add: word_split.simps is_word_break_def is_space_def)

lemma word_split_one: "\<forall>c \<in> set s. \<not> is_word_break c \<Longrightarrow> word_split s = [s]"
  by (subst word_split.simps) (simp add: Let_def)


text \<open>The recursion follows dictionaries only: a dictionary inside a list is logged as it is, with
  its password.\<close>

theorem secret_in_list_survives:
  "redact_secrets (JObj [(''users'', JList [JObj [(''password'', JStr ''hunter2'')]])])
     = JObj [(''users'', JList [JObj [(''password'', JStr ''hunter2'')]])]
   \<and> is_sensitive ''password''"
proof -
  have w: "word_split ''password'' = [''password'']" "word_split ''users'' = [''users'']"
    by (rule word_split_one, simp add: is_word_break_def is_space_def)+
  have "lower ''password'' = ''password''" "lower ''users'' = ''users''"
    by (simp_all add: lower_def lower_char_def)
  with w show ?thesis
    by (simp add: is_sensitive_def SENSITIVE_KEYS_def SENSITIVE_WORDS_def)
qed

subsection \<open>The processor chain\<close>

datatype processor =
    MergeContextvars | AddLogLevel | TimeStamper | StackInfoRenderer | FormatExcInfo
  | RedactSecrets
  | EventRenamer string
  | ConsoleRenderer | JSONRenderer

definition build_processors :: "string \<Rightarrow> processor list" where
  "build_processors fmt =
     (let renderer = (if lower fmt = ''console'' then ConsoleRenderer else JSONRenderer) in
      [MergeContextvars, AddLogLevel, TimeStamper, StackInfoRenderer, FormatExcInfo,
       RedactSecrets, EventRenamer ''message'', renderer])"

text \<open>What a chain does to an event: every processor gets the result of the one before it.\<close>

definition apply_processor :: "(processor \<Rightarrow> json \<Rightarrow> json) \<Rightarrow> processor \<Rightarrow> json \<Rightarrow> json" where
  "apply_processor library p event =
     (if p = RedactSecrets then redact_secrets event else library p event)"

definition run_processors :: "(processor \<Rightarrow> json \<Rightarrow> json) \<Rightarrow> processor list \<Rightarrow> json \<Rightarrow> json" where
  "run_processors library ps event = foldl (\<lambda>e p. apply_processor library p e) event ps"

text \<open>\<open>EventRenamer(to)\<close> of structlog moves the entry \<open>event\<close> to the name it is given.\<close>

definition rename_event :: "string \<Rightarrow> json \<Rightarrow> json" where
  "rename_event to event =
     (case event of
        JObj kvs \<Rightarrow> JObj (map (\<lambda>(k, v). (if k = ''event'' then to else k, v)) kvs)
      | _ \<Rightarrow> event)"

lemma entry_rename:
  assumes "entry (rename_event to d) k v" and "k \<noteq> to"
  shows "entry d k v"
proof (cases d)
  case (JObj kvs)
  with assms(1) have "entry (JObj (map (\<lambda>(k, v). (if k = ''event'' then to else k, v)) kvs)) k v"
    by (simp add: rename_event_def)
  then have "entry (JObj kvs) k v"
    by (rule entry_JObjE) (use assms(2) in \<open>auto split: if_splits intro: entry.intros\<close>)
  then show ?thesis by (simp add: JObj)
qed (use assms in \<open>auto simp: rename_event_def\<close>)

lemma message_not_sensitive: "\<not> is_sensitive ''message''"
proof -
  have "word_split ''message'' = [''message'']"
    by (rule word_split_one) (simp add: is_word_break_def is_space_def)
  then show ?thesis
    by (simp add: is_sensitive_def lower_def lower_char_def SENSITIVE_KEYS_def SENSITIVE_WORDS_def)
qed

lemma before_renderer:
  "butlast (build_processors fmt) =
     [MergeContextvars, AddLogLevel, TimeStamper, StackInfoRenderer, FormatExcInfo,
      RedactSecrets, EventRenamer ''message'']"
  by (simp add: build_processors_def Let_def)

text \<open>Redaction comes after every processor that adds to the event: whatever the bound context, the
  level, the time stamp, the stack and the rendered exception contribute, the object handed to the
  renderer holds no uncensored secret at any depth of dictionaries.\<close>

theorem chain_redacts_everything:
  assumes "library (EventRenamer ''message'') = rename_event ''message''"
    and "entry (run_processors library (butlast (build_processors fmt)) event) k v"
    and "is_sensitive k"
  shows "v = JNull \<or> v = JStr REDACTED"
proof -
  let ?e = "library FormatExcInfo (library StackInfoRenderer (library TimeStamper
      (library AddLogLevel (library MergeContextvars event))))"
  have "run_processors library (butlast (build_processors fmt)) event
      = rename_event ''message'' (redact_secrets ?e)"
    by (simp add: before_renderer run_processors_def apply_processor_def assms(1))
  with assms(2) have e: "entry (rename_event ''message'' (redact_secrets ?e)) k v" by (simp only:)
  have "k \<noteq> ''message''" using assms(3) message_not_sensitive by blast
  with e have "entry (redact_secrets ?e) k v" by (rule entry_rename)
  then show ?thesis using assms(3) by (rule redact_clean)
qed

theorem chain_redacts_everything_witness:
  "\<exists>v. entry (run_processors
          (\<lambda>p e. if p = EventRenamer ''message'' then rename_event ''message'' e
                 else if p = MergeContextvars then JObj [(''event'', JStr ''x''), (''password'', JInt 1)]
                 else e)
          (butlast (build_processors ''json'')) (JObj [])) ''password'' v \<and> v = JStr REDACTED"
proof -
  let ?lib = "\<lambda>p e. if p = EventRenamer ''message'' then rename_event ''message'' e
                 else if p = MergeContextvars then JObj [(''event'', JStr ''x''), (''password'', JInt 1)]
                 else e"
  let ?out = "run_processors ?lib (butlast (build_processors ''json'')) (JObj [])"
  have w: "word_split ''password'' = [''password'']" "word_split ''event'' = [''event'']"
    by (rule word_split_one, simp add: is_word_break_def is_space_def)+
  have "lower ''password'' = ''password''" "lower ''event'' = ''event''"
    by (simp_all add: lower_def lower_char_def)
  with w have p: "is_sensitive ''password''" "\<not> is_sensitive ''event''"
    by (simp_all add: is_sensitive_def SENSITIVE_KEYS_def SENSITIVE_WORDS_def)
  then have e: "entry ?out ''password'' (JStr REDACTED)"
    by (auto simp: run_processors_def before_renderer apply_processor_def rename_event_def
        intro!: entry.here)
  have "JStr REDACTED = JNull \<or> JStr REDACTED = JStr REDACTED"
    by (rule chain_redacts_everything [of ?lib "''json''" "JObj []" "''password''"])
      (use e p in simp_all)
  with e show ?thesis by blast
qed

subsection \<open>The level\<close>

definition level_names :: "string \<rightharpoonup> int" where
  "level_names =
     [''CRITICAL'' \<mapsto> 50, ''FATAL'' \<mapsto> 50, ''ERROR'' \<mapsto> 40, ''WARN'' \<mapsto> 30, ''WARNING'' \<mapsto> 30,
      ''INFO'' \<mapsto> 20, ''DEBUG'' \<mapsto> 10, ''NOTSET'' \<mapsto> 0]"

definition level_number :: "string \<Rightarrow> int" where
  "level_number level =
     (case level_names (map upper_ascii_char (strip level)) of Some n \<Rightarrow> n | None \<Rightarrow> 20)"

record logging_config =
  chain :: "processor list"
  min_level :: int

definition configure_logging :: "settings \<Rightarrow> string option \<Rightarrow> string option \<Rightarrow> logging_config" where
  "configure_logging settings level fmt =
     \<lparr>chain = build_processors (case fmt of Some f \<Rightarrow> f | None \<Rightarrow> log_format settings),
      min_level = level_number (case level of Some l \<Rightarrow> l | None \<Rightarrow> log_level settings)\<rparr>"

end
