(* ===== verification/Context.thy ===== *)
theory Context
  imports ArticleCache Logging
begin

text \<open>
  \<open>app/observability/context.py\<close> and \<open>traced\<close> of \<open>app/observability/tracing.py\<close>, with the HTTP
  vocabulary the middleware shares. A request is the record \<open>http_request\<close>; what its layers pass to
  each other through \<open>request.state\<close>, the ASGI scope and the structlog context, and what they leave
  behind (log lines, spans, the in-flight count), are the fields of the record \<open>web\<close>, which extends
  the state of a request. Minting a UUID, the routing table of the
  application and the wall clock are the fields of the parameter \<open>http_env\<close>.
\<close>

subsection \<open>Requests, responses and their state\<close>

record http_request =
  req_method :: string
  req_path :: string
  req_headers :: "(string \<times> string) list"

datatype content = NoBody | JsonBody json | TextBody string string   \<comment> \<open>text, media type\<close>

record response =
  resp_status :: int
  resp_headers :: "(string \<times> string) list"
  resp_body :: content

text \<open>\<open>headers.get\<close> and the assignment \<open>headers[name] = value\<close>, on names without case.\<close>

definition header_get :: "string \<Rightarrow> (string \<times> string) list \<Rightarrow> string option" where
  "header_get name hs = map_of (map (\<lambda>(k, v). (lower k, v)) hs) (lower name)"

definition header_set :: "string \<Rightarrow> string \<Rightarrow> (string \<times> string) list \<Rightarrow> (string \<times> string) list" where
  "header_set name v hs = filter (\<lambda>(k, _). lower k \<noteq> lower name) hs @ [(name, v)]"

lemma header_get_set [simp]: "header_get name (header_set name v hs) = Some v"
proof -
  have "map_of (map (\<lambda>(k, v). (lower k, v)) (filter (\<lambda>(k, _). lower k \<noteq> lower name) hs)) (lower name)
      = None"
    by (auto simp: map_of_eq_None_iff)
  then show ?thesis by (simp add: header_get_def header_set_def map_add_def)
qed

text \<open>\<open>{"id": claims["sub"], "role": claims["role"]}\<close>\<close>

record principal =
  principal_id :: string
  principal_role :: json

datatype match = NONE | PARTIAL | FULL

text \<open>
  A node of the routing tree: its own child routes, those of the router it includes, its path if it
  has one, and \<open>route.matches\<close> as a function of the request.
\<close>

datatype route =
  Route (own_routes: "route list") (included_routes: "route list") (template: "string option")
    (matches_request: "http_request \<Rightarrow> match")

record 'w http_env =
  uuid_hex :: "'w \<Rightarrow> string"
  app_routes :: "route list"
  wall_clock :: "'w \<Rightarrow> seconds"              \<comment> \<open>\<open>datetime.now(UTC).timestamp()\<close>\<close>

record log_record =
  log_severity :: string
  log_event :: string
  log_fields :: "(string \<times> json) list"

record span =
  span_name :: string
  span_attributes :: "(string \<times> string) list"
  span_error :: bool

record 'c web = "'c request" +
  state_request_id :: "string option"
  state_principal :: "principal option"
  scope_route :: "string option"            \<comment> \<open>\<open>scope["route"].path\<close>, once the router has run\<close>
  context_vars :: "(string \<times> string) list"
  inflight :: int
  log_lines :: "log_record list"
  active_span :: "(nat \<times> (string \<times> string) list) option"
    \<comment> \<open>trace id and attributes of the server span; \<open>None\<close> when its context is not valid\<close>
  spans :: "span list"
  dummy_hash_cache :: "string option"       \<comment> \<open>the module variable of \<open>app/services/auth_service.py\<close>\<close>

text \<open>A log call: the fields given, then those of the bound context that they do not override.\<close>

definition log_line ::
  "string \<Rightarrow> string \<Rightarrow> (string \<times> json) list \<Rightarrow> ('c, 'm) web_scheme \<Rightarrow> ('c, 'm) web_scheme" where
  "log_line level event given w =
     w\<lparr>log_lines := log_lines w
         @ [\<lparr>log_severity = level, log_event = event,
             log_fields = given @ filter (\<lambda>(k, _). k \<notin> fst ` set given)
                            (map (\<lambda>(k, v). (k, JStr v)) (context_vars w))\<rparr>]\<rparr>"

definition bind_contextvars :: "string \<Rightarrow> string \<Rightarrow> ('c, 'm) web_scheme \<Rightarrow> ('c, 'm) web_scheme" where
  "bind_contextvars k v w =
     w\<lparr>context_vars := filter (\<lambda>(x, _). x \<noteq> k) (context_vars w) @ [(k, v)]\<rparr>"

definition clear_contextvars :: "('c, 'm) web_scheme \<Rightarrow> ('c, 'm) web_scheme" where
  "clear_contextvars w = w\<lparr>context_vars := []\<rparr>"

subsection \<open>The correlation id\<close>

definition REQUEST_ID_HEADER :: string where "REQUEST_ID_HEADER = ''X-Request-ID''"

definition UNMATCHED_ROUTE :: string where "UNMATCHED_ROUTE = ''__unmatched__''"

text \<open>\<open>_REQUEST_ID_RE.fullmatch\<close>\<close>

definition is_id_char :: "char \<Rightarrow> bool" where
  "is_id_char c \<longleftrightarrow>
     is_ascii_letter c \<or> is_ascii_digit c \<or> c \<in> {CHR ''.'', CHR ''_'', CHR ''-''}"

definition safe_request_id :: "string \<Rightarrow> bool" where
  "safe_request_id s \<longleftrightarrow> 1 \<le> length s \<and> length s \<le> 64 \<and> (\<forall>c \<in> set s. is_id_char c)"

definition sanitize_request_id :: "'w http_env \<Rightarrow> string option \<Rightarrow> 'w \<Rightarrow> string" where
  "sanitize_request_id env supplied w =
     (case supplied of
        Some s \<Rightarrow> if safe_request_id s then s else uuid_hex env w
      | None \<Rightarrow> uuid_hex env w)"

definition principal_user_id :: "('c, 'm) web_scheme \<Rightarrow> string option" where
  "principal_user_id w = map_option principal_id (state_principal w)"

text \<open>What \<open>uuid4().hex\<close> promises: 32 hexadecimal digits.\<close>

definition mints_hex :: "'w http_env \<Rightarrow> bool" where
  "mints_hex env \<longleftrightarrow>
     (\<forall>w. length (uuid_hex env w) = 32
       \<and> (\<forall>c \<in> set (uuid_hex env w). is_ascii_digit c \<or> c \<in> set ''abcdef''))"

lemma mints_safe:
  assumes "mints_hex env"
  shows "safe_request_id (uuid_hex env w)"
proof -
  have "is_id_char c" if "c \<in> set (uuid_hex env w)" for c
  proof -
    from assms that have "is_ascii_digit c \<or> c \<in> set ''abcdef''" by (simp add: mints_hex_def)
    moreover have "\<forall>c \<in> set ''abcdef''. is_ascii_letter c" by (simp add: is_ascii_letter_def)
    ultimately have "is_ascii_digit c \<or> is_ascii_letter c" by blast
    then show ?thesis unfolding is_id_char_def by blast
  qed
  with assms show ?thesis by (simp add: safe_request_id_def mints_hex_def)
qed

lemma sanitize_safe: "mints_hex env \<Longrightarrow> safe_request_id (sanitize_request_id env supplied w)"
  by (auto simp: sanitize_request_id_def mints_safe split: option.split)

lemma sanitize_idem:
  "mints_hex env \<Longrightarrow>
    sanitize_request_id env (Some (sanitize_request_id env supplied w)) w'
      = sanitize_request_id env supplied w"
  using sanitize_safe [of env supplied w] by (simp add: sanitize_request_id_def)

subsection \<open>The route label\<close>

fun leaf_routes :: "route list \<Rightarrow> route list"
  and leaves_of :: "route \<Rightarrow> route list" where
  "leaf_routes [] = []"
| "leaf_routes (r # rs) = leaves_of r @ leaf_routes rs"
| "leaves_of (Route own included path m) =
     (if own \<noteq> [] then leaf_routes own
      else if included \<noteq> [] then leaf_routes included
      else [Route own included path m])"

text \<open>The loop of \<open>_match_route_table\<close>: \<open>partial\<close> is the best answer so far.\<close>

fun scan_routes :: "http_request \<Rightarrow> string \<Rightarrow> route list \<Rightarrow> string" where
  "scan_routes req partial [] = partial"
| "scan_routes req partial (r # rs) =
     (case template r of
        None \<Rightarrow> scan_routes req partial rs
      | Some path \<Rightarrow>
          if matches_request r req = FULL then path
          else if matches_request r req = PARTIAL \<and> partial = UNMATCHED_ROUTE
          then scan_routes req path rs
          else scan_routes req partial rs)"

definition match_route_table :: "'w http_env \<Rightarrow> http_request \<Rightarrow> string" where
  "match_route_table env req =
     (if app_routes env = [] then UNMATCHED_ROUTE
      else scan_routes req UNMATCHED_ROUTE (leaf_routes (app_routes env)))"

definition route_template ::
  "('c, 'm) web_scheme http_env \<Rightarrow> http_request \<Rightarrow> ('c, 'm) web_scheme \<Rightarrow> string" where
  "route_template env req w =
     (case scope_route w of Some path \<Rightarrow> path | None \<Rightarrow> match_route_table env req)"

definition route_label ::
  "('c, 'm) web_scheme http_env \<Rightarrow> http_request \<Rightarrow> ('c, 'm) web_scheme \<Rightarrow> string" where
  "route_label env req w = route_template env req w"

text \<open>The label set of an application: its templates and the constant for no match.\<close>

definition route_labels :: "'w http_env \<Rightarrow> string set" where
  "route_labels env =
     insert UNMATCHED_ROUTE {path. \<exists>r \<in> set (leaf_routes (app_routes env)). template r = Some path}"

lemma scan_routes_closed:
  "scan_routes req partial rs
     \<in> insert partial {path. \<exists>r \<in> set rs. template r = Some path}"
  by (induction req partial rs rule: scan_routes.induct) (auto split: option.split)

lemma finite_route_labels: "finite (route_labels env)"
proof -
  have "{path. \<exists>r \<in> set (leaf_routes (app_routes env)). template r = Some path}
      \<subseteq> (\<lambda>r. the (template r)) ` set (leaf_routes (app_routes env))" by force
  then show ?thesis by (simp add: route_labels_def finite_subset)
qed

lemma match_route_table_closed: "match_route_table env req \<in> route_labels env"
  using scan_routes_closed [of req UNMATCHED_ROUTE "leaf_routes (app_routes env)"]
  by (simp add: match_route_table_def route_labels_def)

text \<open>The table is read as the router reads it: the first full match, else the first partial one.\<close>

definition matching :: "http_request \<Rightarrow> match \<Rightarrow> route list \<Rightarrow> string list" where
  "matching req m rs =
     concat (map (\<lambda>r. case template r of
        Some path \<Rightarrow> if matches_request r req = m then [path] else [] | None \<Rightarrow> []) rs)"

definition preferred :: "string list \<Rightarrow> string list \<Rightarrow> string" where
  "preferred fulls partials =
     (if fulls \<noteq> [] then hd fulls else if partials \<noteq> [] then hd partials else UNMATCHED_ROUTE)"

lemma scan_routes_spec:
  assumes "\<forall>r \<in> set rs. template r \<noteq> Some UNMATCHED_ROUTE"
  shows "scan_routes req partial rs =
    (if matching req FULL rs \<noteq> [] then hd (matching req FULL rs)
     else if partial = UNMATCHED_ROUTE \<and> matching req PARTIAL rs \<noteq> []
     then hd (matching req PARTIAL rs) else partial)"
  using assms
proof (induction rs arbitrary: partial)
  case (Cons r rs)
  then show ?case
    by (cases "template r"; cases "matches_request r req") (auto simp: matching_def)
qed (simp add: matching_def)

text \<open>The route label of a request that never reached the router is the one the router would have
  given it: the template of the first leaf of the routing tree that matches path and method, else of
  the first that matches the path, else the constant for no match. Caller-controlled text is never a
  label: every label is a template of the table or that constant.\<close>

theorem route_label_closed:
  assumes "\<forall>r \<in> set (leaf_routes (app_routes env)). template r \<noteq> Some UNMATCHED_ROUTE"
    and "\<forall>path. scope_route w = Some path \<longrightarrow> path \<in> route_labels env"
  shows "route_label env req w \<in> route_labels env
    \<and> (scope_route w = None \<longrightarrow>
         route_label env req w =
           (if app_routes env = [] then UNMATCHED_ROUTE
            else preferred (matching req FULL (leaf_routes (app_routes env)))
                   (matching req PARTIAL (leaf_routes (app_routes env)))))"
proof (rule conjI)
  show "route_label env req w \<in> route_labels env"
    using assms(2) match_route_table_closed [of env req]
    by (simp add: route_label_def route_template_def split: option.split)
next
  show "scope_route w = None \<longrightarrow> route_label env req w =
      (if app_routes env = [] then UNMATCHED_ROUTE
       else preferred (matching req FULL (leaf_routes (app_routes env)))
              (matching req PARTIAL (leaf_routes (app_routes env))))"
    using scan_routes_spec [OF assms(1), of req UNMATCHED_ROUTE]
    by (simp add: route_label_def route_template_def match_route_table_def preferred_def)
qed

text \<open>A small routing tree: a probe, and a router with one article endpoint for GET and PUT.\<close>

definition demo_matches :: "string list \<Rightarrow> (string \<Rightarrow> bool) \<Rightarrow> http_request \<Rightarrow> match" where
  "demo_matches verbs fits req =
     (if \<not> fits (req_path req) then NONE
      else if req_method req \<in> set verbs then FULL else PARTIAL)"

definition demo_env :: "('c, 'm) web_scheme http_env" where
  "demo_env =
     \<lparr>uuid_hex = (\<lambda>w. replicate 32 (CHR ''a'')),
      app_routes =
        [Route [] [] (Some ''/health/live'') (demo_matches [''GET''] (\<lambda>p. p = ''/health/live'')),
         Route [] [Route [] [] (Some ''/v1/articles/{article_id}'')
                     (demo_matches [''GET'', ''PUT''] (\<lambda>p. startswith p ''/v1/articles/''))]
           None (\<lambda>_. NONE)],
      wall_clock = now\<rparr>"

definition demo_web :: "('c, unit) web_scheme" where
  "demo_web =
     \<lparr>now = 0, breakers = Map.empty, metrics = [], session_info = None,
      cache = new_article_cache True, state_request_id = None, state_principal = None,
      scope_route = None, context_vars = [], inflight = 0, log_lines = [], active_span = None,
      spans = [], dummy_hash_cache = None\<rparr>"

lemma demo_env_mints [simp]: "mints_hex demo_env"
  by (simp add: mints_hex_def demo_env_def)

theorem route_label_closed_witness:
  "route_label demo_env \<lparr>req_method = ''PUT'', req_path = ''/v1/articles/7'', req_headers = []\<rparr>
     (demo_web :: (nat, unit) web_scheme) = ''/v1/articles/{article_id}''"
  by (subst route_label_closed [THEN conjunct2, THEN mp])
    (simp_all add: demo_env_def demo_web_def matching_def preferred_def demo_matches_def
      UNMATCHED_ROUTE_def startswith_def)

subsection \<open>Spans\<close>

text \<open>
  \<open>traced\<close>: the span carries the bound \<open>request_id\<close>, if there is one, and the attributes; the SDK
  records an exception on the span and re-raises it.
\<close>

definition traced ::
  "string \<Rightarrow> string \<Rightarrow> (string \<times> string) list \<Rightarrow> (('c, 'm) web_scheme, 'a) command
   \<Rightarrow> (('c, 'm) web_scheme, 'a) command" where
  "traced component operation attributes body w =
     (let rid = (case map_of (context_vars w) ''request_id'' of
                   Some i \<Rightarrow> if i \<noteq> [] then [(''request_id'', i)] else [] | None \<Rightarrow> []);
          (r, w') = body w in
      (r, w'\<lparr>spans := spans w'
              @ [\<lparr>span_name = component @ ''.'' @ operation, span_attributes = rid @ attributes,
                  span_error = (case r of Inl e \<Rightarrow> is_exception e | Inr _ \<Rightarrow> False)\<rparr>]\<rparr>))"

text \<open>Instrumentation does not alter control flow.\<close>

lemma traced_transparent:
  "fst (traced component operation attributes body w) = fst (body w)"
  "web.truncate (snd (traced component operation attributes body w)\<lparr>spans := []\<rparr>)
     = web.truncate (snd (body w)\<lparr>spans := []\<rparr>)"
  by (simp_all add: traced_def Let_def case_prod_beta web.defs)

text \<open>\<open>format(trace_id, "032x")\<close> of a 128-bit trace id\<close>

definition hex32 :: "nat \<Rightarrow> string" where
  "hex32 n = map (\<lambda>i. ''0123456789abcdef'' ! (n div 16 ^ (31 - i) mod 16)) [0..<32]"

definition annotate_current_span ::
  "string \<Rightarrow> ('c, 'm) web_scheme \<Rightarrow> string option \<times> ('c, 'm) web_scheme" where
  "annotate_current_span rid w =
     (case active_span w of
        None \<Rightarrow> (None, w)
      | Some (trace_id, attributes) \<Rightarrow>
          (Some (hex32 trace_id),
           w\<lparr>active_span := Some (trace_id,
                filter (\<lambda>(k, _). k \<noteq> ''request_id'') attributes @ [(''request_id'', rid)])\<rparr>))"

end
