(* ===== verification/HttpErrors.thy ===== *)
theory HttpErrors
  imports Context
begin

text \<open>
  \<open>app/api/errors.py\<close>: the status of every domain error, the error envelope, \<open>Retry-After\<close>, and the
  exception handlers, composed as Starlette composes them: the handlers of the named exceptions run
  inside every middleware, the handler of \<open>Exception\<close> outside all of them.
\<close>

subsection \<open>The tables\<close>

fun domain_status :: "domain_error \<Rightarrow> int \<times> string" where
  "domain_status (UnauthenticatedError _) = (401, ''UNAUTHENTICATED'')"
| "domain_status (ForbiddenError _) = (403, ''FORBIDDEN'')"
| "domain_status (ArticleNotFoundError _) = (404, ''ARTICLE_NOT_FOUND'')"
| "domain_status (ConflictError _) = (409, ''CONFLICT'')"
| "domain_status (PreconditionRequiredError _) = (422, ''VALIDATION_ERROR'')"
| "domain_status (InvalidCursorError _) = (422, ''VALIDATION_ERROR'')"
| "domain_status (UpstreamTimeoutError _ _) = (504, ''UPSTREAM_TIMEOUT'')"
| "domain_status (DependencyUnavailableError _ _) = (503, ''SERVICE_UNAVAILABLE'')"

text \<open>\<open>_DEGRADED_REASONS\<close>, and \<open>exc.retry_after\<close>, for the two dependency errors\<close>

fun degradation :: "domain_error \<Rightarrow> (string \<times> seconds) option" where
  "degradation (UpstreamTimeoutError _ r) = Some (''upstream_timeout'', r)"
| "degradation (DependencyUnavailableError _ r) = Some (''breaker_open'', r)"
| "degradation _ = None"

lemma degradation_down: "(degradation e \<noteq> None) = is_dependency_down (Domain e)"
  by (cases e) simp_all

subsection \<open>The envelope\<close>

definition error_response ::
  "('c, 'm) web_scheme http_env \<Rightarrow> int \<Rightarrow> string \<Rightarrow> string \<Rightarrow> json option
   \<Rightarrow> (string \<times> string) list \<Rightarrow> ('c, 'm) web_scheme \<Rightarrow> response" where
  "error_response env status code msg details hs w =
     (let request_id = (case state_request_id w of
                          Some i \<Rightarrow> if i \<noteq> [] then i else uuid_hex env w | None \<Rightarrow> uuid_hex env w) in
      \<lparr>resp_status = status, resp_headers = hs,
       resp_body = JsonBody (JObj [(''error'', JObj
         [(''code'', JStr code), (''message'', JStr msg), (''request_id'', JStr request_id),
          (''details'', case details of
             Some d \<Rightarrow> if json_truthy d then d else JObj [] | None \<Rightarrow> JObj [])])])\<rparr>)"

text \<open>What an envelope says: its code and the request id it quotes.\<close>

fun envelope_field :: "string \<Rightarrow> response \<Rightarrow> json option" where
  "envelope_field name r =
     (case resp_body r of
        JsonBody (JObj [(''error'', JObj kvs)]) \<Rightarrow> map_of kvs name
      | _ \<Rightarrow> None)"

definition retry_after_header :: "seconds \<Rightarrow> (string \<times> string) list" where
  "retry_after_header t = [(''Retry-After'', str_int (max 1 \<lceil>t\<rceil>))]"

lemma error_response_fields [simp]:
  "resp_status (error_response env status code msg details hs w) = status"
  "resp_headers (error_response env status code msg details hs w) = hs"
  by (simp_all add: error_response_def Let_def)

lemma error_response_code [simp]:
  "envelope_field ''code'' (error_response env status code msg details hs w) = Some (JStr code)"
  by (simp add: error_response_def Let_def)

lemma error_response_request_id:
  "state_request_id w = Some i \<Longrightarrow> i \<noteq> [] \<Longrightarrow>
    envelope_field ''request_id'' (error_response env status code msg details hs w) = Some (JStr i)"
  by (simp add: error_response_def Let_def)

lemma retry_after_enough: "1 \<le> max 1 \<lceil>t\<rceil> \<and> t \<le> of_int (max 1 \<lceil>t\<rceil>)"
  by (simp add: max_def)

lemma header_retry_after [simp]:
  "header_get ''Retry-After'' (retry_after_header t) = Some (str_int (max 1 \<lceil>t\<rceil>))"
  by (simp add: retry_after_header_def header_get_def)

subsection \<open>The handlers\<close>

definition domain_error_handler ::
  "('c, 'm) web_scheme http_env \<Rightarrow> http_request \<Rightarrow> domain_error
   \<Rightarrow> ('c, 'm) web_scheme \<Rightarrow> response \<times> ('c, 'm) web_scheme" where
  "domain_error_handler env req e w =
     (let (status, code) = domain_status e;
          (hs, w') = (case degradation e of
             None \<Rightarrow> ([], w)
           | Some (reason, retry_after) \<Rightarrow>
               (retry_after_header retry_after,
                log_metric (observe_degraded_response (route_label env req w) reason) w)) in
      (error_response env status code (error_message e) None hs w', w'))"

definition validation_error_handler ::
  "('c, 'm) web_scheme http_env \<Rightarrow> json \<Rightarrow> ('c, 'm) web_scheme \<Rightarrow> response" where
  "validation_error_handler env errors w =
     error_response env 422 ''VALIDATION_ERROR'' ''Request failed validation.'' (Some errors) [] w"

definition internal_error_handler ::
  "('c, 'm) web_scheme http_env \<Rightarrow> ('c, 'm) web_scheme \<Rightarrow> response" where
  "internal_error_handler env w =
     error_response env 500 ''INTERNAL_ERROR'' ''An unexpected error occurred.'' None [] w"

text \<open>
  Starlette's two exception layers around the registered handlers: \<open>ExceptionMiddleware\<close> next to the
  router, \<open>ServerErrorMiddleware\<close> around everything.
\<close>

definition handle_exceptions ::
  "('c, 'm) web_scheme http_env \<Rightarrow> http_request \<Rightarrow> (('c, 'm) web_scheme, response) command
   \<Rightarrow> (('c, 'm) web_scheme, response) command" where
  "handle_exceptions env req endpoint w =
     (case endpoint w of
        (Inl (Domain e), w') \<Rightarrow> map_prod Inr id (domain_error_handler env req e w')
      | (Inl (RequestValidationError errors), w') \<Rightarrow> (Inr (validation_error_handler env errors w'), w')
      | r \<Rightarrow> r)"

definition handle_server_errors ::
  "('c, 'm) web_scheme http_env \<Rightarrow> (('c, 'm) web_scheme, response) command
   \<Rightarrow> (('c, 'm) web_scheme, response) command" where
  "handle_server_errors env app w =
     (case app w of
        (Inl e, w') \<Rightarrow>
          if is_exception e then (Inr (internal_error_handler env w'), w') else (Inl e, w')
      | r \<Rightarrow> r)"

lemma degradation_closed: "degradation e = Some (reason, t) \<Longrightarrow> degraded_reason reason = reason"
  by (cases e) (auto simp: degraded_reason_def DEGRADED_REASONS_def)



lemma open_admits_later:
  assumes "breaker_ok b" and "cb_state b = OPEN" and "seconds_until_probe t b \<le> d"
  shows "fst (allow (t + d) b)"
proof -
  have "reset_seconds b - (t - opened_at b) \<le> seconds_until_probe t b"
    using assms(2) by (simp add: seconds_until_probe_def)
  with assms(3) have "opened_at b + reset_seconds b \<le> t + d" by linarith
  with assms show ?thesis by (auto simp: breaker_ok_def breaker_defs)
qed

text \<open>C28. A refusal by an open circuit tells the caller to wait long enough. The 503 carries a
  \<open>Retry-After\<close> of a positive whole number of seconds, and a caller that comes back that much later is
  admitted by the breaker if nobody used it in between.\<close>

theorem refusal_advises_enough:
  fixes w :: "('c, 'm) web_scheme"
  assumes "policies d = Some p" and "breakers w d = Some b" and "breaker_ok b"
    and "cb_state b = OPEN" and "\<not> fst (allow (now w) b)"
  shows "\<exists>resp w' n.
    handle_exceptions env req (bind_cmd (guarded_call policies waits d hook retry op) k) w = (Inr resp, w')
    \<and> resp_status resp = 503
    \<and> header_get ''Retry-After'' (resp_headers resp) = Some (str_int n) \<and> 1 \<le> n
    \<and> (\<exists>b'. breakers w' d = Some b' \<and> fst (allow (now w + of_int n) b'))"
proof -
  have "now w - opened_at b < reset_seconds b"
  proof (rule ccontr)
    assume "\<not> now w - opened_at b < reset_seconds b"
    then have "opened_at b + reset_seconds b \<le> now w" by linarith
    with assms(3,4) have "fst (allow (now w) b)" by (auto simp: breaker_ok_def breaker_defs)
    with assms(5) show False by simp
  qed
  with assms(4) have same: "snd (allow (now w) b) = b" by (simp add: allow_def)
  let ?e = "DependencyUnavailableError (d @ '' is unavailable: the circuit is open'')
             (seconds_until_probe (now w) b)"
  let ?w = "admitted_state d p b w"
  have b: "breakers ?w d = Some b"
    using assms(2) same by (simp add: admitted_state_def)
  have "guarded_call policies waits d hook retry op w = (Inl (Domain ?e), ?w)"
    using guarded_call_refused [of policies d p w b] assms same by simp
  then have g: "bind_cmd (guarded_call policies waits d hook retry op) k w = (Inl (Domain ?e), ?w)"
    by (rule bind_cmd_Inl)
  let ?n = "max 1 \<lceil>seconds_until_probe (now w) b\<rceil>"
  have "fst (allow (now w + of_int ?n) b)"
    by (rule open_admits_later [OF assms(3,4)]) (rule conjunct2 [OF retry_after_enough])
  with b g retry_after_enough [of "seconds_until_probe (now w) b"] show ?thesis
    by (intro exI [of _ "fst (domain_error_handler env req ?e ?w)"],
        intro exI [of _ "snd (domain_error_handler env req ?e ?w)"], intro exI [of _ ?n])
      (simp add: handle_exceptions_def domain_error_handler_def Let_def log_metric_def)
qed

theorem refusal_advises_enough_witness:
  "\<exists>resp w' n.
     handle_exceptions demo_env \<lparr>req_method = ''GET'', req_path = ''/'', req_headers = []\<rparr>
       (bind_cmd (guarded_call demo_policies (\<lambda>_. 0) ''mysql'' None True (\<lambda>dl w. (Done (Inr ()), w)))
          (\<lambda>_. raise_cmd CancelledError))
       ((demo_web :: (nat, unit) web_scheme)
          \<lparr>now := 100, breakers := [''mysql'' \<mapsto> demo_open 95]\<rparr>) = (Inr resp, w')
     \<and> resp_status resp = 503
     \<and> header_get ''Retry-After'' (resp_headers resp) = Some (str_int n) \<and> 1 \<le> n
     \<and> (\<exists>b'. breakers w' ''mysql'' = Some b' \<and> fst (allow (100 + of_int n) b'))"
  using refusal_advises_enough [of demo_policies "''mysql''" "database_policy default_settings"
      "(demo_web :: (nat, unit) web_scheme)\<lparr>now := 100, breakers := [''mysql'' \<mapsto> demo_open 95]\<rparr>"
      "demo_open 95" demo_env _ "\<lambda>_. 0" None True "\<lambda>dl w. (Done (Inr ()), w)"
      "\<lambda>_. raise_cmd CancelledError"]
  by (simp add: breaker_ok_def allow_def demo_closed_def demo_open_def breaker_defs)

end
