(* ===== verification/Security.thy ===== *)
theory Security
  imports HttpErrors Users
begin

text \<open>
  \<open>app/security/password_policy.py\<close>, \<open>app/core/security.py\<close> and \<open>app/schemas/auth.py\<close>. Argon2 and
  PyJWT are parameters: \<open>hasher\<close> holds the two operations of \<open>PasswordHasher\<close>, \<open>jwt\<close> the encoder and
  the decoder, and \<open>jwt_laws\<close> states what PyJWT documents of them. The thread pool that runs a hash
  only delays it.
\<close>

subsection \<open>Password policy\<close>

definition MIN_PASSWORD_LENGTH :: nat where "MIN_PASSWORD_LENGTH = 12"

definition MAX_PASSWORD_LENGTH :: nat where "MAX_PASSWORD_LENGTH = 128"

text \<open>\<open>str.splitlines\<close>: line breaks end a line, and a carriage return takes the line feed after it.\<close>

definition is_line_break :: "char \<Rightarrow> bool" where
  "is_line_break c \<longleftrightarrow> (of_char c :: nat) \<in> {10, 11, 12, 13, 28, 29, 30, 133}"

definition after_break :: "string \<Rightarrow> string" where
  "after_break s =
     (case s of [] \<Rightarrow> [] | c # r \<Rightarrow> if c = CHR 0x0D \<and> take 1 r = [CHR 0x0A] then tl r else r)"

lemma after_break_length: "s \<noteq> [] \<Longrightarrow> length (after_break s) < length s"
  by (cases s) (auto simp: after_break_def less_Suc_eq_le)

function splitlines :: "string \<Rightarrow> string list" where
  "splitlines s =
     (if s = [] then []
      else takeWhile (\<lambda>c. \<not> is_line_break c) s
             # splitlines (after_break (dropWhile (\<lambda>c. \<not> is_line_break c) s)))"
  by pat_completeness auto
termination
proof (relation "measure length", goal_cases)
  case (2 s)
  let ?r = "dropWhile (\<lambda>c. \<not> is_line_break c) s"
  have "length (after_break ?r) < length s"
  proof (cases "?r = []")
    case False
    from after_break_length [OF this] show ?thesis
      using length_dropWhile_le [of "\<lambda>c. \<not> is_line_break c" s] by linarith
  next
    case True
    with 2 show ?thesis by (simp only: after_break_def list.case) simp
  qed
  then show ?case by simp
qed simp

declare splitlines.simps [simp del]

text \<open>\<open>_bundled_blocklist\<close> of the text of the bundled file\<close>

definition bundled_blocklist :: "string \<Rightarrow> string set" where
  "bundled_blocklist file =
     (\<lambda>line. lower (strip line)) `
       {line \<in> set (splitlines file). strip line \<noteq> [] \<and> \<not> startswith line ''#''}"

text \<open>\<open>LocalBlocklistChecker\<close>: the constructor and \<open>is_breached\<close>\<close>

definition local_blocklist :: "string \<Rightarrow> string set option \<Rightarrow> string set" where
  "local_blocklist file blocklist =
     (case blocklist of Some ps \<Rightarrow> lower ` ps | None \<Rightarrow> bundled_blocklist file)"

definition is_breached :: "string set \<Rightarrow> string \<Rightarrow> bool" where
  "is_breached blocklist password \<longleftrightarrow> lower password \<in> blocklist"

text \<open>\<open>screen_password\<close>: \<open>Inl\<close> carries the message of the \<open>PasswordPolicyError\<close>.\<close>

definition screen_password ::
  "(string \<Rightarrow> bool) \<Rightarrow> (string \<Rightarrow> bool) option \<Rightarrow> string \<Rightarrow> string + string" where
  "screen_password default_checker checker password =
     (if length password < MIN_PASSWORD_LENGTH
      then Inl ''Password must be at least 12 characters.''
      else if MAX_PASSWORD_LENGTH < length password
      then Inl ''Password must be at most 128 characters.''
      else if (case checker of Some c \<Rightarrow> c | None \<Rightarrow> default_checker) password
      then Inl (''This password appears in a known-breached-password list; '' @
                ''choose a different one.'')
      else Inr password)"

subsection \<open>The schemas\<close>

definition MAX_EMAIL_LENGTH :: nat where "MAX_EMAIL_LENGTH = 254"

record register_in =
  reg_email :: string
  reg_password :: string

text \<open>
  Validation of \<open>RegisterIn\<close>: \<open>EmailStr\<close> is the parameter \<open>email_str\<close>; a failure is the request's
  validation error, whose list of messages FastAPI builds (\<open>errors\<close>).
\<close>

definition validate_register ::
  "(string \<Rightarrow> string option) \<Rightarrow> (string \<Rightarrow> bool) \<Rightarrow> json \<Rightarrow> string \<Rightarrow> string \<Rightarrow> exn + register_in" where
  "validate_register email_str default_checker errors address password =
     (case email_str address of
        None \<Rightarrow> Inl (RequestValidationError errors)
      | Some e \<Rightarrow>
          if MAX_EMAIL_LENGTH < length e \<or> length password < MIN_PASSWORD_LENGTH
             \<or> MAX_PASSWORD_LENGTH < length password
          then Inl (RequestValidationError errors)
          else
            (case screen_password default_checker None password of
               Inl _ \<Rightarrow> Inl (RequestValidationError errors)
             | Inr p \<Rightarrow> Inr \<lparr>reg_email = lower e, reg_password = p\<rparr>))"

definition validate_login :: "string \<Rightarrow> string \<Rightarrow> string \<times> string" where
  "validate_login address password = (lower address, password)"

lemma not_blocked:
  "\<not> is_breached (local_blocklist file None) pw \<longleftrightarrow>
     (\<forall>line \<in> set (splitlines file). strip line \<noteq> [] \<and> \<not> startswith line ''#''
        \<longrightarrow> lower (strip line) \<noteq> lower pw)"
  by (auto simp: is_breached_def local_blocklist_def bundled_blocklist_def image_iff eq_commute)

text \<open>Registration accepts a password exactly when it is 12 to 128 characters long and its
  lower-case form is on no line of the bundled list, and passes it on unchanged; the address it
  passes on is lower-case, so the two spellings of one address are one account and log in alike.\<close>

theorem register_screens_passwords:
  "(validate_register email_str (is_breached (local_blocklist file None)) errors address pw = Inr r
    \<longleftrightarrow> (\<exists>e. email_str address = Some e \<and> length e \<le> 254 \<and> r = \<lparr>reg_email = lower e, reg_password = pw\<rparr>)
        \<and> 12 \<le> length pw \<and> length pw \<le> 128
        \<and> (\<forall>line \<in> set (splitlines file). strip line \<noteq> [] \<and> \<not> startswith line ''#''
             \<longrightarrow> lower (strip line) \<noteq> lower pw))
   \<and> (validate_register email_str (is_breached (local_blocklist file None)) errors address pw = Inr r
       \<longrightarrow> fst (validate_login (reg_email r) pw) = reg_email r)"
  unfolding not_blocked [symmetric]
  by (auto simp: validate_register_def validate_login_def screen_password_def
      MIN_PASSWORD_LENGTH_def MAX_PASSWORD_LENGTH_def MAX_EMAIL_LENGTH_def not_less
      split: option.splits)

lemma demo_lines: "splitlines (''# common'' @ [CHR 0x0A] @ ''Password1234'') = [''# common'', ''Password1234'']"
  by (simp add: splitlines.simps is_line_break_def after_break_def)

lemma demo_screened: "lower (strip ''Password1234'') = lower ''pASSWORD1234''"
  by code_simp

theorem register_screens_passwords_witness:
  "\<nexists>r. validate_register Some
      (is_breached (local_blocklist (''# common'' @ [CHR 0x0A] @ ''Password1234'') None)) (JList [])
      ''A@x.org'' ''pASSWORD1234'' = Inr r"
  using demo_lines demo_screened
  by (simp add: register_screens_passwords [THEN conjunct1])
    (simp add: strip_def strip_with_def is_space_def startswith_def)

subsection \<open>Hashing\<close>

datatype verify_result = Verified | Argon2Error | InvalidHashError

record 'w hasher =
  argon2_hash :: "string \<Rightarrow> ('w, string) command"
  argon2_verify :: "string \<Rightarrow> string \<Rightarrow> ('w, verify_result) command"   \<comment> \<open>hash, password\<close>

definition hash_password :: "'w hasher \<Rightarrow> string \<Rightarrow> ('w, string) command" where
  "hash_password h password = argon2_hash h password"

definition verify_password :: "'w hasher \<Rightarrow> string \<Rightarrow> string \<Rightarrow> ('w, bool) command" where
  "verify_password h password stored =
     bind_cmd (argon2_verify h stored password) (\<lambda>r. return_cmd (r = Verified))"

subsection \<open>Access tokens\<close>

record claims =
  claim_sub :: "string option"
  claim_role :: "json option"
  claim_iat :: "int option"
  claim_exp :: "int option"

text \<open>
  \<open>jwt.encode(payload, key, algorithm)\<close>, and \<open>jwt.decode(token, key, algorithms)\<close> at a wall-clock
  time, where \<open>None\<close> is a \<open>PyJWTError\<close>. PyJWT refuses a \<open>sub\<close> that is not text.
\<close>

record jwt =
  jwt_encode :: "claims \<Rightarrow> string \<Rightarrow> string \<Rightarrow> string"
  jwt_decode :: "seconds \<Rightarrow> string \<Rightarrow> string \<Rightarrow> string list \<Rightarrow> claims option"

definition create_access_token ::
  "jwt \<Rightarrow> settings \<Rightarrow> seconds \<Rightarrow> string \<Rightarrow> string \<Rightarrow> exn + string" where
  "create_access_token lib settings wall sub role =
     sum_bind (require_signing_key settings) (\<lambda>key.
       Inr (jwt_encode lib
              \<lparr>claim_sub = Some sub, claim_role = Some (JStr role),
               claim_iat = Some (py_int_of_float wall),
               claim_exp = Some (py_int_of_float (wall + of_int (jwt_expire_seconds settings)))\<rparr>
              key (jwt_algorithm settings)))"

definition invalid_token :: exn where
  "invalid_token = Domain (UnauthenticatedError ''Invalid or expired token.'')"

text \<open>The claims a caller of \<open>decode_access_token\<close> reads: \<open>sub\<close> and \<open>role\<close>, both present.\<close>

definition decode_access_token ::
  "jwt \<Rightarrow> settings \<Rightarrow> seconds \<Rightarrow> string \<Rightarrow> exn + (string \<times> json)" where
  "decode_access_token lib settings wall token =
     sum_bind (require_signing_key settings) (\<lambda>key.
       case jwt_decode lib wall token key [jwt_algorithm settings] of
         None \<Rightarrow> Inl invalid_token
       | Some c \<Rightarrow>
           (case (claim_sub c, claim_role c) of
              (Some sub, Some role) \<Rightarrow>
                if sub = [] \<or> \<not> json_truthy role then Inl invalid_token else Inr (sub, role)
            | _ \<Rightarrow> Inl invalid_token))"

lemma decode_access_token_Inr:
  "decode_access_token lib settings wall token = Inr (sub, role) \<longleftrightarrow>
     (\<exists>key c. require_signing_key settings = Inr key
        \<and> jwt_decode lib wall token key [jwt_algorithm settings] = Some c
        \<and> claim_sub c = Some sub \<and> claim_role c = Some role \<and> sub \<noteq> [] \<and> json_truthy role)"
proof (cases "require_signing_key settings")
  case (Inr key)
  then show ?thesis
    by (cases "jwt_decode lib wall token key [jwt_algorithm settings]")
      (auto simp: decode_access_token_def split: option.split)
qed (simp add: decode_access_token_def)

text \<open>
  What PyJWT documents: a token decodes exactly when it was signed with the same key and an allowed
  algorithm and the time is inside its \<open>iat\<close>-\<open>exp\<close> window, and it decodes to what was signed.
\<close>

definition in_window :: "seconds \<Rightarrow> claims \<Rightarrow> bool" where
  "in_window wall c \<longleftrightarrow>
     (\<forall>i. claim_iat c = Some i \<longrightarrow> of_int i \<le> wall) \<and> (\<forall>x. claim_exp c = Some x \<longrightarrow> wall < of_int x)"

definition jwt_laws :: "jwt \<Rightarrow> bool" where
  "jwt_laws lib \<longleftrightarrow>
     (\<forall>wall c key alg algs. alg \<in> set algs \<longrightarrow> in_window wall c \<longrightarrow>
        jwt_decode lib wall (jwt_encode lib c key alg) key algs = Some c)
     \<and> (\<forall>wall token key algs c. jwt_decode lib wall token key algs = Some c \<longrightarrow>
          (\<exists>alg \<in> set algs. token = jwt_encode lib c key alg) \<and> in_window wall c)"

lemma jwt_laws_decode:
  "jwt_laws lib \<Longrightarrow> alg \<in> set algs \<Longrightarrow> in_window wall c \<Longrightarrow>
    jwt_decode lib wall (jwt_encode lib c key alg) key algs = Some c"
  by (simp add: jwt_laws_def)

lemma jwt_laws_authentic:
  "jwt_laws lib \<Longrightarrow> jwt_decode lib wall token key algs = Some c \<Longrightarrow>
    (\<exists>alg \<in> set algs. token = jwt_encode lib c key alg) \<and> in_window wall c"
  by (simp add: jwt_laws_def)

lemma py_int_of_float_pos: "0 \<le> x \<Longrightarrow> py_int_of_float x = \<lfloor>x\<rfloor>"
  by (simp add: py_int_of_float_def)

lemma token_accepted:
  assumes "jwt_laws lib" and "create_access_token lib s t sub role = Inr token"
    and "0 \<le> t" and "t \<le> t'" and "t' < of_int \<lfloor>t + of_int (jwt_expire_seconds s)\<rfloor>"
    and "0 \<le> jwt_expire_seconds s" and "sub \<noteq> []" and "role \<noteq> []"
  shows "decode_access_token lib s t' token = Inr (sub, JStr role)"
proof -
  let ?c = "\<lparr>claim_sub = Some sub, claim_role = Some (JStr role), claim_iat = Some \<lfloor>t\<rfloor>,
             claim_exp = Some \<lfloor>t + of_int (jwt_expire_seconds s)\<rfloor>\<rparr>"
  from assms obtain key where key: "require_signing_key s = Inr key"
    and token: "token = jwt_encode lib ?c key (jwt_algorithm s)"
    by (auto simp: create_access_token_def sum_bind_eq_Inr py_int_of_float_pos)
  have "of_int \<lfloor>t\<rfloor> \<le> t" by simp
  with assms have "of_int \<lfloor>t\<rfloor> \<le> t'" by linarith
  with assms have "in_window t' ?c" by (simp add: in_window_def)
  then have "jwt_decode lib t' token key [jwt_algorithm s] = Some ?c"
    unfolding token by (intro jwt_laws_decode [OF assms(1)]) simp_all
  with key assms show ?thesis by (simp add: decode_access_token_def)
qed


text \<open>A library that keeps the laws: a token is the numeral of what was signed.\<close>

definition demo_jwt :: jwt where
  "demo_jwt =
     \<lparr>jwt_encode = (\<lambda>c key alg.
        number_text (claim_sub c, claim_role c, claim_iat c, claim_exp c, key, alg)),
      jwt_decode = (\<lambda>wall token key algs.
        let (sub, role, iat, ex, k, alg) = text_number token;
            c = \<lparr>claim_sub = sub, claim_role = role, claim_iat = iat, claim_exp = ex\<rparr> in
        if k = key \<and> alg \<in> set algs \<and> token = number_text (sub, role, iat, ex, k, alg)
           \<and> in_window wall c
        then Some c else None)\<rparr>"

lemma demo_jwt_laws: "jwt_laws demo_jwt"
  unfolding jwt_laws_def
proof (intro conjI allI impI)
  fix wall c key and alg :: string and algs
  assume "alg \<in> set algs" "in_window wall c"
  then show "jwt_decode demo_jwt wall (jwt_encode demo_jwt c key alg) key algs = Some c"
    by (cases c) (simp add: demo_jwt_def Let_def)
next
  fix wall :: seconds and token key :: string and algs :: "string list" and c :: claims
  assume d: "jwt_decode demo_jwt wall token key algs = Some c"
  obtain sub role iat ex k alg where n: "(text_number token :: string option \<times> json option
      \<times> int option \<times> int option \<times> string \<times> string) = (sub, role, iat, ex, k, alg)"
    by (metis prod_cases6)
  from d n show "\<exists>alg \<in> set algs. token = jwt_encode demo_jwt c key alg"
    by (auto simp: demo_jwt_def Let_def split: if_splits)
  from d n show "in_window wall c"
    by (auto simp: demo_jwt_def Let_def split: if_splits)
qed

definition demo_secrets :: settings where
  "demo_secrets = default_settings\<lparr>jwt_secret := ''k''\<rparr>"

lemma demo_secrets_key [simp]:
  "require_signing_key demo_secrets = Inr ''k''" "jwt_expire_seconds demo_secrets = 900"
  "jwt_algorithm demo_secrets = ''HS256''"
  by (simp_all add: demo_secrets_def require_signing_key_def default_settings_def)


end
