(* ===== verification/Middleware.thy ===== *)
theory Middleware
  imports Security
begin

text \<open>
  \<open>app/api/middleware.py\<close> and the assembly of \<open>app/main.py\<close>: access control, and the five layers of
  the chain. A layer takes the rest of the chain (\<open>call_next\<close>), a command that answers a response or
  raises, and is one itself; \<open>create_app\<close> composes them around the router, which is a parameter.
\<close>

subsection \<open>Access control\<close>

datatype requirement = PUBLIC | AUTHENTICATED | ADMIN

definition PUBLIC_PREFIXES :: "string list" where
  "PUBLIC_PREFIXES =
     [''/health'', ''/docs'', ''/redoc'', ''/openapi.json'', ''/v1/auth'', METRICS_PATH]"

definition ADMIN_PREFIX :: string where "ADMIN_PREFIX = ''/v1/admin''"

definition ARTICLES_PREFIX :: string where "ARTICLES_PREFIX = ''/v1/articles''"

definition route_requirement :: "string \<Rightarrow> string \<Rightarrow> requirement" where
  "route_requirement verb path =
     (if path = ''/'' \<or> (\<exists>p \<in> set PUBLIC_PREFIXES. path = p \<or> startswith path (p @ ''/'')) then PUBLIC
      else if path = ADMIN_PREFIX \<or> startswith path (ADMIN_PREFIX @ ''/'') then ADMIN
      else if path = ARTICLES_PREFIX \<or> startswith path ARTICLES_PREFIX then
        (if map upper_ascii_char verb = ''GET'' then PUBLIC else AUTHENTICATED)
      else AUTHENTICATED)"

definition authorize :: "requirement \<Rightarrow> principal option \<Rightarrow> (int \<times> string \<times> string) option" where
  "authorize requirement p =
     (if requirement = PUBLIC then None
      else case p of
        None \<Rightarrow> Some (401, ''UNAUTHENTICATED'', ''Authentication is required.'')
      | Some q \<Rightarrow>
          if requirement = ADMIN \<and> principal_role q \<noteq> JStr ''admin''
          then Some (403, ''FORBIDDEN'', ''Administrator privileges are required.'')
          else None)"

definition extract_bearer_token :: "http_request \<Rightarrow> string option" where
  "extract_bearer_token req =
     (case header_get ''Authorization'' (req_headers req) of
        None \<Rightarrow> None
      | Some h \<Rightarrow>
          let (scheme, _, token) = partition_char CHR '' '' h in
          if lower scheme \<noteq> ''bearer'' \<or> strip token = [] then None else Some (strip token))"

fun requirement_value :: "requirement \<Rightarrow> string" where
  "requirement_value PUBLIC = ''public''"
| "requirement_value AUTHENTICATED = ''authenticated''"
| "requirement_value ADMIN = ''admin''"

text \<open>What a caller must hold to pass: \<open>authorize\<close> lets in exactly these.\<close>

definition satisfies :: "requirement \<Rightarrow> principal option \<Rightarrow> bool" where
  "satisfies requirement p =
     (case requirement of
        PUBLIC \<Rightarrow> True
      | AUTHENTICATED \<Rightarrow> p \<noteq> None
      | ADMIN \<Rightarrow> (\<exists>q. p = Some q \<and> principal_role q = JStr ''admin''))"

lemma authorize_None_iff: "authorize requirement p = None \<longleftrightarrow> satisfies requirement p"
  by (cases requirement) (auto simp: authorize_def satisfies_def split: option.splits)

lemma authorize_status:
  "authorize requirement p = Some (status, code, msg) \<Longrightarrow>
    status = (if p = None then 401 else 403)"
  by (auto simp: authorize_def split: option.splits if_splits)

text \<open>Which requests need no token: the root, the public prefixes and what is below them, and
  reads of anything whose path begins with the letters \<open>/v1/articles\<close>. Everything else needs one.\<close>

theorem public_routes:
  "route_requirement verb path = PUBLIC \<longleftrightarrow>
     path = ''/'' \<or> (\<exists>p \<in> set PUBLIC_PREFIXES. path = p \<or> startswith path (p @ ''/''))
     \<or> (startswith path ''/v1/articles'' \<and> map upper_ascii_char verb = ''GET'')"
proof -
  have "\<not> startswith path ''/v1/articles''"
    if "path = ADMIN_PREFIX \<or> startswith path (ADMIN_PREFIX @ ''/'')"
  proof
    assume "startswith path ''/v1/articles''"
    from startswith_take [OF this, of 6] have "take 6 path = ''/v1/ar''"
      by (simp add: eval_nat_numeral)
    with that startswith_take [of path "ADMIN_PREFIX @ ''/''" 6] show False
      by (auto simp: ADMIN_PREFIX_def eval_nat_numeral)
  qed
  moreover have "startswith ''/v1/articles'' ''/v1/articles''" by (simp add: startswith_def)
  ultimately show ?thesis by (auto simp: route_requirement_def ARTICLES_PREFIX_def)
qed

text \<open>A path that only shares its first letters with the article routes, and is no route of the
  application, is public to readers.\<close>

theorem unknown_route_public:
  "route_requirement ''GET'' ''/v1/articles-drafts'' = PUBLIC
   \<and> route_requirement ''GET'' ''/v1/drafts'' = AUTHENTICATED"
  by (simp add: route_requirement_def PUBLIC_PREFIXES_def METRICS_PATH_def ADMIN_PREFIX_def
      ARTICLES_PREFIX_def startswith_def upper_ascii_char_def)

subsection \<open>The layers\<close>

definition request_id_dispatch ::
  "('c, 'm) web_scheme http_env \<Rightarrow> http_request \<Rightarrow> (('c, 'm) web_scheme, response) command
   \<Rightarrow> (('c, 'm) web_scheme, response) command" where
  "request_id_dispatch env req call_next w =
     (let request_id = sanitize_request_id env (header_get REQUEST_ID_HEADER (req_headers req)) w;
          w1 = bind_contextvars ''request_id'' request_id
                 (clear_contextvars (w\<lparr>state_request_id := Some request_id\<rparr>));
          (trace_id, w2) = annotate_current_span request_id w1;
          w3 = (case trace_id of None \<Rightarrow> w2 | Some t \<Rightarrow> bind_contextvars ''trace_id'' t w2) in
      bind_cmd call_next
        (\<lambda>r. return_cmd
           (r\<lparr>resp_headers := header_set REQUEST_ID_HEADER request_id (resp_headers r)\<rparr>)) w3)"

text \<open>\<open>round(x, 3)\<close>\<close>

definition round3 :: "rat \<Rightarrow> rat" where
  "round3 x = of_int (py_round (x * 1000)) / 1000"

definition access_fields ::
  "('c, 'm) web_scheme http_env \<Rightarrow> http_request \<Rightarrow> int \<Rightarrow> seconds \<Rightarrow> ('c, 'm) web_scheme
   \<Rightarrow> (string \<times> json) list" where
  "access_fields env req status started w =
     [(''user_id'', case principal_user_id w of None \<Rightarrow> JNull | Some i \<Rightarrow> JStr i),
      (''route'', JStr (route_template env req w)),
      (''method'', JStr (req_method req)),
      (''status'', JInt status),
      (''latency_ms'', JFloat (round3 ((now w - started) * 1000)))]"

definition access_log_dispatch ::
  "('c, 'm) web_scheme http_env \<Rightarrow> http_request \<Rightarrow> (('c, 'm) web_scheme, response) command
   \<Rightarrow> (('c, 'm) web_scheme, response) command" where
  "access_log_dispatch env req call_next w =
     (let started = now w in
      case call_next w of
        (Inl e, w') \<Rightarrow>
          (Inl e,
           if is_exception e
           then log_line ''error'' ''http.request'' (access_fields env req 500 started w') w'
           else w')
      | (Inr r, w') \<Rightarrow>
          (Inr r,
           log_line (if 500 \<le> resp_status r then ''error''
                     else if 400 \<le> resp_status r then ''warning'' else ''info'')
             ''http.request'' (access_fields env req (resp_status r) started w') w'))"

definition metrics_observe ::
  "('c, 'm) web_scheme http_env \<Rightarrow> http_request \<Rightarrow> int \<Rightarrow> seconds \<Rightarrow> ('c, 'm) web_scheme
   \<Rightarrow> ('c, 'm) web_scheme" where
  "metrics_observe env req status started w =
     (let label = route_label env req w in
      if label = METRICS_PATH \<or> label \<in> PROBE_PATHS then w
      else log_metric (observe_request label (req_method req) (str_int status) (now w - started)) w)"

definition metrics_dispatch ::
  "('c, 'm) web_scheme http_env \<Rightarrow> http_request \<Rightarrow> (('c, 'm) web_scheme, response) command
   \<Rightarrow> (('c, 'm) web_scheme, response) command" where
  "metrics_dispatch env req call_next w =
     (let started = now w in
      case call_next w of
        (Inl e, w') \<Rightarrow>
          (Inl e, if is_exception e then metrics_observe env req 500 started w' else w')
      | (Inr r, w') \<Rightarrow> (Inr r, metrics_observe env req (resp_status r) started w'))"

record load_shed =
  max_inflight :: int
  shed_retry_after :: seconds

definition new_load_shed :: "int \<Rightarrow> seconds \<Rightarrow> exn + load_shed" where
  "new_load_shed most retry_after_seconds =
     (if most < 1 then Inl (ValueError (''MAX_INFLIGHT_REQUESTS must be at least 1; a lower ceiling sheds every '' @
        ''request, which is an outage spelled as a configuration.''))
      else if retry_after_seconds \<le> 0
      then Inl (ValueError (''SHED_RETRY_AFTER_SECONDS must be positive; a non-positive wait tells every '' @
        ''shed caller to come back at once, which is the stampede shedding prevents.''))
      else Inr \<lparr>max_inflight = most, shed_retry_after = retry_after_seconds\<rparr>)"

text \<open>
  \<open>LoadShedMiddleware.dispatch\<close> up to its first \<open>await\<close>, and its \<open>finally\<close> block: no other task runs
  inside either, so concurrent requests interleave these two pieces.
\<close>

datatype admission = Exempt | Shed response | Admitted

definition exempt_path :: "string \<Rightarrow> bool" where
  "exempt_path path \<longleftrightarrow> path = METRICS_PATH \<or> path \<in> PROBE_PATHS"

definition shed_enter ::
  "load_shed \<Rightarrow> ('c, 'm) web_scheme http_env \<Rightarrow> http_request \<Rightarrow> ('c, 'm) web_scheme
   \<Rightarrow> admission \<times> ('c, 'm) web_scheme" where
  "shed_enter shed env req w =
     (if exempt_path (req_path req) then (Exempt, w)
      else if max_inflight shed \<le> inflight w then
        (let w1 = log_line ''warning'' ''request.shed''
                    [(''path'', JStr (req_path req)), (''inflight'', JInt (inflight w))]
                    (log_metric (observe_degraded_response (route_label env req w) ''load_shed'') w) in
         (Shed (error_response env 503 ''SERVICE_UNAVAILABLE''
                  ''The service is at capacity. Retry shortly.'' None
                  (retry_after_header (shed_retry_after shed)) w1), w1))
      else (Admitted, log_metric (track_inflight 1) (w\<lparr>inflight := inflight w + 1\<rparr>)))"

definition shed_exit :: "('c, 'm) web_scheme \<Rightarrow> ('c, 'm) web_scheme" where
  "shed_exit w = log_metric (track_inflight (- 1)) (w\<lparr>inflight := inflight w - 1\<rparr>)"

definition load_shed_dispatch ::
  "load_shed \<Rightarrow> ('c, 'm) web_scheme http_env \<Rightarrow> http_request
   \<Rightarrow> (('c, 'm) web_scheme, response) command \<Rightarrow> (('c, 'm) web_scheme, response) command" where
  "load_shed_dispatch shed env req call_next w =
     (case shed_enter shed env req w of
        (Exempt, w1) \<Rightarrow> call_next w1
      | (Shed r, w1) \<Rightarrow> (Inr r, w1)
      | (Admitted, w1) \<Rightarrow> (case call_next w1 of (r, w2) \<Rightarrow> (r, shed_exit w2)))"

text \<open>
  \<open>AuthMiddleware.dispatch\<close>: establishing the principal, which answers a bad token itself, and the
  policy.
\<close>

definition auth_principal ::
  "('c, 'm) web_scheme http_env \<Rightarrow> jwt \<Rightarrow> settings \<Rightarrow> http_request
   \<Rightarrow> (('c, 'm) web_scheme, response option) command" where
  "auth_principal env lib settings req w =
     (let w0 = w\<lparr>state_principal := None\<rparr> in
      case extract_bearer_token req of
        None \<Rightarrow> (Inr None, w0)
      | Some token \<Rightarrow>
          (case decode_access_token lib settings (wall_clock env w0) token of
             Inr (sub, role) \<Rightarrow>
               (Inr None,
                w0\<lparr>state_principal := Some \<lparr>principal_id = sub, principal_role = role\<rparr>\<rparr>)
           | Inl (Domain (UnauthenticatedError _)) \<Rightarrow>
               (let w1 = log_line ''warning'' ''auth.failed''
                           [(''reason'', JStr ''invalid_token''), (''path'', JStr (req_path req))] w0 in
                (Inr (Some (error_response env 401 ''UNAUTHENTICATED'' ''Invalid or expired token.''
                              None [] w1)), w1))
           | Inl e \<Rightarrow> (Inl e, w0)))"

definition auth_policy ::
  "('c, 'm) web_scheme http_env \<Rightarrow> http_request \<Rightarrow> (('c, 'm) web_scheme, response) command
   \<Rightarrow> (('c, 'm) web_scheme, response) command" where
  "auth_policy env req call_next w =
     (let requirement = route_requirement (req_method req) (req_path req) in
      case authorize requirement (state_principal w) of
        None \<Rightarrow> call_next w
      | Some (status, code, msg) \<Rightarrow>
          (let w1 = log_line ''warning'' ''auth.denied''
                      [(''status'', JInt status), (''code'', JStr code),
                       (''requirement'', JStr (requirement_value requirement)),
                       (''user_id'', case principal_user_id w of None \<Rightarrow> JNull | Some i \<Rightarrow> JStr i),
                       (''path'', JStr (req_path req))] w in
           (Inr (error_response env status code msg None [] w1), w1)))"

definition auth_dispatch ::
  "('c, 'm) web_scheme http_env \<Rightarrow> jwt \<Rightarrow> settings \<Rightarrow> http_request
   \<Rightarrow> (('c, 'm) web_scheme, response) command \<Rightarrow> (('c, 'm) web_scheme, response) command" where
  "auth_dispatch env lib settings req call_next =
     bind_cmd (auth_principal env lib settings req)
       (\<lambda>refusal. case refusal of Some r \<Rightarrow> return_cmd r | None \<Rightarrow> auth_policy env req call_next)"

subsection \<open>The application\<close>

text \<open>\<open>create_app\<close>: the chain, outermost layer first.\<close>

definition create_app ::
  "('c, 'm) web_scheme http_env \<Rightarrow> jwt \<Rightarrow> settings \<Rightarrow> (('c, 'm) web_scheme, response) command
   \<Rightarrow> exn + (http_request \<Rightarrow> (('c, 'm) web_scheme, response) command)" where
  "create_app env lib settings router =
     sum_bind (new_load_shed (max_inflight_requests settings) (shed_retry_after_seconds settings))
       (\<lambda>shed. Inr (\<lambda>req.
          handle_server_errors env
            (request_id_dispatch env req
              (access_log_dispatch env req
                (metrics_dispatch env req
                  (load_shed_dispatch shed env req
                    (auth_dispatch env lib settings req
                      (handle_exceptions env req router))))))))"

end
