(* ===== verification/MiddlewareProps.thy ===== *)
theory MiddlewareProps
  imports Middleware
begin

text \<open>
  What the chain of middleware guarantees: who reaches a handler, one log record and one count per
  request, one correlation id everywhere, and the ceiling on requests in flight.
\<close>

subsection \<open>What a layer leaves alone\<close>

text \<open>The access-log records and the request counts made so far.\<close>

definition access_lines :: "('c, 'm) web_scheme \<Rightarrow> log_record list" where
  "access_lines w = filter (\<lambda>r. log_event r = ''http.request'') (log_lines w)"

fun counts_request :: "metric_call \<Rightarrow> bool" where
  "counts_request (CounterInc n _) = (n = ''http_requests_total'')"
| "counts_request _ = False"

definition request_counts :: "('c, 'm) web_scheme \<Rightarrow> metric_log" where
  "request_counts w = filter counts_request (metrics w)"

text \<open>What the outer layers read after the inner ones have run: a command that keeps it is \<open>modest\<close>.\<close>

definition outer_view ::
  "('c, 'm) web_scheme \<Rightarrow> log_record list \<times> metric_log \<times> string option \<times> (string \<times> string) list" where
  "outer_view w = (access_lines w, request_counts w, state_request_id w, context_vars w)"

definition modest :: "(('c, 'm) web_scheme, 'a) command \<Rightarrow> bool" where
  "modest m \<longleftrightarrow> (\<forall>w. outer_view (snd (m w)) = outer_view w)"

lemma modestD: "modest m \<Longrightarrow> m w = (r, w') \<Longrightarrow> outer_view w' = outer_view w"
  unfolding modest_def by (drule spec [of _ w]) simp

lemma outer_view_log_line [simp]:
  "event \<noteq> ''http.request'' \<Longrightarrow> outer_view (log_line level event given w) = outer_view w"
  by (simp add: outer_view_def access_lines_def request_counts_def log_line_def)

lemma outer_view_log_metric:
  "(\<And>calls. filter counts_request (f calls) = filter counts_request calls) \<Longrightarrow>
    outer_view (log_metric f w) = outer_view w"
  by (simp add: outer_view_def access_lines_def request_counts_def log_metric_def)

lemma outer_view_degraded [simp]:
  "outer_view (log_metric (observe_degraded_response label reason) w) = outer_view w"
  by (rule outer_view_log_metric) (simp add: observe_degraded_response_def)

lemma outer_view_track [simp]: "outer_view (log_metric (track_inflight d) w) = outer_view w"
  by (rule outer_view_log_metric) (simp add: track_inflight_def)

lemma outer_view_fields [simp]:
  "outer_view (w\<lparr>inflight := n\<rparr>) = outer_view w"
  "outer_view (w\<lparr>state_principal := p\<rparr>) = outer_view w"
  by (simp_all add: outer_view_def access_lines_def request_counts_def)

lemma modest_handle_exceptions: "modest m \<Longrightarrow> modest (handle_exceptions env req m)"
  unfolding modest_def
proof
  fix w
  assume m: "\<forall>w. outer_view (snd (m w)) = outer_view w"
  obtain r w1 where r: "m w = (r, w1)" by fastforce
  with m have "outer_view w1 = outer_view w" by (metis snd_conv)
  with r show "outer_view (snd (handle_exceptions env req m w)) = outer_view w"
    by (auto simp: handle_exceptions_def domain_error_handler_def Let_def case_prod_beta
        split: sum.split exn.split option.split)
qed

lemma modest_auth_principal: "modest (auth_principal env lib settings req)"
  by (auto simp: modest_def auth_principal_def Let_def
      split: option.split sum.split exn.split domain_error.split)

lemma modest_auth_policy: "modest m \<Longrightarrow> modest (auth_policy env req m)"
  by (auto simp: modest_def auth_policy_def Let_def split: option.split)

lemma modest_bind:
  assumes "modest m" and "\<And>a. modest (f a)"
  shows "modest (bind_cmd m f)"
  unfolding modest_def
proof
  fix w
  obtain r w1 where "m w = (r, w1)" by fastforce
  then show "outer_view (snd (bind_cmd m f w)) = outer_view w"
    using modestD [OF assms(1), of w] assms(2)
    by (cases r) (auto simp: modest_def)
qed

lemma modest_return [simp]: "modest (return_cmd a)"
  by (simp add: modest_def)

lemma modest_auth:
  assumes "modest m"
  shows "modest (auth_dispatch env lib settings req m)"
  unfolding auth_dispatch_def
  by (rule modest_bind [OF modest_auth_principal])
    (auto simp: assms modest_auth_policy split: option.split)

lemma modest_load_shed:
  assumes "modest m"
  shows "modest (load_shed_dispatch shed env req m)"
  unfolding modest_def
proof
  fix w
  obtain a w1 where e: "shed_enter shed env req w = (a, w1)" by fastforce
  then have v: "outer_view w1 = outer_view w"
    by (auto simp: shed_enter_def Let_def split: if_splits)
  obtain r w2 where m: "m w1 = (r, w2)" by fastforce
  from modestD [OF assms m] v e m
  show "outer_view (snd (load_shed_dispatch shed env req m w)) = outer_view w"
    by (cases a) (simp_all add: load_shed_dispatch_def shed_exit_def)
qed

text \<open>The part of the chain inside the metrics layer.\<close>

definition inner_chain ::
  "('c, 'm) web_scheme http_env \<Rightarrow> jwt \<Rightarrow> settings \<Rightarrow> load_shed \<Rightarrow> http_request
   \<Rightarrow> (('c, 'm) web_scheme, response) command \<Rightarrow> (('c, 'm) web_scheme, response) command" where
  "inner_chain env lib settings shed req router =
     load_shed_dispatch shed env req
       (auth_dispatch env lib settings req (handle_exceptions env req router))"

lemma modest_inner_chain: "modest router \<Longrightarrow> modest (inner_chain env lib settings shed req router)"
  unfolding inner_chain_def by (intro modest_load_shed modest_auth modest_handle_exceptions)

lemma create_app_chain:
  "create_app env lib settings router = Inr app \<Longrightarrow>
    \<exists>shed. new_load_shed (max_inflight_requests settings) (shed_retry_after_seconds settings) = Inr shed
      \<and> app = (\<lambda>req. handle_server_errors env (request_id_dispatch env req (access_log_dispatch env req
                (metrics_dispatch env req (inner_chain env lib settings shed req router)))))"
  by (auto simp: create_app_def sum_bind_eq_Inr inner_chain_def)

text \<open>The state in which the request-id layer calls the next one.\<close>

definition correlated ::
  "('c, 'm) web_scheme http_env \<Rightarrow> http_request \<Rightarrow> ('c, 'm) web_scheme \<Rightarrow> ('c, 'm) web_scheme" where
  "correlated env req w =
     (let rid = sanitize_request_id env (header_get REQUEST_ID_HEADER (req_headers req)) w;
          (trace_id, w2) = annotate_current_span rid
             (bind_contextvars ''request_id'' rid
               (clear_contextvars (w\<lparr>state_request_id := Some rid\<rparr>))) in
      case trace_id of None \<Rightarrow> w2 | Some t \<Rightarrow> bind_contextvars ''trace_id'' t w2)"

lemma correlated_fields [simp]:
  "state_request_id (correlated env req w)
     = Some (sanitize_request_id env (header_get REQUEST_ID_HEADER (req_headers req)) w)"
  "map_of (context_vars (correlated env req w)) ''request_id''
     = Some (sanitize_request_id env (header_get REQUEST_ID_HEADER (req_headers req)) w)"
  "access_lines (correlated env req w) = access_lines w"
  "request_counts (correlated env req w) = request_counts w"
  "inflight (correlated env req w) = inflight w"
  "now (correlated env req w) = now w"
  by (auto simp: correlated_def Let_def bind_contextvars_def clear_contextvars_def
      annotate_current_span_def access_lines_def request_counts_def split: option.split)

lemma request_id_dispatch_alt:
  "request_id_dispatch env req call_next w =
     bind_cmd call_next
       (\<lambda>r. return_cmd (r\<lparr>resp_headers := header_set REQUEST_ID_HEADER
               (sanitize_request_id env (header_get REQUEST_ID_HEADER (req_headers req)) w)
               (resp_headers r)\<rparr>)) (correlated env req w)"
  by (simp add: request_id_dispatch_def correlated_def Let_def case_prod_beta)

subsection \<open>One record and one count per request\<close>

definition answered_status :: "exn + response \<Rightarrow> int" where
  "answered_status r = (case r of Inl _ \<Rightarrow> 500 | Inr resp \<Rightarrow> resp_status resp)"

lemma access_fields_status: "map_of (access_fields env req status started w) ''status'' = Some (JInt status)"
  by (simp add: access_fields_def)

lemma metrics_observe_counts:
  "request_counts (metrics_observe env req status started w) =
     request_counts w @ (if exempt_path (route_label env req w) then []
       else [CounterInc ''http_requests_total''
               [route_label env req w, req_method req, str_int status]])"
  "access_lines (metrics_observe env req status started w) = access_lines w"
  "scope_route (metrics_observe env req status started w) = scope_route w"
  "context_vars (metrics_observe env req status started w) = context_vars w"
  by (simp_all add: metrics_observe_def Let_def exempt_path_def log_metric_def request_counts_def
      access_lines_def observe_request_def)

lemma access_lines_log_line:
  "access_lines (log_line level ''http.request'' given w) =
     access_lines w @ [\<lparr>log_severity = level, log_event = ''http.request'',
       log_fields = given @ filter (\<lambda>(k, _). k \<notin> fst ` set given)
                              (map (\<lambda>(k, v). (k, JStr v)) (context_vars w))\<rparr>]"
  "request_counts (log_line level event given w) = request_counts w"
  "scope_route (log_line level event given w) = scope_route w"
  by (simp_all add: access_lines_def log_line_def request_counts_def)

lemma route_label_cong: "scope_route w = scope_route w' \<Longrightarrow> route_label env req w = route_label env req w'"
  by (simp add: route_label_def route_template_def)

lemma map_of_JStr: "map_of (map (\<lambda>(k, v). (k, JStr v)) kvs) x = map_option JStr (map_of kvs x)"
  by (induction kvs) auto

lemma access_record_id:
  "(map_of (filter (\<lambda>(k, _). k \<notin> fst ` set (access_fields env req status started w))
               (map (\<lambda>(k, v). (k, JStr v)) ctx))
     ++ map_of (access_fields env req status started w)) ''request_id''
     = map_option JStr (map_of ctx ''request_id'')"
proof -
  have "map_of (filter (\<lambda>(k, _). k \<notin> fst ` set (access_fields env req status started w)) kvs) ''request_id''
      = map_of kvs ''request_id''" for kvs :: "(string \<times> json) list"
    by (induction kvs) (auto simp: access_fields_def)
  moreover have "map_of (access_fields env req status started w) ''request_id'' = None"
    by (simp add: access_fields_def)
  ultimately show ?thesis by (simp add: map_add_def map_of_JStr split: option.split)
qed

lemma observed_once:
  assumes "modest m"
    and "access_log_dispatch env req (metrics_dispatch env req m) w = (r, w')"
  shows "if \<exists>e. r = Inl e \<and> \<not> is_exception e
     then access_lines w' = access_lines w \<and> request_counts w' = request_counts w
     else (\<exists>rec. access_lines w' = access_lines w @ [rec]
             \<and> map_of (log_fields rec) ''status'' = Some (JInt (answered_status r))
             \<and> map_of (log_fields rec) ''request_id''
                 = map_option JStr (map_of (context_vars w) ''request_id''))
       \<and> request_counts w' = request_counts w
           @ (if exempt_path (route_label env req w') then []
              else [CounterInc ''http_requests_total''
                      [route_label env req w', req_method req, str_int (answered_status r)]])"
proof -
  obtain r1 w1 where m: "m w = (r1, w1)" by fastforce
  from modestD [OF assms(1) m] have v: "access_lines w1 = access_lines w"
    "request_counts w1 = request_counts w" "context_vars w1 = context_vars w"
    by (simp_all add: outer_view_def)
  show ?thesis
  proof (cases "\<exists>e. r1 = Inl e \<and> \<not> is_exception e")
    case True
    with assms(2) m v show ?thesis
      by (auto simp: access_log_dispatch_def metrics_dispatch_def Let_def)
  next
    case False
    let ?w2 = "metrics_observe env req (answered_status r1) (now w) w1"
    from False m have "metrics_dispatch env req m w = (r1, ?w2)"
      by (cases r1) (auto simp: metrics_dispatch_def Let_def answered_status_def)
    with False assms(2) obtain level where r: "r = r1"
      and w': "w' = log_line level ''http.request''
                (access_fields env req (answered_status r1) (now w) ?w2) ?w2"
      by (cases r1) (auto simp: access_log_dispatch_def Let_def answered_status_def)
    have "route_label env req w' = route_label env req w1"
      by (rule route_label_cong) (simp add: w' access_lines_log_line metrics_observe_counts)
    then show ?thesis
      using False r
      by (simp add: w' v access_lines_log_line metrics_observe_counts access_fields_status
          access_record_id)
  qed
qed

lemma handle_server_errors_cases:
  assumes "handle_server_errors env m w = (r, w')"
  obtains (passed) "m w = (r, w')" "\<nexists>e. r = Inl e \<and> is_exception e"
    | (unhandled) e where "m w = (Inl e, w')" "is_exception e" "r = Inr (internal_error_handler env w')"
  using assms
  by (auto simp: handle_server_errors_def split: prod.splits sum.splits if_splits)

lemma request_id_dispatch_cases:
  assumes "request_id_dispatch env req m w = (r, w')"
  obtains (raised) e where "m (correlated env req w) = (Inl e, w')" "r = Inl e"
    | (returned) resp where "m (correlated env req w) = (Inr resp, w')"
      "r = Inr (resp\<lparr>resp_headers := header_set REQUEST_ID_HEADER
              (sanitize_request_id env (header_get REQUEST_ID_HEADER (req_headers req)) w)
              (resp_headers resp)\<rparr>)"
  using assms
  by (auto simp: request_id_dispatch_alt bind_cmd_def split: prod.splits sum.splits)

text \<open>C25. Every request that is answered is counted once and logged once, under the status the client
  gets: whatever layer answered it (the router, an exception handler, the shed or the refusal of the
  policy, the 500 fallback), the access log gains exactly one \<open>http.request\<close> record and
  \<open>http_requests_total\<close> exactly one increment, and none if the route is a probe or the scrape. A
  cancelled request leaves neither.\<close>

theorem counted_and_logged_once:
  assumes "create_app env lib settings router = Inr app" and "modest router"
    and "app req w = (r, w')"
  shows "if \<exists>resp. r = Inr resp
     then (\<exists>rec. access_lines w' = access_lines w @ [rec]
             \<and> map_of (log_fields rec) ''status'' = Some (JInt (answered_status r)))
       \<and> request_counts w' = request_counts w
           @ (if exempt_path (route_label env req w') then []
              else [CounterInc ''http_requests_total''
                      [route_label env req w', req_method req, str_int (answered_status r)]])
     else access_lines w' = access_lines w \<and> request_counts w' = request_counts w"
proof -
  from create_app_chain [OF assms(1)] obtain shed where app: "app = (\<lambda>req.
      handle_server_errors env (request_id_dispatch env req (access_log_dispatch env req
        (metrics_dispatch env req (inner_chain env lib settings shed req router)))))"
    by blast
  let ?inner = "inner_chain env lib settings shed req router"
  let ?logged = "access_log_dispatch env req (metrics_dispatch env req ?inner)"
  note once = observed_once [OF modest_inner_chain [OF assms(2)], where env = env and req = req and w' = w']
  from assms(3) app have "handle_server_errors env (request_id_dispatch env req ?logged) w = (r, w')"
    by simp
  then show ?thesis
  proof (cases rule: handle_server_errors_cases)
    case passed
    from passed(1) show ?thesis
    proof (cases rule: request_id_dispatch_cases)
      case (raised e)
      with passed(2) have "\<not> is_exception e" by blast
      with once [OF raised(1)] raised(2) show ?thesis by simp
    next
      case (returned resp)
      with once [OF returned(1)] show ?thesis by (auto simp: answered_status_def)
    qed
  next
    case (unhandled e)
    from unhandled(1) have "?logged (correlated env req w) = (Inl e, w')"
      by (cases rule: request_id_dispatch_cases) auto
    from once [OF this] unhandled(2,3) show ?thesis
      by (auto simp: answered_status_def internal_error_handler_def)
  qed
qed

subsection \<open>One correlation id\<close>

text \<open>An answer of the chain quotes the id that is in the state: envelopes are built by \<open>error_response\<close>.\<close>

definition quotes :: "string \<Rightarrow> response \<Rightarrow> bool" where
  "quotes rid resp \<longleftrightarrow>
     (\<forall>x. envelope_field ''request_id'' resp = Some x \<longrightarrow> x = JStr rid)"

definition quoting :: "string \<Rightarrow> (('c, 'm) web_scheme, response) command \<Rightarrow> bool" where
  "quoting rid m \<longleftrightarrow>
     (\<forall>w. state_request_id w = Some rid \<longrightarrow>
        state_request_id (snd (m w)) = Some rid
        \<and> (\<forall>resp. fst (m w) = Inr resp \<longrightarrow> quotes rid resp))"

lemma quotingD:
  "quoting rid m \<Longrightarrow> m w = (r, w') \<Longrightarrow> state_request_id w = Some rid \<Longrightarrow>
    state_request_id w' = Some rid \<and> (\<forall>resp. r = Inr resp \<longrightarrow> quotes rid resp)"
  unfolding quoting_def by (drule spec [of _ w]) simp

lemma quotes_error_response:
  "rid \<noteq> [] \<Longrightarrow> state_request_id w = Some rid \<Longrightarrow>
    quotes rid (error_response env status code msg details hs w)"
  by (simp add: quotes_def error_response_request_id del: envelope_field.simps)

lemma state_request_id_log [simp]:
  "state_request_id (log_line level event given w) = state_request_id w"
  "state_request_id (log_metric f w) = state_request_id w"
  by (simp_all add: log_line_def log_metric_def)

lemma quotes_header [simp]:
  "quotes rid (resp\<lparr>resp_headers := hs\<rparr>) = quotes rid resp"
  by (simp add: quotes_def)

lemma quoting_handle_exceptions:
  fixes m :: "(('c, 'm) web_scheme, response) command"
  assumes "quoting rid m" and "rid \<noteq> []"
  shows "quoting rid (handle_exceptions env req m)"
  unfolding quoting_def
proof (intro allI impI)
  fix w :: "('c, 'm) web_scheme"
  assume s: "state_request_id w = Some rid"
  obtain r w1 where r: "m w = (r, w1)" by fastforce
  with quotingD [OF assms(1) r s] assms(2)
  show "state_request_id (snd (handle_exceptions env req m w)) = Some rid
      \<and> (\<forall>resp. fst (handle_exceptions env req m w) = Inr resp \<longrightarrow> quotes rid resp)"
    by (auto simp: handle_exceptions_def domain_error_handler_def validation_error_handler_def Let_def
        case_prod_beta quotes_error_response split: sum.splits exn.splits option.splits)
qed

lemma quoting_auth:
  fixes m :: "(('c, 'm) web_scheme, response) command"
  assumes "quoting rid m" and "rid \<noteq> []"
  shows "quoting rid (auth_dispatch env lib settings req m)"
  unfolding quoting_def
proof (intro allI impI)
  fix w :: "('c, 'm) web_scheme"
  assume s: "state_request_id w = Some rid"
  obtain r w1 where r: "auth_principal env lib settings req w = (r, w1)" by fastforce
  with s assms(2) have s1: "state_request_id w1 = Some rid"
    and q: "\<forall>resp. r = Inr (Some resp) \<longrightarrow> quotes rid resp"
    by (auto simp: auth_principal_def Let_def quotes_error_response
        split: option.splits sum.splits exn.splits domain_error.splits)
  obtain r2 w2 where r2: "m w1 = (r2, w2)" by fastforce
  from quotingD [OF assms(1) r2 s1] r q s1 assms(2) r2
  show "state_request_id (snd (auth_dispatch env lib settings req m w)) = Some rid
      \<and> (\<forall>resp. fst (auth_dispatch env lib settings req m w) = Inr resp \<longrightarrow> quotes rid resp)"
    by (cases r)
      (auto simp: auth_dispatch_def bind_cmd_def auth_policy_def Let_def quotes_error_response
        split: option.splits)
qed

lemma quoting_load_shed:
  fixes m :: "(('c, 'm) web_scheme, response) command"
  assumes "quoting rid m" and "rid \<noteq> []"
  shows "quoting rid (load_shed_dispatch shed env req m)"
  unfolding quoting_def
proof (intro allI impI)
  fix w :: "('c, 'm) web_scheme"
  assume s: "state_request_id w = Some rid"
  obtain a w1 where e: "shed_enter shed env req w = (a, w1)" by fastforce
  with s assms(2) have s1: "state_request_id w1 = Some rid"
    and q: "\<forall>resp. a = Shed resp \<longrightarrow> quotes rid resp"
    by (auto simp: shed_enter_def Let_def quotes_error_response split: if_splits)
  obtain r2 w2 where r2: "m w1 = (r2, w2)" by fastforce
  from quotingD [OF assms(1) r2 s1] e q s1 r2
  show "state_request_id (snd (load_shed_dispatch shed env req m w)) = Some rid
      \<and> (\<forall>resp. fst (load_shed_dispatch shed env req m w) = Inr resp \<longrightarrow> quotes rid resp)"
    by (cases a) (simp_all add: load_shed_dispatch_def shed_exit_def)
qed

lemma quoting_observers:
  fixes m :: "(('c, 'm) web_scheme, response) command"
  assumes "quoting rid m"
  shows "quoting rid (access_log_dispatch env req (metrics_dispatch env req m))"
  unfolding quoting_def
proof (intro allI impI)
  fix w :: "('c, 'm) web_scheme"
  assume s: "state_request_id w = Some rid"
  obtain r w1 where r: "m w = (r, w1)" by fastforce
  from quotingD [OF assms r s] r
  show "state_request_id (snd (access_log_dispatch env req (metrics_dispatch env req m) w)) = Some rid
      \<and> (\<forall>resp. fst (access_log_dispatch env req (metrics_dispatch env req m) w) = Inr resp
            \<longrightarrow> quotes rid resp)"
    by (cases r) (simp_all add: access_log_dispatch_def metrics_dispatch_def metrics_observe_def Let_def)
qed


subsection \<open>A small application\<close>

text \<open>A router with one article, number 7; everything else is not found.\<close>

definition demo_router :: "http_request \<Rightarrow> ((nat, unit) web_scheme, response) command" where
  "demo_router req w =
     (if req_path req = ''/v1/articles/7''
      then (Inr \<lparr>resp_status = 200, resp_headers = [], resp_body = JsonBody (JObj [(''id'', JInt 7)])\<rparr>, w)
      else (Inl (Domain (ArticleNotFoundError ''Article does not exist.'')), w))"

definition demo_get :: "string \<Rightarrow> (string \<times> string) list \<Rightarrow> http_request" where
  "demo_get path hs = \<lparr>req_method = ''GET'', req_path = path, req_headers = hs\<rparr>"

definition demo_app :: "http_request \<Rightarrow> ((nat, unit) web_scheme, response) command" where
  "demo_app req = projr (create_app demo_env demo_jwt demo_secrets (demo_router req)) req"

lemma demo_app_created:
  "create_app demo_env demo_jwt demo_secrets (demo_router req) =
     Inr (projr (create_app demo_env demo_jwt demo_secrets (demo_router req)))"
  by (simp add: create_app_def new_load_shed_def demo_secrets_def default_settings_def)

lemma demo_router_modest: "modest (demo_router req)"
  by (simp add: modest_def demo_router_def)

lemma demo_router_quoting: "\<forall>rid. quoting rid (demo_router req)"
  by (simp add: quoting_def demo_router_def quotes_def)

lemmas chain_defs =
  create_app_def new_load_shed_def handle_server_errors_def request_id_dispatch_alt
  access_log_dispatch_def metrics_dispatch_def load_shed_dispatch_def shed_enter_def shed_exit_def
  auth_dispatch_def auth_principal_def auth_policy_def handle_exceptions_def
  domain_error_handler_def bind_cmd_def Let_def

lemma lower_names:
  "lower ''x-request-id'' = ''x-request-id''" "lower ''X-Request-ID'' = ''x-request-id''"
  "lower ''Authorization'' = ''authorization''" "lower ''Bearer'' = ''bearer''"
  by code_simp+

lemma demo_public: "route_requirement ''GET'' (''/v1/articles/'' @ s) = PUBLIC"
  by (simp add: route_requirement_def PUBLIC_PREFIXES_def METRICS_PATH_def ADMIN_PREFIX_def
      ARTICLES_PREFIX_def startswith_def upper_ascii_char_def)

lemma demo_app_missing:
  "\<exists>resp. fst (demo_app (demo_get ''/v1/articles/8'' []) demo_web) = Inr resp \<and> resp_status resp = 404"
  using demo_public [of "''8''"]
  by (simp add: demo_app_def chain_defs demo_secrets_def default_settings_def demo_router_def
      demo_get_def demo_web_def exempt_path_def METRICS_PATH_def PROBE_PATHS_def correlated_def
      clear_contextvars_def bind_contextvars_def annotate_current_span_def log_metric_def
      extract_bearer_token_def header_get_def authorize_def)

theorem counted_and_logged_once_witness:
  "\<exists>rec. access_lines (snd (demo_app (demo_get ''/v1/articles/8'' []) demo_web)) = [rec]
     \<and> map_of (log_fields rec) ''status'' = Some (JInt 404)"
proof -
  let ?req = "demo_get ''/v1/articles/8'' []"
  obtain r w' where a: "demo_app ?req demo_web = (r, w')" by fastforce
  with demo_app_missing obtain resp where "r = Inr resp" "resp_status resp = 404" by auto
  moreover have "access_lines (demo_web :: (nat, unit) web_scheme) = []"
    by (simp add: access_lines_def demo_web_def)
  ultimately show ?thesis
    using counted_and_logged_once [OF demo_app_created demo_router_modest a [unfolded demo_app_def]] a
    by (auto simp: answered_status_def)
qed


end
