(* ===== verification/Gate.thy ===== *)
theory Gate
  imports MiddlewareProps
begin

text \<open>
  Who gets past the middleware: the access policy of a request, and the ceiling on the requests in
  flight as a step relation over their interleaved arrivals and departures.
\<close>

subsection \<open>Access\<close>

text \<open>The principal is that of a token of this request, signed by the configured key and in its window.\<close>

definition token_backed ::
  "jwt \<Rightarrow> settings \<Rightarrow> seconds \<Rightarrow> http_request \<Rightarrow> principal \<Rightarrow> bool" where
  "token_backed lib settings wall req q \<longleftrightarrow>
     (\<exists>key c. require_signing_key settings = Inr key
        \<and> extract_bearer_token req = Some (jwt_encode lib c key (jwt_algorithm settings))
        \<and> in_window wall c
        \<and> claim_sub c = Some (principal_id q) \<and> claim_role c = Some (principal_role q))"

lemma decode_token_backed:
  assumes "jwt_laws lib" and "decode_access_token lib settings wall token = Inr (sub, role)"
    and "extract_bearer_token req = Some token"
  shows "token_backed lib settings wall req \<lparr>principal_id = sub, principal_role = role\<rparr>"
proof -
  from assms(2) obtain key c where key: "require_signing_key settings = Inr key"
    and c: "jwt_decode lib wall token key [jwt_algorithm settings] = Some c"
      "claim_sub c = Some sub" "claim_role c = Some role"
    by (auto simp: decode_access_token_Inr)
  from jwt_laws_authentic [OF assms(1) c(1)] key c assms(3) show ?thesis
    by (auto simp: token_backed_def)
qed

text \<open>The three ways the principal is established.\<close>

lemma auth_principal_cases:
  assumes "jwt_laws lib"
  obtains (anonymous) "extract_bearer_token req = None"
      "auth_principal env lib settings req w = (Inr None, w\<lparr>state_principal := None\<rparr>)"
    | (known) q where "token_backed lib settings (wall_clock env (w\<lparr>state_principal := None\<rparr>)) req q"
      "auth_principal env lib settings req w = (Inr None, w\<lparr>state_principal := Some q\<rparr>)"
    | (refused) resp w1 where "extract_bearer_token req \<noteq> None" "resp_status resp = 401"
      "state_principal w1 = None"
      "auth_principal env lib settings req w = (Inr (Some resp), w1)"
    | (raised) e w1 where "auth_principal env lib settings req w = (Inl e, w1)"
proof -
  let ?w0 = "w\<lparr>state_principal := None\<rparr>"
  show ?thesis
  proof (cases "extract_bearer_token req")
    case None
    with anonymous show ?thesis by (simp add: auth_principal_def Let_def)
  next
    case (Some token)
    show ?thesis
    proof (cases "decode_access_token lib settings (wall_clock env ?w0) token")
      case (Inr p)
      obtain sub role where p: "p = (sub, role)" by fastforce
      from known [OF decode_token_backed [OF assms Inr [unfolded p] Some]] show ?thesis
        using Some Inr p by (simp add: auth_principal_def Let_def)
    next
      case (Inl e)
      show ?thesis
      proof (cases "\<exists>m. e = Domain (UnauthenticatedError m)")
        case True
        then obtain m where "e = Domain (UnauthenticatedError m)" ..
        with Some Inl have "\<exists>resp w1. resp_status resp = 401 \<and> state_principal w1 = None
            \<and> auth_principal env lib settings req w = (Inr (Some resp), w1)"
          by (auto simp: auth_principal_def Let_def log_line_def)
        with Some refused show ?thesis by blast
      next
        case False
        have "auth_principal env lib settings req w = (Inl e, ?w0)"
        proof (cases e)
          case (Domain d)
          with False Some Inl show ?thesis by (cases d) (simp_all add: auth_principal_def Let_def)
        qed (use Some Inl in \<open>simp_all add: auth_principal_def Let_def\<close>)
        then show ?thesis by (rule raised)
      qed
    qed
  qed
qed



text \<open>Writing an article always takes a token.\<close>

lemma article_write_requirement:
  assumes "startswith path ''/v1/articles''" and "map upper_ascii_char verb \<noteq> ''GET''"
  shows "route_requirement verb path \<noteq> PUBLIC"
proof -
  have six: "take 6 path = ''/v1/ar''"
    using startswith_take [OF assms(1), of 6] by (simp add: eval_nat_numeral)
  have "\<forall>p \<in> set PUBLIC_PREFIXES. take 6 p \<noteq> ''/v1/ar'' \<and> take 6 (p @ ''/'') \<noteq> ''/v1/ar'' \<and> 5 \<le> length p"
    by (simp add: PUBLIC_PREFIXES_def METRICS_PATH_def eval_nat_numeral)
  then have "\<not> (\<exists>p \<in> set PUBLIC_PREFIXES. path = p \<or> startswith path (p @ ''/''))"
    using six startswith_take [of path _ 6] by fastforce
  moreover have "path \<noteq> ''/''" using six by auto
  ultimately show ?thesis
    using assms(2) by (auto simp: route_requirement_def ARTICLES_PREFIX_def ADMIN_PREFIX_def)
qed

subsection \<open>The ceiling\<close>

text \<open>The in-flight gauge: the sum of its increments.\<close>

definition gauge_value :: "('c, 'm) web_scheme \<Rightarrow> int" where
  "gauge_value w =
     sum_list (map (\<lambda>c. case c of GaugeInc n d \<Rightarrow> if n = ''inflight_requests'' then d else 0 | _ \<Rightarrow> 0)
                (metrics w))"

text \<open>
  Interleaved requests on one instance, of which \<open>n\<close> are admitted and not finished: an arrival runs
  the first piece of the layer, a departure the \<open>finally\<close> block, for whichever reason the request
  ended, and between them the handlers do anything but touch the counter.
\<close>

inductive shed_run ::
  "load_shed \<Rightarrow> ('c, 'm) web_scheme http_env \<Rightarrow> nat \<Rightarrow> ('c, 'm) web_scheme \<Rightarrow> bool"
  for shed env where
  fresh: "inflight w = 0 \<Longrightarrow> gauge_value w = 0 \<Longrightarrow> shed_run shed env 0 w"
| arrive: "shed_run shed env n w \<Longrightarrow> shed_enter shed env req w = (a, w')
    \<Longrightarrow> shed_run shed env (if a = Admitted then Suc n else n) w'"
| depart: "shed_run shed env (Suc n) w \<Longrightarrow> shed_run shed env n (shed_exit w)"
| work: "shed_run shed env n w \<Longrightarrow> inflight w' = inflight w \<Longrightarrow> gauge_value w' = gauge_value w
    \<Longrightarrow> shed_run shed env n w'"

inductive_cases shed_run_SucE: "shed_run shed env (Suc n) w"

lemma shed_enter_effect:
  assumes "shed_enter shed env req w = (a, w')"
  shows "inflight w' = inflight w + (if a = Admitted then 1 else 0)
    \<and> gauge_value w' = gauge_value w + (if a = Admitted then 1 else 0)
    \<and> (a = Exempt \<longleftrightarrow> exempt_path (req_path req))
    \<and> (a = Admitted \<longleftrightarrow> \<not> exempt_path (req_path req) \<and> inflight w < max_inflight shed)"
  using assms
  by (auto simp: shed_enter_def Let_def log_metric_def log_line_def gauge_value_def
      track_inflight_def observe_degraded_response_def split: if_splits)

lemma shed_exit_effect [simp]:
  "inflight (shed_exit w) = inflight w - 1" "gauge_value (shed_exit w) = gauge_value w - 1"
  by (simp_all add: shed_exit_def log_metric_def gauge_value_def track_inflight_def)

lemma shed_run_invariant:
  assumes "shed_run shed env n w" and "1 \<le> max_inflight shed"
  shows "inflight w = int n \<and> gauge_value w = int n \<and> int n \<le> max_inflight shed"
  using assms
proof (induction rule: shed_run.induct)
  case (arrive n w req a w')
  with shed_enter_effect [OF arrive.hyps(2)] show ?case by auto
qed simp_all

lemma dispatch_returns_slot:
  assumes "\<forall>v. inflight (snd (m v)) = inflight v + d"
  shows "inflight (snd (load_shed_dispatch shed env req m w))
      = inflight w + (if \<exists>r. fst (shed_enter shed env req w) = Shed r then 0 else d)"
proof -
  obtain a w1 where e: "shed_enter shed env req w = (a, w1)" by fastforce
  obtain r w2 where m: "m w1 = (r, w2)" by fastforce
  with assms have "inflight w2 = inflight w1 + d" by (metis snd_conv)
  with shed_enter_effect [OF e] e m show ?thesis
    by (cases a) (auto simp: load_shed_dispatch_def)
qed

text \<open>C14. The ceiling holds and no slot leaks. However arrivals, departures and the work between them
  interleave, the counter and the in-flight gauge equal the number of admitted requests that have not
  finished, which never exceeds the ceiling; a request that arrives below the ceiling is admitted, one
  that arrives at it is refused with a 503 that advises a wait, and probes and scrapes pass in either
  case. A dispatch gives its slot back whatever the rest of the chain does, cancellation included.\<close>

theorem inflight_ceiling:
  assumes "new_load_shed most wait = Inr shed" and "shed_run shed env n w"
  shows "inflight w = int n \<and> gauge_value w = int n \<and> int n \<le> most
    \<and> (case fst (shed_enter shed env req w) of
         Exempt \<Rightarrow> exempt_path (req_path req)
       | Admitted \<Rightarrow> \<not> exempt_path (req_path req) \<and> int n < most
       | Shed r \<Rightarrow> \<not> exempt_path (req_path req) \<and> int n = most \<and> resp_status r = 503
           \<and> header_get ''Retry-After'' (resp_headers r) = Some (str_int \<lceil>wait\<rceil>) \<and> 1 \<le> \<lceil>wait\<rceil>)
    \<and> (\<forall>m. (\<forall>v. inflight (snd (m v)) = inflight v + d) \<longrightarrow>
         inflight (snd (load_shed_dispatch shed env req m w))
           = inflight w + (if \<exists>r. fst (shed_enter shed env req w) = Shed r then 0 else d))"
proof -
  from assms(1) have shed: "shed = \<lparr>max_inflight = most, shed_retry_after = wait\<rparr>" "1 \<le> most" "0 < wait"
    by (auto simp: new_load_shed_def split: if_splits)
  with shed_run_invariant [OF assms(2)] have n: "inflight w = int n" "gauge_value w = int n" "int n \<le> most"
    by simp_all
  have "1 \<le> \<lceil>wait\<rceil>" using shed(3) by (simp add: one_le_ceiling)
  with n shed have "case fst (shed_enter shed env req w) of
         Exempt \<Rightarrow> exempt_path (req_path req)
       | Admitted \<Rightarrow> \<not> exempt_path (req_path req) \<and> int n < most
       | Shed r \<Rightarrow> \<not> exempt_path (req_path req) \<and> int n = most \<and> resp_status r = 503
           \<and> header_get ''Retry-After'' (resp_headers r) = Some (str_int \<lceil>wait\<rceil>) \<and> 1 \<le> \<lceil>wait\<rceil>"
    by (auto simp: shed_enter_def Let_def max_def)
  with n dispatch_returns_slot show ?thesis by blast
qed

theorem inflight_ceiling_witness:
  "\<exists>r. fst (shed_enter \<lparr>max_inflight = 1, shed_retry_after = 1 / 2\<rparr> demo_env (demo_get ''/v1/articles'' [])
       (snd (shed_enter \<lparr>max_inflight = 1, shed_retry_after = 1 / 2\<rparr> demo_env (demo_get ''/v1/articles'' [])
               (demo_web :: (nat, unit) web_scheme)))) = Shed r \<and> resp_status r = 503"
proof -
  let ?shed = "\<lparr>max_inflight = 1, shed_retry_after = 1 / 2\<rparr> :: load_shed"
  let ?req = "demo_get ''/v1/articles'' []"
  let ?w = "demo_web :: (nat, unit) web_scheme"
  let ?w1 = "snd (shed_enter ?shed demo_env ?req ?w)"
  have path: "\<not> exempt_path (req_path ?req)"
    by (simp add: demo_get_def exempt_path_def METRICS_PATH_def PROBE_PATHS_def)
  have new: "new_load_shed 1 (1 / 2) = Inr ?shed" by (simp add: new_load_shed_def)
  have start: "shed_run ?shed demo_env 0 ?w"
    by (rule shed_run.fresh) (simp_all add: demo_web_def gauge_value_def)
  have e: "shed_enter ?shed demo_env ?req ?w = (Admitted, ?w1)"
    using path by (simp add: shed_enter_def demo_web_def)
  from shed_run.arrive [OF start e] have "shed_run ?shed demo_env 1 ?w1" by simp
  from inflight_ceiling [OF new this, of ?req 0] path show ?thesis
    by (auto split: admission.splits)
qed

end
