(* ===== verification/AuthService.thy ===== *)
theory AuthService
  imports Gate
begin

text \<open>
  \<open>app/services/auth_service.py\<close> and \<open>get_current_user\<close> of \<open>app/api/deps.py\<close>. The service is the
  record of what it uses: the user repository, the password hasher, PyJWT, the settings and the wall
  clock. The properties are stated against a users table that does what MySQL documents (\<open>user_db\<close>)
  and a hasher that does what Argon2 documents (\<open>hasher_laws\<close>).
\<close>

record 'w auth_service =
  users :: "'w user_repository"
  auth_hasher :: "'w hasher"
  auth_jwt :: jwt
  auth_settings :: settings
  auth_wall :: "'w \<Rightarrow> seconds"

definition dummy_hash ::
  "('c, 'm) web_scheme auth_service \<Rightarrow> (('c, 'm) web_scheme, string) command" where
  "dummy_hash s w =
     (case dummy_hash_cache w of
        Some d \<Rightarrow> (Inr d, w)
      | None \<Rightarrow>
          bind_cmd (hash_password (auth_hasher s) ''timing-equalizer-not-a-real-password'')
            (\<lambda>d w'. (Inr d, w'\<lparr>dummy_hash_cache := Some d\<rparr>)) w)"

definition email_taken :: exn where
  "email_taken = Domain (ConflictError ''A user with this email already exists.'')"

definition bad_credentials :: exn where
  "bad_credentials = Domain (UnauthenticatedError ''Invalid email or password.'')"

definition bad_identity :: exn where
  "bad_identity = Domain (UnauthenticatedError ''Missing or invalid identity.'')"

definition register ::
  "('c, 'm) web_scheme auth_service \<Rightarrow> string \<Rightarrow> string \<Rightarrow> (('c, 'm) web_scheme, user) command" where
  "register s address password =
     traced ''auth'' ''register'' []
       (bind_cmd (get_by_email (users s) address) (\<lambda>found.
          if found \<noteq> None then raise_cmd email_taken
          else bind_cmd (hash_password (auth_hasher s) password) (\<lambda>hash.
            user_create (users s) address hash ''user'')))"

definition login ::
  "('c, 'm) web_scheme auth_service \<Rightarrow> string \<Rightarrow> string \<Rightarrow> (('c, 'm) web_scheme, string) command" where
  "login s address password =
     traced ''auth'' ''login'' []
       (bind_cmd (get_by_email (users s) address) (\<lambda>found.
          case found of
            None \<Rightarrow>
              bind_cmd (dummy_hash s) (\<lambda>d.
              bind_cmd (verify_password (auth_hasher s) password d) (\<lambda>_.
              raise_cmd bad_credentials))
          | Some u \<Rightarrow>
              bind_cmd (verify_password (auth_hasher s) password (password_hash u)) (\<lambda>ok w.
                if \<not> ok then (Inl bad_credentials, w)
                else (create_access_token (auth_jwt s) (auth_settings s) (auth_wall s w)
                        (str_int (user_id u)) (role_name (user_role u)), w))))"

definition get_current_user ::
  "('c, 'm) web_scheme user_repository \<Rightarrow> (('c, 'm) web_scheme, user) command" where
  "get_current_user r w =
     (case state_principal w of
        None \<Rightarrow> (Inl bad_identity, w)
      | Some p \<Rightarrow>
          (case py_int (principal_id p) of
             None \<Rightarrow> (Inl (ValueError ''invalid literal for int()''), w)
           | Some i \<Rightarrow>
               bind_cmd (get_by_id r i)
                 (\<lambda>found. case found of None \<Rightarrow> raise_cmd bad_identity | Some u \<Rightarrow> return_cmd u) w))"

subsection \<open>A users table and a hasher\<close>

text \<open>
  A statement answers, after some time, and touches nothing else of the state; the insertion adds one
  row with a fresh id, or raises the integrity error of the unique index on the address.
\<close>

definition later :: "('c, 'm) web_scheme \<Rightarrow> ('c, 'm) web_scheme \<Rightarrow> bool" where
  "later w w' \<longleftrightarrow> (\<exists>t. w' = w\<lparr>now := t\<rparr>)"

lemma later_fields:
  assumes "later w w'"
  shows "breakers w' = breakers w" "web.more w' = web.more w" "dummy_hash_cache w' = dummy_hash_cache w"
    "state_principal w' = state_principal w"
  using assms by (auto simp: later_def)

definition user_db ::
  "('c, 'm) web_scheme user_session \<Rightarrow> ('m \<Rightarrow> user list) \<Rightarrow> ('m \<Rightarrow> nat) \<Rightarrow> role \<Rightarrow> bool" where
  "user_db us people work member \<longleftrightarrow>
     (\<forall>i dl w. \<exists>w'. session_get_user us i dl w
          = (Done (Inr (find (\<lambda>u. user_id u = i) (people (web.more w)))), w') \<and> later w w')
     \<and> (\<forall>e dl w. \<exists>w'. select_user_by_email us e dl w
          = (Done (Inr (filter (\<lambda>u. email u = e) (people (web.more w)))), w') \<and> later w w')
     \<and> (\<forall>dl w. \<exists>w'. select_role_by_name us ''user'' dl w = (Done (Inr [member]), w') \<and> later w w')
     \<and> (\<forall>e h r dl w. e \<notin> email ` set (people (web.more w)) \<longrightarrow>
          (\<exists>u w'. flush_user us e h r dl w = (Done (Inr u), w')
             \<and> breakers w' = breakers w \<and> dummy_hash_cache w' = dummy_hash_cache w
             \<and> work (web.more w') = work (web.more w)
             \<and> people (web.more w') = people (web.more w) @ [u]
             \<and> user_id u \<notin> user_id ` set (people (web.more w)) \<and> 0 < user_id u
             \<and> email u = e \<and> password_hash u = h \<and> user_role u = r))"

text \<open>
  \<open>fits h p\<close> when \<open>h\<close> is an Argon2 hash of \<open>p\<close>; \<open>work\<close> counts the hashes and verifications done, the
  one expensive step of the service.
\<close>

definition hasher_laws ::
  "('c, 'm) web_scheme hasher \<Rightarrow> ('m \<Rightarrow> user list) \<Rightarrow> ('m \<Rightarrow> nat) \<Rightarrow> (string \<Rightarrow> string \<Rightarrow> bool) \<Rightarrow> bool" where
  "hasher_laws h people work fits \<longleftrightarrow>
     (\<forall>p w. \<exists>s w'. argon2_hash h p w = (Inr s, w') \<and> fits s p
        \<and> breakers w' = breakers w \<and> dummy_hash_cache w' = dummy_hash_cache w
        \<and> people (web.more w') = people (web.more w) \<and> work (web.more w') = Suc (work (web.more w)))
     \<and> (\<forall>s p w. \<exists>r w'. argon2_verify h s p w = (Inr r, w') \<and> (r = Verified \<longleftrightarrow> fits s p)
        \<and> breakers w' = breakers w \<and> dummy_hash_cache w' = dummy_hash_cache w
        \<and> people (web.more w') = people (web.more w) \<and> work (web.more w') = Suc (work (web.more w)))"

lemma user_dbD:
  assumes "user_db us people work member"
  shows "\<exists>w'. session_get_user us i dl w
          = (Done (Inr (find (\<lambda>u. user_id u = i) (people (web.more w)))), w') \<and> later w w'"
    and "\<exists>w'. select_user_by_email us e dl w
          = (Done (Inr (filter (\<lambda>u. email u = e) (people (web.more w)))), w') \<and> later w w'"
    and "\<exists>w'. select_role_by_name us ''user'' dl w = (Done (Inr [member]), w') \<and> later w w'"
    and "e \<notin> email ` set (people (web.more w)) \<Longrightarrow>
          \<exists>u w'. flush_user us e h r dl w = (Done (Inr u), w')
             \<and> breakers w' = breakers w \<and> dummy_hash_cache w' = dummy_hash_cache w
             \<and> work (web.more w') = work (web.more w)
             \<and> people (web.more w') = people (web.more w) @ [u]
             \<and> user_id u \<notin> user_id ` set (people (web.more w)) \<and> 0 < user_id u
             \<and> email u = e \<and> password_hash u = h \<and> user_role u = r"
  using assms unfolding user_db_def by blast+

lemma hasher_lawsD:
  assumes "hasher_laws h people work fits"
  shows "\<exists>s w'. argon2_hash h p w = (Inr s, w') \<and> fits s p
        \<and> breakers w' = breakers w \<and> dummy_hash_cache w' = dummy_hash_cache w
        \<and> people (web.more w') = people (web.more w) \<and> work (web.more w') = Suc (work (web.more w))"
    and "\<exists>r w'. argon2_verify h s p w = (Inr r, w') \<and> (r = Verified \<longleftrightarrow> fits s p)
        \<and> breakers w' = breakers w \<and> dummy_hash_cache w' = dummy_hash_cache w
        \<and> people (web.more w') = people (web.more w) \<and> work (web.more w') = Suc (work (web.more w))"
  using assms unfolding hasher_laws_def by blast+

text \<open>The database circuit is closed.\<close>

definition users_up :: "('c, 'm) web_scheme user_repository \<Rightarrow> ('c, 'm) web_scheme \<Rightarrow> bool" where
  "users_up r w \<longleftrightarrow>
     (\<exists>p b. users_policies r ''mysql'' = Some p \<and> breakers w ''mysql'' = Some b \<and> cb_state b = CLOSED)"

lemma users_up_succeeds: "users_up r w \<Longrightarrow> users_up r (breaker_succeeds ''mysql'' w)"
  unfolding users_up_def
  by (elim exE conjE) (simp add: verdict_breakers record_success_def)

lemma users_up_cong: "breakers w' = breakers w \<Longrightarrow> users_up r w' = users_up r w"
  by (simp add: users_up_def)

lemma breaker_succeeds_web [simp]:
  "web.more (breaker_succeeds d w) = web.more w"
  "dummy_hash_cache (breaker_succeeds d w) = dummy_hash_cache w"
  "state_principal (breaker_succeeds d w) = state_principal w"
  by (simp_all add: breaker_succeeds_def update_breaker_def)

definition responds ::
  "('w, 'a) awaitable \<Rightarrow> ('a \<Rightarrow> 'w \<Rightarrow> bool) \<Rightarrow> 'w \<Rightarrow> bool" where
  "responds op P w \<longleftrightarrow> (\<forall>dl. \<exists>a v. op dl w = (Done (Inr a), v) \<and> P a v)"

lemma users_call:
  assumes "users_up r w" and "responds op P w"
  shows "\<exists>a v. guarded_call (users_policies r) (users_waits r) ''mysql'' hook retry op w
    = (Inr a, breaker_succeeds ''mysql'' v) \<and> P a v"
proof -
  from assms(1) obtain p b where pb: "users_policies r ''mysql'' = Some p"
    "breakers w ''mysql'' = Some b" "cb_state b = CLOSED" by (auto simp: users_up_def)
  from assms(2) obtain a v where "op (now w + call_timeout_seconds p) w = (Done (Inr a), v)" "P a v"
    unfolding responds_def by blast
  with guarded_call_first_try [of "users_policies r" "''mysql''" p w b op a v] pb show ?thesis
    by blast
qed

text \<open>What a lookup does: an answer, and a state that differs in nothing the service reads.\<close>

definition same_data ::
  "('c, 'm) web_scheme user_repository \<Rightarrow> ('c, 'm) web_scheme \<Rightarrow> ('c, 'm) web_scheme \<Rightarrow> bool" where
  "same_data r w v \<longleftrightarrow>
     users_up r v \<and> web.more v = web.more w \<and> dummy_hash_cache v = dummy_hash_cache w
     \<and> state_principal v = state_principal w"

lemma find_filter: "find P xs = (case filter P xs of [] \<Rightarrow> None | x # _ \<Rightarrow> Some x)"
  by (induction xs) auto

lemma by_email_unique:
  assumes "distinct (map email people)"
  shows "scalar_one_or_none (filter (\<lambda>u. email u = e) people) = Inr (find (\<lambda>u. email u = e) people)"
  using assms
proof (induction people)
  case (Cons u people)
  show ?case
  proof (cases "email u = e")
    case True
    with Cons.prems have "filter (\<lambda>u. email u = e) people = []"
      by (auto simp: filter_empty_conv image_iff)
    with True show ?thesis by (simp add: scalar_one_or_none_def)
  qed (use Cons in simp)
qed (simp add: scalar_one_or_none_def)

lemma lookup_ok:
  assumes "user_db (users_session r) people work member" and "users_up r w"
    and "distinct (map email (people (web.more w)))"
  shows "\<exists>v. get_by_email r e w = (Inr (find (\<lambda>u. email u = e) (people (web.more w))), v)
      \<and> same_data r w v"
    and "\<exists>v. get_by_id r i w = (Inr (find (\<lambda>u. user_id u = i) (people (web.more w))), v)
      \<and> same_data r w v"
proof -
  have ok: "same_data r w (breaker_succeeds ''mysql'' v)" if "later w v" for v
    using that assms(2) users_up_succeeds [of r v] users_up_cong [of v w r]
    by (simp add: same_data_def later_fields)
  let ?u = "find (\<lambda>u. email u = e) (people (web.more w))"
  have "responds (bind_await (select_user_by_email (users_session r) e)
      (\<lambda>rows. finish (scalar_one_or_none rows))) (\<lambda>a v. a = ?u \<and> later w v) w"
    unfolding responds_def
  proof
    fix dl
    from user_dbD(2) [OF assms(1), of e dl w] by_email_unique [OF assms(3)]
    show "\<exists>a v. bind_await (select_user_by_email (users_session r) e)
        (\<lambda>rows. finish (scalar_one_or_none rows)) dl w = (Done (Inr a), v) \<and> a = ?u \<and> later w v"
      by (auto simp: bind_await_def finish_def)
  qed
  from users_call [OF assms(2) this] ok
  show "\<exists>v. get_by_email r e w = (Inr ?u, v) \<and> same_data r w v"
    unfolding get_by_email_def read_users_def guarded_read_def by blast
  let ?u = "find (\<lambda>u. user_id u = i) (people (web.more w))"
  have "responds (session_get_user (users_session r) i) (\<lambda>a v. a = ?u \<and> later w v) w"
    unfolding responds_def using user_dbD(1) [OF assms(1), of i _ w] by blast
  from users_call [OF assms(2) this] ok
  show "\<exists>v. get_by_id r i w = (Inr ?u, v) \<and> same_data r w v"
    unfolding get_by_id_def read_users_def guarded_read_def by blast
qed

text \<open>The row a registration adds.\<close>

definition registered ::
  "(string \<Rightarrow> string \<Rightarrow> bool) \<Rightarrow> role \<Rightarrow> string \<Rightarrow> string \<Rightarrow> user list \<Rightarrow> user \<Rightarrow> bool" where
  "registered fits member address password before u \<longleftrightarrow>
     email u = address \<and> fits (password_hash u) password \<and> user_role u = member
     \<and> user_id u \<notin> user_id ` set before \<and> 0 < user_id u"

lemma user_create_ok:
  assumes "user_db (users_session r) people work member" and "users_up r w"
    and "e \<notin> email ` set (people (web.more w))"
  shows "\<exists>u v. user_create r e h ''user'' w = (Inr u, v) \<and> users_up r v
    \<and> people (web.more v) = people (web.more w) @ [u] \<and> work (web.more v) = work (web.more w)
    \<and> dummy_hash_cache v = dummy_hash_cache w
    \<and> user_id u \<notin> user_id ` set (people (web.more w)) \<and> 0 < user_id u
    \<and> email u = e \<and> password_hash u = h \<and> user_role u = member"
proof -
  let ?P = "\<lambda>u v. breakers v = breakers w \<and> dummy_hash_cache v = dummy_hash_cache w
    \<and> work (web.more v) = work (web.more w)
    \<and> people (web.more v) = people (web.more w) @ [u]
    \<and> user_id u \<notin> user_id ` set (people (web.more w)) \<and> 0 < user_id u
    \<and> email u = e \<and> password_hash u = h \<and> user_role u = member"
  have "responds (bind_await (get_role r ''user'')
      (\<lambda>rl. flush_user (users_session r) e h rl)) ?P w"
    unfolding responds_def
  proof
    fix dl
    obtain w1 where r: "select_role_by_name (users_session r) ''user'' dl w = (Done (Inr [member]), w1)"
      and l: "later w w1"
      using user_dbD(3) [OF assms(1)] by blast
    from assms(3) l have "e \<notin> email ` set (people (web.more w1))" by (simp add: later_fields)
    from user_dbD(4) [OF assms(1) this, of h member dl] l r
    show "\<exists>u v. bind_await (get_role r ''user'') (\<lambda>rl. flush_user (users_session r) e h rl) dl w
        = (Done (Inr u), v) \<and> ?P u v"
      by (auto simp: get_role_def bind_await_def finish_def scalar_one_def later_fields)
  qed
  from users_call [OF assms(2) this] obtain u v where
    g: "guarded_call (users_policies r) (users_waits r) ''mysql'' None False
        (bind_await (get_role r ''user'') (\<lambda>rl. flush_user (users_session r) e h rl)) w
      = (Inr u, breaker_succeeds ''mysql'' v)" and P: "?P u v"
    by blast
  have "users_up r (breaker_succeeds ''mysql'' v)"
    using P assms(2) users_up_succeeds users_up_cong by blast
  with g P show ?thesis
    unfolding user_create_def guarded_write_def by auto
qed

lemma traced_state [simp]:
  "web.more (snd (traced c op attrs act w)) = web.more (snd (act w))"
  "breakers (snd (traced c op attrs act w)) = breakers (snd (act w))"
  "dummy_hash_cache (snd (traced c op attrs act w)) = dummy_hash_cache (snd (act w))"
  by (simp_all add: traced_def Let_def case_prod_beta)



text \<open>A token leads back to its account. The token a login issued is accepted until it expires, as a
  principal with the role the account had, and the principal resolves to the row that then has that
  id; an account that was deleted since is refused.\<close>

theorem token_leads_to_account:
  assumes "jwt_laws lib"
    and "create_access_token lib settings t (str_int (user_id u)) (role_name (user_role u)) = Inr token"
    and "0 \<le> t" and "t \<le> t'" and "t' < of_int \<lfloor>t + of_int (jwt_expire_seconds settings)\<rfloor>"
    and "0 \<le> jwt_expire_seconds settings" and "role_name (user_role u) \<noteq> []"
    and "0 \<le> user_id u" and "user_id u < 10 ^ 20"
    and "user_db (users_session r) people work member" and "users_up r w"
    and "distinct (map email (people (web.more w)))"
  shows "decode_access_token lib settings t' token
      = Inr (str_int (user_id u), JStr (role_name (user_role u)))
    \<and> fst (get_current_user r (w\<lparr>state_principal :=
          Some \<lparr>principal_id = str_int (user_id u), principal_role = JStr (role_name (user_role u))\<rparr>\<rparr>))
      = (case find (\<lambda>x. user_id x = user_id u) (people (web.more w)) of
           Some x \<Rightarrow> Inr x | None \<Rightarrow> Inl bad_identity)"
proof
  have "str_int (user_id u) \<noteq> []" using assms(8) by (simp add: str_int_nonneg)
  then show "decode_access_token lib settings t' token
      = Inr (str_int (user_id u), JStr (role_name (user_role u)))"
    using assms(1-7) by (intro token_accepted)
  let ?w = "w\<lparr>state_principal :=
      Some \<lparr>principal_id = str_int (user_id u), principal_role = JStr (role_name (user_role u))\<rparr>\<rparr>"
  have up: "users_up r ?w" and d: "distinct (map email (people (web.more ?w)))"
    using assms(11,12) by (simp_all add: users_up_def)
  from lookup_ok(2) [OF assms(10) up d, of "user_id u"] py_int_numeral [OF assms(8,9)]
  show "fst (get_current_user r ?w)
      = (case find (\<lambda>x. user_id x = user_id u) (people (web.more w)) of
           Some x \<Rightarrow> Inr x | None \<Rightarrow> Inl bad_identity)"
    by (auto simp: get_current_user_def bind_cmd_def split: option.split)
qed

end
