(* ===== verification/Routers.thy ===== *)
theory Routers
  imports AuthService ArticleService
begin

text \<open>
  \<open>app/api/routers\<close> and the factories of \<open>app/api/deps.py\<close>: the endpoints as commands over the state of
  a request, which answer a response or raise. FastAPI resolves the dependencies first (the session,
  then the current user), then validates, then calls the handler; the arguments of an endpoint are
  what it parsed from the request. The record \<open>backend\<close> holds what the dependencies give.
\<close>

record 'w backend =
  base_service :: "'w article_service"
  user_repo :: "'w user_repository"
  sess_commit :: "('w, unit) command"
  sess_rollback :: "('w, unit) command"
  article_json :: "article_out \<Rightarrow> json"       \<comment> \<open>pydantic's rendering of \<open>ArticleOut\<close>\<close>
  bad_input :: json                          \<comment> \<open>the error list of a failed validation\<close>

subsection \<open>Dependencies\<close>

definition get_article_service :: "settings \<Rightarrow> 'w backend \<Rightarrow> 'w article_service" where
  "get_article_service settings b =
     (base_service b)\<lparr>has_session := True,
        article_ttl := cache_article_ttl_seconds settings,
        list_ttl := cache_list_ttl_seconds settings,
        ttl_jitter := cache_ttl_jitter settings,
        lock_timeout := cache_lock_timeout_seconds settings\<rparr>"

text \<open>The scope of a request: a new cache instance, a session, and the transaction around the handler.\<close>

definition in_request ::
  "settings \<Rightarrow> (invalidation, 'm) web_scheme backend
   \<Rightarrow> ((invalidation, 'm) web_scheme, 'a) command \<Rightarrow> ((invalidation, 'm) web_scheme, 'a) command" where
  "in_request settings b handler w =
     get_session (sess_commit b) (sess_rollback b) (invalidate (get_article_service settings b)) handler
       (w\<lparr>cache := new_article_cache (settings.cache_enabled settings)\<rparr>)"

definition get_auth_service ::
  "jwt \<Rightarrow> settings \<Rightarrow> ('w \<Rightarrow> seconds) \<Rightarrow> 'w hasher \<Rightarrow> 'w backend \<Rightarrow> 'w auth_service" where
  "get_auth_service lib settings wall hasher b =
     \<lparr>users = user_repo b, auth_hasher = hasher, auth_jwt = lib, auth_settings = settings,
      auth_wall = wall\<rparr>"

definition json_response :: "int \<Rightarrow> json \<Rightarrow> response" where
  "json_response status j = \<lparr>resp_status = status, resp_headers = [], resp_body = JsonBody j\<rparr>"

subsection \<open>Articles\<close>

definition MAX_TITLE_LENGTH :: nat where "MAX_TITLE_LENGTH = 255"

definition MAX_BODY_LENGTH :: nat where "MAX_BODY_LENGTH = 100000"

record article_in =
  in_title :: string
  in_body :: string

definition validate_article :: "json \<Rightarrow> string \<Rightarrow> string \<Rightarrow> exn + article_in" where
  "validate_article errors new_title new_body =
     (if 1 \<le> length new_title \<and> length new_title \<le> MAX_TITLE_LENGTH
         \<and> 1 \<le> length new_body \<and> length new_body \<le> MAX_BODY_LENGTH
      then Inr \<lparr>in_title = new_title, in_body = new_body\<rparr>
      else Inl (RequestValidationError errors))"

definition no_if_match :: exn where
  "no_if_match = Domain (PreconditionRequiredError
     (''If-Match header (the article'' @ CHR 0x27 # ''s current updated_at) is required.''))"

definition bad_if_match :: exn where
  "bad_if_match = Domain (PreconditionRequiredError
     ''If-Match must be the updated_at value previously returned for the article.'')"

definition parse_if_match :: "codec \<Rightarrow> string option \<Rightarrow> exn + datetime" where
  "parse_if_match c if_match =
     (case if_match of
        None \<Rightarrow> Inl no_if_match
      | Some h \<Rightarrow>
          (case fromisoformat c (strip_with (\<lambda>x. x = CHR 0x22) (strip h)) of
             None \<Rightarrow> Inl bad_if_match
           | Some t \<Rightarrow> Inr t))"

definition lift :: "exn + 'a \<Rightarrow> ('w, 'a) command" where
  "lift r w = (r, w)"

definition create_route ::
  "settings \<Rightarrow> (invalidation, 'm) web_scheme backend \<Rightarrow> string \<Rightarrow> string
   \<Rightarrow> ((invalidation, 'm) web_scheme, response) command" where
  "create_route settings b new_title new_body =
     in_request settings b
       (bind_cmd (get_current_user (user_repo b)) (\<lambda>actor.
        bind_cmd (lift (validate_article (bad_input b) new_title new_body)) (\<lambda>payload.
        bind_cmd (create (get_article_service settings b) actor (in_title payload) (in_body payload)) (\<lambda>dto.
        return_cmd (json_response 201 (article_json b dto))))))"

definition list_route ::
  "settings \<Rightarrow> (invalidation, 'm) web_scheme backend \<Rightarrow> int option \<Rightarrow> string option \<Rightarrow> int option
   \<Rightarrow> ((invalidation, 'm) web_scheme, response) command" where
  "list_route settings b limit cursor author =
     in_request settings b
       (let n = (case limit of None \<Rightarrow> DEFAULT_PAGE_SIZE | Some l \<Rightarrow> l) in
        if n < 1 \<or> MAX_PAGE_SIZE < n \<or> (case author of None \<Rightarrow> False | Some a \<Rightarrow> a < 1)
        then raise_cmd (RequestValidationError (bad_input b))
        else
          bind_cmd (lift (case cursor of None \<Rightarrow> Inr None
                          | Some text \<Rightarrow> sum_bind (decode_cursor text) (\<lambda>p. Inr (Some p)))) (\<lambda>after.
          bind_cmd (list_articles (get_article_service settings b) n after author) (\<lambda>(items, next_after).
          return_cmd (json_response 200 (JObj
            [(''items'', JList (map (dump_summary (svc_codec (base_service b))) items)),
             (''next_cursor'', case next_after of None \<Rightarrow> JNull
                               | Some (t, i) \<Rightarrow> JStr (encode_cursor t i))])))))"

definition get_route ::
  "settings \<Rightarrow> (invalidation, 'm) web_scheme backend \<Rightarrow> int
   \<Rightarrow> ((invalidation, 'm) web_scheme, response) command" where
  "get_route settings b article_id =
     in_request settings b
       (bind_cmd (get_article (get_article_service settings b) article_id) (\<lambda>dto.
        return_cmd (json_response 200 (article_json b dto))))"

definition update_route ::
  "settings \<Rightarrow> (invalidation, 'm) web_scheme backend \<Rightarrow> int \<Rightarrow> string \<Rightarrow> string \<Rightarrow> string option
   \<Rightarrow> ((invalidation, 'm) web_scheme, response) command" where
  "update_route settings b article_id new_title new_body if_match =
     in_request settings b
       (bind_cmd (get_current_user (user_repo b)) (\<lambda>actor.
        bind_cmd (lift (validate_article (bad_input b) new_title new_body)) (\<lambda>payload.
        bind_cmd (lift (parse_if_match (svc_codec (base_service b)) if_match)) (\<lambda>expected.
        bind_cmd (update (get_article_service settings b) actor article_id
                    (in_title payload) (in_body payload) expected) (\<lambda>dto.
        return_cmd (json_response 200 (article_json b dto)))))))"

definition delete_route ::
  "settings \<Rightarrow> (invalidation, 'm) web_scheme backend \<Rightarrow> int \<Rightarrow> string option
   \<Rightarrow> ((invalidation, 'm) web_scheme, response) command" where
  "delete_route settings b article_id if_match =
     in_request settings b
       (bind_cmd (get_current_user (user_repo b)) (\<lambda>actor.
        bind_cmd (lift (parse_if_match (svc_codec (base_service b)) if_match)) (\<lambda>expected.
        bind_cmd (delete (get_article_service settings b) actor article_id expected) (\<lambda>_.
        return_cmd \<lparr>resp_status = 204, resp_headers = [], resp_body = NoBody\<rparr>))))"

subsection \<open>Authentication\<close>

definition user_out :: "user \<Rightarrow> json" where
  "user_out u =
     JObj [(''id'', JInt (user_id u)), (''email'', JStr (email u)),
           (''role'', JStr (role_name (user_role u)))]"

definition token_out :: "string \<Rightarrow> json" where
  "token_out token = JObj [(''access_token'', JStr token), (''token_type'', JStr ''bearer'')]"

definition register_route ::
  "settings \<Rightarrow> (invalidation, 'm) web_scheme backend \<Rightarrow> (invalidation, 'm) web_scheme auth_service
   \<Rightarrow> (string \<Rightarrow> string option) \<Rightarrow> (string \<Rightarrow> bool) \<Rightarrow> string \<Rightarrow> string
   \<Rightarrow> ((invalidation, 'm) web_scheme, response) command" where
  "register_route settings b s email_str checker address password =
     in_request settings b
       (bind_cmd (lift (validate_register email_str checker (bad_input b) address password)) (\<lambda>payload.
        bind_cmd (register s (reg_email payload) (reg_password payload)) (\<lambda>u.
        return_cmd (json_response 201 (user_out u)))))"

definition login_route ::
  "settings \<Rightarrow> (invalidation, 'm) web_scheme backend \<Rightarrow> (invalidation, 'm) web_scheme auth_service
   \<Rightarrow> string \<Rightarrow> string \<Rightarrow> ((invalidation, 'm) web_scheme, response) command" where
  "login_route settings b s address password =
     in_request settings b
       (let (e, p) = validate_login address password in
        bind_cmd (login s e p) (\<lambda>token. return_cmd (json_response 200 (token_out token))))"

subsection \<open>Health and metrics\<close>

definition instance_id :: "string option \<Rightarrow> string \<Rightarrow> string" where
  "instance_id hostname fresh_hex =
     (case hostname of Some h \<Rightarrow> if h \<noteq> [] then h else take 12 fresh_hex | None \<Rightarrow> take 12 fresh_hex)"

definition live_route :: "string \<Rightarrow> ('w, response) command" where
  "live_route me =
     return_cmd (json_response 200 (JObj [(''status'', JStr ''alive''), (''instance'', JStr me)]))"

text \<open>\<open>_check\<close>; \<open>class_name\<close> is \<open>exc.__class__.__name__\<close>.\<close>

definition check ::
  "(exn \<Rightarrow> string) \<Rightarrow> ('m proc_scheme, unit) awaitable \<Rightarrow> seconds \<Rightarrow> ('m proc_scheme, string) command" where
  "check class_name probe timeout w =
     (case probe (now w + timeout) w of
        (Expired, w') \<Rightarrow> (Inr (''error: '' @ class_name TimeoutError), w')
      | (Done (Inr _), w') \<Rightarrow> (Inr ''ok'', w')
      | (Done (Inl e), w') \<Rightarrow>
          if is_exception e then (Inr (''error: '' @ class_name e), w') else (Inl e, w'))"

definition ready_route ::
  "settings \<Rightarrow> (exn \<Rightarrow> string) \<Rightarrow> ('m proc_scheme, unit) awaitable \<Rightarrow> ('m proc_scheme, unit) awaitable
   \<Rightarrow> ('m proc_scheme, response) command" where
  "ready_route settings class_name probe_mysql probe_redis =
     (let timeout = readiness_timeout_seconds settings in
      bind_cmd (check class_name probe_mysql timeout) (\<lambda>mysql.
      bind_cmd (check class_name probe_redis timeout) (\<lambda>redis.
      let checks = JObj [(''mysql'', JStr mysql), (''redis'', JStr redis)] in
      if mysql \<noteq> ''ok'' then
        return_cmd (json_response 503 (JObj [(''status'', JStr ''unready''), (''checks'', checks)]))
      else
        return_cmd (json_response 200 (JObj
          [(''status'', JStr (if \<exists>status \<in> set [mysql, redis]. status \<noteq> ''ok'' then ''degraded'' else ''ready'')),
           (''checks'', checks)])))))"

definition metrics_route :: "('w \<Rightarrow> string \<times> string) \<Rightarrow> ('w, response) command" where
  "metrics_route render_metrics w =
     (let (payload, content_type) = render_metrics w in
      (Inr \<lparr>resp_status = 200, resp_headers = [], resp_body = TextBody payload content_type\<rparr>, w))"

subsection \<open>If-Match\<close>

lemma strip_with_clean:
  assumes "s \<noteq> []" and "\<not> p (hd s)" and "\<not> p (last s)"
  shows "strip_with p s = s"
proof -
  have "dropWhile p s = s" using assms(1,2) by (cases s) auto
  moreover have "dropWhile p (rev s) = rev s"
    using assms(1,3) by (cases s rule: rev_cases) auto
  ultimately show ?thesis by (simp add: strip_with_def)
qed

lemma strip_quoted:
  assumes "\<forall>c \<in> set s. c \<noteq> CHR 0x22"
  shows "strip_with (\<lambda>x. x = CHR 0x22) (CHR 0x22 # s @ [CHR 0x22]) = s"
proof -
  have "dropWhile (\<lambda>x. x = CHR 0x22) (s @ [CHR 0x22]) = (if s = [] then [] else s @ [CHR 0x22])"
    using assms by (cases s) auto
  moreover have "dropWhile (\<lambda>x. x = CHR 0x22) (CHR 0x22 # rev s) = rev s"
    using assms by (cases s rule: rev_cases) auto
  ultimately show ?thesis by (simp add: strip_with_def)
qed

text \<open>The version token round-trips. A client that echoes the time stamp it was given, bare or in
  quotes, names exactly that version; a missing or unreadable header is refused before anything is
  written.\<close>

theorem if_match_roundtrip:
  assumes "fromisoformat c (isoformat c t) = Some t"
    and "\<forall>x \<in> set (isoformat c t). x \<noteq> CHR 0x22 \<and> \<not> is_space x" and "isoformat c t \<noteq> []"
  shows "parse_if_match c (Some (isoformat c t)) = Inr t
    \<and> parse_if_match c (Some (CHR 0x22 # isoformat c t @ [CHR 0x22])) = Inr t
    \<and> parse_if_match c None = Inl no_if_match"
proof -
  let ?s = "isoformat c t"
  have ends: "hd ?s \<in> set ?s" "last ?s \<in> set ?s" using assms(3) by simp_all
  have "strip ?s = ?s"
    unfolding strip_def using assms(2) ends by (intro strip_with_clean [OF assms(3)]) blast+
  moreover have "strip_with (\<lambda>x. x = CHR 0x22) ?s = ?s"
    using assms(2) ends by (intro strip_with_clean [OF assms(3)]) blast+
  moreover have "strip (CHR 0x22 # ?s @ [CHR 0x22]) = CHR 0x22 # ?s @ [CHR 0x22]"
    unfolding strip_def by (rule strip_with_clean) (simp_all add: is_space_def)
  ultimately show ?thesis
    using strip_quoted [of ?s] assms(1,2) by (simp add: parse_if_match_def)
qed

subsection \<open>Readiness\<close>

text \<open>The state a probe leaves, and whether it answered.\<close>

definition probe_ok :: "('w, unit) awaitable \<Rightarrow> seconds \<Rightarrow> 'w \<Rightarrow> bool" where
  "probe_ok probe dl w \<longleftrightarrow> fst (probe dl w) = Done (Inr ())"

definition never_cancelled :: "('w, 'a) awaitable \<Rightarrow> bool" where
  "never_cancelled op \<longleftrightarrow> (\<forall>dl w e. fst (op dl w) = Done (Inl e) \<longrightarrow> is_exception e)"

lemma check_cases:
  assumes "never_cancelled probe"
  shows "\<exists>verdict. check class_name probe t w = (Inr verdict, snd (probe (now w + t) w))
    \<and> (verdict = ''ok'' \<longleftrightarrow> probe_ok probe (now w + t) w)"
proof -
  obtain r w' where r: "probe (now w + t) w = (r, w')" by fastforce
  have e: "is_exception e" if "r = Done (Inl e)" for e
    using assms [unfolded never_cancelled_def, rule_format, of "now w + t" w e] r that by simp
  show ?thesis
  proof (cases r)
    case (Done x)
    with r e show ?thesis by (cases x) (simp_all add: check_def probe_ok_def)
  qed (simp add: check_def probe_ok_def r)
qed

text \<open>C35. Readiness always answers, within twice its timeout, and only MySQL decides it: 503 exactly when
  the MySQL probe did not answer in time; otherwise 200, \<open>degraded\<close> when Redis did not, and \<open>ready\<close>
  when both did.\<close>

theorem readiness_verdict:
  assumes "never_cancelled mysql" and "never_cancelled redis" and "prompt mysql" and "prompt redis"
    and "0 \<le> readiness_timeout_seconds settings"
  shows "\<exists>resp w'. ready_route settings class_name mysql redis w = (Inr resp, w')
    \<and> now w' \<le> now w + 2 * readiness_timeout_seconds settings
    \<and> (let t = readiness_timeout_seconds settings; w1 = snd (mysql (now w + t) w);
           up = probe_ok mysql (now w + t) w; cached = probe_ok redis (now w1 + t) w1 in
       resp_status resp = (if up then 200 else 503)
       \<and> (\<exists>checks. resp_body resp = JsonBody (JObj
            [(''status'', JStr (if \<not> up then ''unready'' else if cached then ''ready'' else ''degraded'')),
             (''checks'', checks)])))"
proof -
  let ?t = "readiness_timeout_seconds settings"
  let ?w1 = "snd (mysql (now w + ?t) w)"
  obtain m where m: "check class_name mysql ?t w = (Inr m, ?w1)"
      "m = ''ok'' \<longleftrightarrow> probe_ok mysql (now w + ?t) w"
    using check_cases [OF assms(1)] by blast
  let ?w2 = "snd (redis (now ?w1 + ?t) ?w1)"
  obtain r where r: "check class_name redis ?t ?w1 = (Inr r, ?w2)"
      "r = ''ok'' \<longleftrightarrow> probe_ok redis (now ?w1 + ?t) ?w1"
    using check_cases [OF assms(2)] by blast
  have "now ?w1 \<le> now w + ?t" "now ?w2 \<le> now ?w1 + ?t"
    using assms(3-5) by (simp_all add: prompt_def)
  then have "now ?w2 \<le> now w + 2 * ?t" by simp
  then show ?thesis
    using m r
    by (cases "m = ''ok''"; cases "r = ''ok''")
      (simp_all add: ready_route_def Let_def bind_cmd_def json_response_def)
qed

end
