(* ===== verification/EndToEnd.thy ===== *)
theory EndToEnd
  imports Routers Coherence
begin

text \<open>
  Whole HTTP requests, one after the other, against the refinement of the table: a client that follows
  the cursors of \<open>GET /v1/articles\<close>, and a client that reads what it has just written. Each request runs
  with a cache instance and a session of its own (\<open>in_request\<close>); what persists between requests is the
  database, Redis, and the registry of breakers.
\<close>

subsection \<open>A server between requests\<close>

definition serving ::
  "(invalidation, 'm) web_scheme article_service \<Rightarrow> (invalidation, 'm) web_scheme \<Rightarrow> bool" where
  "serving s w \<longleftrightarrow>
     mysql_up s w \<and> (\<exists>b. breakers w ''redis'' = Some b \<and> cb_state b = CLOSED)"

definition opened ::
  "settings \<Rightarrow> (invalidation, 'm) web_scheme \<Rightarrow> (invalidation, 'm) web_scheme" where
  "opened settings w =
     w\<lparr>cache := new_article_cache (settings.cache_enabled settings), session_info := None\<rparr>"

lemma opened_more [simp]:
  "request.more (opened settings w) = request.more w" "pending_after_commit (opened settings w) = []"
  "session_info (opened settings w) = None" "breakers (opened settings w) = breakers w"
  by (simp_all add: opened_def pending_after_commit_def)

lemma opened_up: "serving s w \<Longrightarrow> settings.cache_enabled settings \<Longrightarrow> up s (opened settings w)"
  by (auto simp: serving_def up_def mysql_up_def redis_up_def usable_def opened_def new_article_cache_def)

lemma up_serving: "up s w \<Longrightarrow> serving s w"
  by (auto simp: serving_def up_def redis_up_def)

abbreviation service :: "settings \<Rightarrow> (invalidation, 'm) web_scheme backend
    \<Rightarrow> (invalidation, 'm) web_scheme article_service" where
  "service \<equiv> get_article_service"

lemma service_parts [simp]:
  "articles (service settings b) = articles (base_service b)"
  "svc_redis (service settings b) = svc_redis (base_service b)"
  "svc_codec (service settings b) = svc_codec (base_service b)"
  "sha256_hex (service settings b) = sha256_hex (base_service b)"
  "has_session (service settings b)"
  by (simp_all add: get_article_service_def)

lemma service_environment:
  "environment (service settings b) db kv sv clock = environment (base_service b) db kv sv clock"
  by (simp add: environment_def)

lemma service_coherent:
  "coherent (service settings b) = coherent (base_service b)"
  by (simp add: coherent_def coherent_articles_def coherent_pages_def fun_eq_iff)

lemma service_serving: "serving (service settings b) = serving (base_service b)"
  by (simp add: serving_def mysql_up_def fun_eq_iff)

text \<open>A request that only reads commits nothing and runs no invalidation.\<close>

lemma in_request_quiet:
  assumes "handler (opened settings w) = (Inr r, v)" and "sess_commit b v = (Inr (), v1)"
    and "session_info v1 = None"
  shows "in_request settings b handler w = (Inr r, discard_after_commit v1)"
proof -
  have "drain_after_commit (invalidate (service settings b)) v1 = (Inr (), discard_after_commit v1)"
    using assms(3) by (simp add: drain_after_commit_def pending_after_commit_def)
  with assms(1,2) show ?thesis
    by (simp add: in_request_def get_session_def opened_def bind_cmd_def)
qed

lemma in_request_read:
  assumes tr: "transaction (sess_commit b) (sess_rollback b) db kv sv"
    and st: "read_step (service settings b) db sv (opened settings w) v"
  shows "\<exists>v1. sess_commit b v = (Inr (), v1) \<and> session_info v1 = None
    \<and> db (request.more (discard_after_commit v1)) = db (request.more w)
    \<and> kv (request.more (discard_after_commit v1)) = kv (request.more v)
    \<and> serving (base_service b) (discard_after_commit v1)"
proof -
  from tr obtain v1 where v1: "sess_commit b v = (Inr (), v1)" "only_data kv v v1"
    "db (request.more v1) = db (request.more v)" unfolding transaction_def by blast
  have "session_info v1 = None"
    using v1(2) st by (simp add: only_data_def kept_def read_step_def)
  moreover have "serving (base_service b) (discard_after_commit v1)"
    using up_serving [of "service settings b" v] st v1(2)
    by (auto simp: serving_def mysql_up_def read_step_def only_data_def kept_def discard_after_commit_def)
  ultimately show ?thesis
    using v1 st by (auto simp: read_step_def only_data_def kept_def discard_after_commit_def)
qed

subsection \<open>Browsing\<close>

text \<open>The body of a list response, and what a client reads out of it.\<close>

definition page_json :: "codec \<Rightarrow> page \<Rightarrow> json" where
  "page_json c p =
     JObj [(''items'', JList (map (dump_summary c) (fst p))),
           (''next_cursor'', case snd p of None \<Rightarrow> JNull | Some (t, i) \<Rightarrow> JStr (encode_cursor t i))]"

fun body_field :: "response \<Rightarrow> string \<Rightarrow> json option" where
  "body_field resp name = (case resp_body resp of JsonBody (JObj kvs) \<Rightarrow> map_of kvs name | _ \<Rightarrow> None)"

definition page_items :: "response \<Rightarrow> json list" where
  "page_items resp = (case body_field resp ''items'' of Some (JList js) \<Rightarrow> js | _ \<Rightarrow> [])"

definition next_cursor :: "response \<Rightarrow> string option" where
  "next_cursor resp = (case body_field resp ''next_cursor'' of Some (JStr c) \<Rightarrow> Some c | _ \<Rightarrow> None)"

lemma page_json_read [simp]:
  "page_items (json_response status (page_json c p)) = map (dump_summary c) (fst p)"
  "next_cursor (json_response status (page_json c p)) = map_option (\<lambda>(t, i). encode_cursor t i) (snd p)"
  by (auto simp: page_items_def next_cursor_def json_response_def page_json_def split: option.split)

text \<open>A client that asks for the first page and then for every next one, \<open>n\<close> requests at most.\<close>

fun browse ::
  "settings \<Rightarrow> (invalidation, 'm) web_scheme backend \<Rightarrow> int \<Rightarrow> int option \<Rightarrow> nat \<Rightarrow> string option
   \<Rightarrow> ((invalidation, 'm) web_scheme, json list) command" where
  "browse settings b limit author 0 cursor w = (Inr [], w)"
| "browse settings b limit author (Suc n) cursor w =
     (case list_route settings b (Some limit) cursor author w of
        (Inl e, w') \<Rightarrow> (Inl e, w')
      | (Inr resp, w') \<Rightarrow>
          (case next_cursor resp of
             None \<Rightarrow> (Inr (page_items resp), w')
           | Some c \<Rightarrow>
               bind_cmd (browse settings b limit author n (Some c))
                 (\<lambda>rest. return_cmd (page_items resp @ rest)) w'))"

text \<open>The times and ids a cursor can carry: what the columns hold.\<close>

definition representable :: "position \<Rightarrow> bool" where
  "representable p \<longleftrightarrow> 0 \<le> fst p \<and> fst p \<le> datetime_max \<and> 0 < snd p \<and> snd p < 2 ^ 64"

definition cursor_of :: "position option \<Rightarrow> string option" where
  "cursor_of after = map_option (\<lambda>(t, i). encode_cursor t i) after"

text \<open>A server that is up, over a table and a cache that agree.\<close>

definition steady ::
  "settings \<Rightarrow> (invalidation, 'm) web_scheme backend \<Rightarrow> ('m web_ext \<Rightarrow> article list)
   \<Rightarrow> ('m web_ext \<Rightarrow> string \<Rightarrow> string option) \<Rightarrow> (int \<times> position option) set
   \<Rightarrow> (invalidation, 'm) web_scheme \<Rightarrow> bool" where
  "steady settings b db kv windows w \<longleftrightarrow>
     settings.cache_enabled settings \<and> serving (base_service b) w
     \<and> distinct (map art_id (db (request.more w)))
     \<and> coherent (base_service b) windows (db (request.more w)) (kv (request.more w))"

lemma list_route_page:
  assumes run: "list_articles (service settings b) limit after author (opened settings w) = (Inr p, v)"
    and commit: "sess_commit b v = (Inr (), v1)" "session_info v1 = None"
    and args: "1 \<le> limit" "limit \<le> MAX_PAGE_SIZE" "\<forall>a. author = Some a \<longrightarrow> 1 \<le> a"
      "\<forall>p. after = Some p \<longrightarrow> representable p"
  shows "list_route settings b (Some limit) (cursor_of after) author w
    = (Inr (json_response 200 (page_json (svc_codec (base_service b)) p)), discard_after_commit v1)"
proof -
  let ?s = "service settings b"
  have dec: "(case cursor_of after of None \<Rightarrow> Inr None
      | Some text \<Rightarrow> sum_bind (decode_cursor text) (\<lambda>p. Inr (Some p))) = Inr after"
    using args(4) decode_encoded_cursor
    by (auto simp: cursor_of_def representable_def sum_bind_def split: option.split)
  let ?h = "bind_cmd (lift (case cursor_of after of None \<Rightarrow> Inr None
      | Some text \<Rightarrow> sum_bind (decode_cursor text) (\<lambda>p. Inr (Some p)))) (\<lambda>after.
    bind_cmd (list_articles ?s limit after author) (\<lambda>(items, next_after).
    return_cmd (json_response 200 (JObj
      [(''items'', JList (map (dump_summary (svc_codec (base_service b))) items)),
       (''next_cursor'', case next_after of None \<Rightarrow> JNull | Some (t, i) \<Rightarrow> JStr (encode_cursor t i))]))))"
  have "?h (opened settings w) = (Inr (json_response 200 (page_json (svc_codec (base_service b)) p)), v)"
    using run unfolding dec by (simp add: bind_cmd_def lift_def page_json_def split: prod.split)
  from in_request_quiet [where handler = ?h, OF this commit] args show ?thesis
    by (cases author) (simp_all add: list_route_def Let_def)
qed

lemma list_route_run:
  assumes env: "environment (base_service b) db kv sv clock"
    and tr: "transaction (sess_commit b) (sess_rollback b) db kv sv"
    and st: "steady settings b db kv windows w"
    and cf: "collision_free (sha256_hex (base_service b)) windows" and win: "(limit, after) \<in> windows"
    and args: "1 \<le> limit" "limit \<le> MAX_PAGE_SIZE" "\<forall>a. author = Some a \<longrightarrow> 1 \<le> a"
      "\<forall>p. after = Some p \<longrightarrow> representable p"
  shows "\<exists>z. list_route settings b (Some limit) (cursor_of after) author w
      = (Inr (json_response 200 (page_json (svc_codec (base_service b))
           (spec_page (db (request.more w)) limit after author))), z)
    \<and> steady settings b db kv windows z \<and> db (request.more z) = db (request.more w)"
proof -
  let ?s = "service settings b" and ?w = "opened settings w"
  let ?p = "spec_page (db (request.more w)) limit after author"
  from st have up: "up ?s ?w"
    by (intro opened_up) (simp_all add: steady_def service_serving)
  have e: "environment ?s db kv sv clock" using env by (simp add: service_environment)
  have coh: "coherent ?s windows (db (request.more ?w)) (kv (request.more ?w))"
    "distinct (map art_id (db (request.more ?w)))"
    using st by (simp_all add: steady_def service_coherent)
  have unl: "coherent_pages ?s windows (db (request.more ?w)) (kv (request.more ?w))"
    "unlocked (kv (request.more ?w))" using coh(1) by (simp_all add: coherent_def)
  from list_articles_run [OF e up coh(2) unl win, of author] obtain v where
    v: "list_articles ?s limit after author ?w = (Inr ?p, v)" "read_step ?s db sv ?w v"
      "kv (request.more v) = kv (request.more w)
       \<or> kv (request.more v) = (kv (request.more w))
           (list_key (sha256_hex ?s) (generation (kv (request.more w)) author) author limit after
             \<mapsto> encode_page (svc_codec ?s) (fst ?p) (snd ?p))" by auto
  have "coherent ?s windows (db (request.more w)) (kv (request.more v))"
    using v(3) coh coherent_put_page [OF coh(1) environmentD(3) [OF e] _ win, of author] cf by auto
  moreover obtain v1 where v1: "sess_commit b v = (Inr (), v1)" "session_info v1 = None"
      "db (request.more (discard_after_commit v1)) = db (request.more w)"
      "kv (request.more (discard_after_commit v1)) = kv (request.more v)"
      "serving (base_service b) (discard_after_commit v1)"
    using in_request_read [OF tr v(2)] by blast
  ultimately show ?thesis
    using list_route_page [OF v(1) v1(1,2) args] st by (auto simp: steady_def service_coherent)
qed

text \<open>A page of the table is one step of the walk over it.\<close>

lemma spec_page_fetch:
  "spec_page table limit after author =
     (let (rows, next_after) = fetch_page (\<lambda>q. run_select q table) limit author after in
      (map summary_out_of rows, next_after))"
  by (simp add: spec_page_def fetch_page_def)

lemma fetch_page_next:
  assumes "fetch_page (\<lambda>q. run_select q table) limit author after = (rows, Some p)" and "1 \<le> limit"
  shows "\<exists>a \<in> set table. p = key_of a"
proof -
  let ?xs = "run_select (build_list_query (limit + 1) after author) table"
  have long: "limit < int (length ?xs)" and p: "p = (row_created_at (last (take (nat limit) (map summary_row ?xs))),
      row_id (last (take (nat limit) (map summary_row ?xs))))"
    using assms(1) by (auto simp: fetch_page_def split_page_def Let_def split: if_splits)
  have ne: "take (nat limit) ?xs \<noteq> []" using long assms(2) by (cases ?xs) auto
  then have "last (take (nat limit) ?xs) \<in> set (take (nat limit) ?xs)" by (rule last_in_set)
  then have "last (take (nat limit) ?xs) \<in> set ?xs" by (rule in_set_takeD)
  moreover have "set ?xs \<subseteq> set table"
  proof -
    obtain ys where "mset ys = mset (filter (matches (sel_where (build_list_query (limit + 1) after author))) table)"
      "?xs = take (nat (limit + 1)) ys"
      using run_select_answers [of "build_list_query (limit + 1) after author" table]
      by (auto simp: select_answer_def build_list_query_def)
    then show ?thesis
      by (metis filter_is_subset mset_eq_setD set_take_subset subset_trans)
  qed
  moreover have "p = key_of (last (take (nat limit) ?xs))"
    using p ne by (simp add: take_map last_map key_of_def summary_row_def)
  ultimately show ?thesis by blast
qed

text \<open>\<open>ok\<close> is what every request finds and leaves.\<close>

lemma browse_walk:
  assumes step: "\<And>w after. ok w \<Longrightarrow> (limit, after) \<in> windows \<Longrightarrow> \<forall>p. after = Some p \<longrightarrow> representable p \<Longrightarrow>
      \<exists>z. list_route settings b (Some limit) (cursor_of after) author w
        = (Inr (json_response 200 (page_json (svc_codec (base_service b))
             (spec_page table limit after author))), z) \<and> ok z"
    and lim: "1 \<le> limit"
    and rows: "\<forall>a \<in> set table. representable (key_of a) \<and> (limit, Some (key_of a)) \<in> windows"
  shows "ok w \<Longrightarrow> (limit, after) \<in> windows \<Longrightarrow> (\<forall>p. after = Some p \<longrightarrow> representable p) \<Longrightarrow>
    fst (browse settings b limit author n (cursor_of after) w)
      = Inr (map (\<lambda>r. dump_summary (svc_codec (base_service b)) (summary_out_of r))
          (concat (walk (fetch_page (\<lambda>q. run_select q table) limit author) n after)))"
proof (induction n arbitrary: w after)
  case (Suc n)
  let ?c = "svc_codec (base_service b)" and ?sel = "\<lambda>q. run_select q table"
  obtain rs next_after where f: "fetch_page ?sel limit author after = (rs, next_after)" by fastforce
  from step [OF Suc.prems] obtain z where
    z: "list_route settings b (Some limit) (cursor_of after) author w
        = (Inr (json_response 200 (page_json ?c (map summary_out_of rs, next_after))), z)" "ok z"
    unfolding spec_page_fetch f by auto
  show ?case
  proof (cases next_after)
    case None
    with z(1) f show ?thesis by simp
  next
    case (Some p)
    from fetch_page_next [OF f [unfolded Some] lim] rows
    have p: "representable p" "(limit, Some p) \<in> windows" by blast+
    obtain r z' where r: "browse settings b limit author n (cursor_of (Some p)) z = (r, z')" by fastforce
    from Suc.IH [OF z(2), of "Some p"] p r
    have "r = Inr (map (\<lambda>r. dump_summary ?c (summary_out_of r)) (concat (walk (fetch_page ?sel limit author) n (Some p))))"
      by simp
    with z(1) f Some r show ?thesis by (simp add: cursor_of_def bind_cmd_def)
  qed
qed simp

lemma browse_listing:
  assumes step: "\<And>w after. ok w \<Longrightarrow> (limit, after) \<in> windows \<Longrightarrow> \<forall>p. after = Some p \<longrightarrow> representable p \<Longrightarrow>
      \<exists>z. list_route settings b (Some limit) (cursor_of after) author w
        = (Inr (json_response 200 (page_json (svc_codec (base_service b))
             (spec_page table limit after author))), z) \<and> ok z"
    and lim: "1 \<le> limit"
    and rows: "\<forall>a \<in> set table. representable (key_of a) \<and> (limit, Some (key_of a)) \<in> windows"
    and win: "(limit, None) \<in> windows" and ok: "ok w" and ids: "distinct (map art_id table)"
    and xs: "mset xs = mset (filter (listed author) table)" "sorted_wrt newer xs" "length xs < n"
  shows "fst (browse settings b limit author n None w)
    = Inr (map (\<lambda>a. dump_summary (svc_codec (base_service b)) (summary_out_of (summary_row a))) xs)"
proof -
  let ?sel = "\<lambda>q. run_select q table"
  have L: "listing author table xs" using xs by (simp add: listing_def)
  have "concat (walk (fetch_page ?sel limit author) n None) = map summary_row xs"
    using walk_from [OF ids L run_select_answers lim, of 0 n] xs(3) by simp
  moreover have "fst (browse settings b limit author n (cursor_of None) w)
      = Inr (map (\<lambda>r. dump_summary (svc_codec (base_service b)) (summary_out_of r))
          (concat (walk (fetch_page ?sel limit author) n None)))"
    by (rule browse_walk [where ok = ok, OF step lim rows ok win]) simp_all
  ultimately show ?thesis by (simp add: cursor_of_def)
qed

text \<open>C2. Browsing over HTTP is complete. A client that asks for a page and follows \<open>next_cursor\<close> until
  there is none is given every live article (of the author asked for) exactly once, newest first: the
  cursor it echoes, the cached pages, the generations, the locks and the transactions of the requests
  in between do not show.\<close>

theorem browsing_complete:
  assumes "environment (base_service b) db kv sv clock"
    and "transaction (sess_commit b) (sess_rollback b) db kv sv"
    and "collision_free (sha256_hex (base_service b)) windows"
    and "1 \<le> limit" and "limit \<le> MAX_PAGE_SIZE" and "\<forall>a. author = Some a \<longrightarrow> 1 \<le> a"
    and "\<forall>a \<in> set (db (request.more w)). representable (key_of a) \<and> (limit, Some (key_of a)) \<in> windows"
    and "(limit, None) \<in> windows" and "steady settings b db kv windows w"
    and "mset xs = mset (filter (listed author) (db (request.more w)))" and "sorted_wrt newer xs"
    and "length xs < n"
  shows "fst (browse settings b limit author n None w)
    = Inr (map (\<lambda>a. dump_summary (svc_codec (base_service b)) (summary_out_of (summary_row a))) xs)"
proof (rule browse_listing [where ok = "\<lambda>v. steady settings b db kv windows v
      \<and> db (request.more v) = db (request.more w)" and table = "db (request.more w)"])
  fix v after
  assume "steady settings b db kv windows v \<and> db (request.more v) = db (request.more w)"
    "(limit, after) \<in> windows" "\<forall>p. after = Some p \<longrightarrow> representable p"
  with list_route_run [where w = v, OF assms(1,2) _ assms(3) _ assms(4-6)]
  show "\<exists>z. list_route settings b (Some limit) (cursor_of after) author v
      = (Inr (json_response 200 (page_json (svc_codec (base_service b))
           (spec_page (db (request.more w)) limit after author))), z)
    \<and> steady settings b db kv windows z \<and> db (request.more z) = db (request.more w)"
    by metis
qed (use assms in \<open>simp_all add: steady_def\<close>)

subsection \<open>Reading one's own write\<close>

text \<open>Looking a user up by the primary key: the row or nothing, after some time.\<close>

definition finds_users ::
  "(invalidation, 'm) web_scheme user_session \<Rightarrow> ('m \<Rightarrow> user list) \<Rightarrow> bool" where
  "finds_users us people \<longleftrightarrow>
     (\<forall>i dl w. \<exists>w'. session_get_user us i dl w
        = (Done (Inr (find (\<lambda>u. user_id u = i) (people (web.more w)))), w') \<and> later w w')"

lemma get_current_user_ok:
  assumes "finds_users (users_session r) people" and "users_up r w"
    and "state_principal w = Some p" and "py_int (principal_id p) = Some uid"
    and "find (\<lambda>u. user_id u = uid) (people (web.more w)) = Some actor"
  shows "\<exists>t. get_current_user r w = (Inr actor, breaker_succeeds ''mysql'' (w\<lparr>now := t\<rparr>))"
proof -
  have "responds (session_get_user (users_session r) uid) (\<lambda>a v. a = Some actor \<and> later w v) w"
    unfolding responds_def using assms(1,5) unfolding finds_users_def by metis
  from users_call [OF assms(2) this] obtain v where
    "get_by_id r uid w = (Inr (Some actor), breaker_succeeds ''mysql'' v)" "later w v"
    unfolding get_by_id_def read_users_def guarded_read_def by blast
  with assms(3,4) show ?thesis
    by (auto simp: get_current_user_def bind_cmd_def later_def)
qed

text \<open>The row a write leaves, as the table has it from then on.\<close>

abbreviation written :: "datetime \<Rightarrow> int \<Rightarrow> datetime \<Rightarrow> article_in \<Rightarrow> article \<Rightarrow> article" where
  "written stamp i e payload a \<equiv> update_row stamp (update_query i e (in_title payload) (in_body payload)) a"

lemma update_route_run:
  assumes env: "environment (base_service b) db kv sv clock"
    and tr: "transaction (sess_commit b) (sess_rollback b) db kv sv"
    and st: "steady settings b db kv windows w" and uu: "users_up (user_repo b) w"
    and us: "finds_users (users_session (user_repo b)) people"
    and who: "state_principal w = Some p" "py_int (principal_id p) = Some uid"
      "find (\<lambda>u. user_id u = uid) (people (web.more w)) = Some actor"
    and input: "validate_article (bad_input b) t bd = Inr payload"
      "parse_if_match (svc_codec (base_service b)) if_match = Inr e"
    and verdict: "write_verdict (db (request.more w)) actor i e = Inr a"
    and c: "\<forall>who. counters_ok (kv (request.more w)) who"
  shows "\<exists>stamp z. update_route settings b i t bd if_match w
      = (Inr (json_response 200 (article_json b (article_out_of (written stamp i e payload a)))), z)
    \<and> db (request.more z) = update_effect stamp (update_query i e (in_title payload) (in_body payload))
        (db (request.more w))
    \<and> sv (request.more z) = db (request.more z) \<and> steady settings b db kv windows z"
proof -
  let ?s = "service settings b" and ?w = "opened settings w"
  let ?q = "update_query i e (in_title payload) (in_body payload)"
  have up: "up ?s ?w" using st by (intro opened_up) (simp_all add: steady_def service_serving)
  have e: "environment ?s db kv sv clock" using env by (simp add: service_environment)
  have w': "users_up (user_repo b) ?w" "state_principal ?w = Some p" "web.more ?w = web.more w"
    using uu who(1) by (simp_all add: users_up_def opened_def)
  obtain tm where u: "get_current_user (user_repo b) ?w
      = (Inr actor, breaker_succeeds ''mysql'' (?w\<lparr>now := tm\<rparr>))"
    using get_current_user_ok [OF us w'(1,2) who(2)] who(3) w'(3) by auto
  let ?w1 = "breaker_succeeds ''mysql'' (?w\<lparr>now := tm\<rparr>)"
  have w1: "request.more ?w1 = request.more w" "session_info ?w1 = None" "cache ?w1 = cache ?w"
    "\<And>d. d \<noteq> ''mysql'' \<Longrightarrow> breakers ?w1 d = breakers ?w d"
    using up by (simp_all add: breaker_succeeds_def update_breaker_def)
  have my: "mysql_up ?s ?w1" and my0: "mysql_up ?s ?w"
  proof -
    show "mysql_up ?s ?w" using up by (simp add: up_def)
    then show "mysql_up ?s ?w1"
      unfolding mysql_up_def by (elim exE conjE) (simp add: verdict_breakers record_success_def)
  qed
  have ids: "distinct (map art_id (db (request.more ?w1)))" using st by (simp add: steady_def w1(1))
  from update_run [OF environmentD(1) [OF e] my ids, where actor = actor and i = i and e = e
      and t = "in_title payload" and b = "in_body payload"] verdict
  obtain stamp v where v:
    "update ?s actor i (in_title payload) (in_body payload) e ?w1
      = (Inr (article_out_of (update_row stamp ?q a)), v)"
    "db (request.more v) = update_effect stamp ?q (db (request.more w))"
    "pending_after_commit v = [\<lparr>inv_article = Some i, inv_author = author_id a\<rparr>]"
    "settled ?s (\<lambda>m. (kv m, sv m)) ?w1 v"
    by (auto simp: w1 queued_def pending_after_commit_def)
  let ?h = "bind_cmd (get_current_user (user_repo b)) (\<lambda>actor.
        bind_cmd (lift (validate_article (bad_input b) t bd)) (\<lambda>payload.
        bind_cmd (lift (parse_if_match (svc_codec (base_service b)) if_match)) (\<lambda>expected.
        bind_cmd (update ?s actor i (in_title payload) (in_body payload) expected) (\<lambda>dto.
        return_cmd (json_response 200 (article_json b dto))))))"
  let ?resp = "json_response 200 (article_json b (article_out_of (update_row stamp ?q a)))"
  have run: "?h ?w = (Inr ?resp, v)"
    using u v(1) by (simp add: bind_cmd_def lift_def input)
  let ?fresh = "w\<lparr>cache := new_article_cache (settings.cache_enabled settings)\<rparr>"
  have begun: "?fresh\<lparr>session_info := None\<rparr> = ?w" by (simp add: opened_def)
  have "settled ?s (\<lambda>m. (kv m, sv m)) ?w v"
    using v(4) w1 by (simp add: settled_def)
  moreover have live: "live_row (db (request.more w)) i = Some a"
    using verdict by (auto simp: write_verdict_def split: option.splits if_splits)
  moreover have "touches (db (request.more w)) (db (request.more v)) (author_id a) (Some i)"
    unfolding v(2) by (rule touches_update [OF _ live]) (use st in \<open>simp_all add: steady_def update_query_def\<close>)
  moreover have "up ?s ?fresh" using up by (simp add: up_def mysql_up_def redis_up_def usable_def opened_def)
  moreover have "coherent ?s windows (db (request.more ?fresh)) (kv (request.more ?fresh))"
    using st by (simp add: steady_def service_coherent)
  ultimately obtain z where z: "in_request settings b ?h w = (Inr ?resp, z)"
    "db (request.more z) = db (request.more v)" "sv (request.more z) = db (request.more v)" "up ?s z"
    "coherent ?s windows (db (request.more z)) (kv (request.more z))"
    using write_request [where w = ?fresh and handler = ?h and art = "Some i", OF e tr _ _ _ _ v(3)]
      run c unfolding begun in_request_def by force
  have "distinct (map art_id (db (request.more z)))"
    using st by (simp add: z(2) v(2) steady_def)
  then have "steady settings b db kv windows z"
    using st z(4,5) up_serving [OF z(4)] by (simp add: steady_def service_coherent service_serving)
  moreover have "update_route settings b i t bd if_match w = (Inr ?resp, z)"
    using z(1) by (simp add: update_route_def)
  ultimately show ?thesis using z(2,3) v(2) by auto
qed

lemma get_route_run:
  assumes env: "environment (base_service b) db kv sv clock"
    and tr: "transaction (sess_commit b) (sess_rollback b) db kv sv"
    and st: "steady settings b db kv windows w"
    and live: "live_row (db (request.more w)) i = Some a"
  shows "\<exists>z. get_route settings b i w = (Inr (json_response 200 (article_json b (article_out_of a))), z)
    \<and> steady settings b db kv windows z \<and> db (request.more z) = db (request.more w)"
proof -
  let ?s = "service settings b" and ?w = "opened settings w"
  from st have up: "up ?s ?w" by (intro opened_up) (simp_all add: steady_def service_serving)
  have e: "environment ?s db kv sv clock" using env by (simp add: service_environment)
  have coh: "coherent ?s windows (db (request.more ?w)) (kv (request.more ?w))"
    "distinct (map art_id (db (request.more ?w)))"
    using st by (simp_all add: steady_def service_coherent)
  have c: "coherent_articles ?s (db (request.more ?w)) (kv (request.more ?w))"
    "unlocked (kv (request.more ?w))" using coh(1) by (simp_all add: coherent_def)
  from get_article_run [OF e up coh(2) c, of i] live obtain v where
    v: "get_article ?s i ?w = (Inr (article_out_of a), v)" "read_step ?s db sv ?w v"
      "kv (request.more v) = kv (request.more w) \<or> kv (request.more v) = (kv (request.more w))
         (article_key i \<mapsto> dump_article_json (svc_codec ?s) (article_out_of a))" by auto
  have coh': "coherent ?s windows (db (request.more w)) (kv (request.more v))"
    using v(3) coh coherent_put_article [OF coh(1) _ environmentD(3) [OF e]] live by auto
  let ?h = "bind_cmd (get_article ?s i) (\<lambda>dto. return_cmd (json_response 200 (article_json b dto)))"
  have "?h ?w = (Inr (json_response 200 (article_json b (article_out_of a))), v)"
    using v(1) by (simp add: bind_cmd_def)
  then have "get_route settings b i w = (Inr (json_response 200 (article_json b (article_out_of a))),
      discard_after_commit v1)" if "sess_commit b v = (Inr (), v1)" "session_info v1 = None" for v1
    using in_request_quiet [where handler = ?h, OF _ that] by (simp add: get_route_def)
  with in_request_read [OF tr v(2)] coh' st show ?thesis
    by (fastforce simp: steady_def service_coherent)
qed

text \<open>C1. A writer reads its own write. A \<open>PUT\<close> that its author or an admin sends with the current version
  answers 200 with the new article; the table then holds exactly that change, and the \<open>GET\<close> that
  follows, from anyone and whatever was cached before, answers the very response the writer got.\<close>

theorem read_your_write:
  assumes "environment (base_service b) db kv sv clock"
    and "transaction (sess_commit b) (sess_rollback b) db kv sv"
    and "steady settings b db kv windows w" and "users_up (user_repo b) w"
    and "finds_users (users_session (user_repo b)) people"
    and "state_principal w = Some p" and "py_int (principal_id p) = Some uid"
    and "find (\<lambda>u. user_id u = uid) (people (web.more w)) = Some actor"
    and "validate_article (bad_input b) t bd = Inr payload"
    and "parse_if_match (svc_codec (base_service b)) if_match = Inr e"
    and "write_verdict (db (request.more w)) actor i e = Inr a"
    and "\<forall>who. counters_ok (kv (request.more w)) who"
  shows "\<exists>stamp z. update_route settings b i t bd if_match w
        = (Inr (json_response 200 (article_json b (article_out_of (written stamp i e payload a)))), z)
    \<and> db (request.more z) = update_effect stamp (update_query i e (in_title payload) (in_body payload))
        (db (request.more w))
    \<and> fst (get_route settings b i z) = fst (update_route settings b i t bd if_match w)"
proof -
  from update_route_run [OF assms] obtain stamp z where
    z: "update_route settings b i t bd if_match w
        = (Inr (json_response 200 (article_json b (article_out_of (written stamp i e payload a)))), z)"
      "db (request.more z) = update_effect stamp (update_query i e (in_title payload) (in_body payload))
        (db (request.more w))" "steady settings b db kv windows z" by blast
  have "live_row (db (request.more w)) i = Some a"
    using assms(11) by (auto simp: write_verdict_def split: option.splits if_splits)
  then have "live_row (db (request.more z)) i = Some (written stamp i e payload a)"
    by (simp add: z(2) live_row_update [OF update_query_keeps_live])
  from get_route_run [OF assms(1,2) z(3) this] z show ?thesis by auto
qed

end
