(* ===== verification/WebScenarios.thy ===== *)
theory WebScenarios
  imports EndToEnd Scenarios
begin

text \<open>
  The reference environment of the service, put under the HTTP layer: its database and its Redis run on
  the part of the state they own, whatever the web layer keeps around it. On it the end-to-end theorems
  are applied to concrete requests.
\<close>

subsection \<open>An environment for the service serves the web state\<close>

definition inner :: "'m web_ext \<Rightarrow> 'm" where
  "inner m = web.more (\<lparr>now = 0, breakers = Map.empty, metrics = [], session_info = None,
     cache = new_article_cache True, \<dots> = m\<rparr> :: (invalidation, 'm) web_scheme)"

lemma inner_more [simp]:
  fixes w :: "(invalidation, 'm) web_scheme"
  shows "inner (request.more w) = web.more w"
  by (cases w) (simp add: inner_def)

definition as_world :: "(invalidation, 'm) web_scheme \<Rightarrow> 'm world" where
  "as_world w = \<lparr>now = now w, breakers = breakers w, metrics = metrics w,
     session_info = session_info w, cache = cache w, \<dots> = web.more w\<rparr>"

definition back_in :: "(invalidation, 'm) web_scheme \<Rightarrow> 'm world \<Rightarrow> (invalidation, 'm) web_scheme" where
  "back_in w v = w\<lparr>now := now v, breakers := breakers v, metrics := metrics v,
     session_info := session_info v, cache := cache v, web.more := request.more v\<rparr>"

lemma as_world_simps [simp]:
  "request.more (as_world w) = web.more w" "breakers (as_world w) = breakers w"
  "session_info (as_world w) = session_info w" "cache (as_world w) = cache w" "now (as_world w) = now w"
  "web.more (back_in w v) = request.more v" "breakers (back_in w v) = breakers v"
  "session_info (back_in w v) = session_info v" "cache (back_in w v) = cache v"
  "inner (request.more (back_in w v)) = request.more v"
  by (simp_all add: as_world_def back_in_def)

definition inside :: "('m world \<Rightarrow> 'r \<times> 'm world) \<Rightarrow> (invalidation, 'm) web_scheme
    \<Rightarrow> 'r \<times> (invalidation, 'm) web_scheme" where
  "inside f w = (case f (as_world w) of (r, v) \<Rightarrow> (r, back_in w v))"

lemma inside_only_data:
  "f (as_world w) = (r, v) \<Longrightarrow> only_data rest (as_world w) v \<Longrightarrow>
   inside f w = (r, back_in w v) \<and> only_data (\<lambda>m. rest (inner m)) w (back_in w v)"
  by (auto simp: inside_def only_data_def kept_def)

definition web_sql :: "'m world sql_session \<Rightarrow> (invalidation, 'm) web_scheme sql_session" where
  "web_sql sess =
     \<lparr>execute_select = (\<lambda>q dl. inside (execute_select sess q dl)),
      execute_rows = (\<lambda>q dl. inside (execute_rows sess q dl)),
      execute_update = (\<lambda>q dl. inside (execute_update sess q dl)),
      flush_article = (\<lambda>who t b dl. inside (flush_article sess who t b dl)),
      refresh_article = (\<lambda>i dl. inside (refresh_article sess i dl)),
      session_rollback = (\<lambda>dl. inside (session_rollback sess dl)),
      utcnow = (\<lambda>w. utcnow sess (as_world w))\<rparr>"

definition web_redis :: "'m world redis_client \<Rightarrow> (invalidation, 'm) web_scheme redis_client" where
  "web_redis r =
     \<lparr>redis_get = (\<lambda>k. inside (redis_get r k)), redis_mget = (\<lambda>ks. inside (redis_mget r ks)),
      redis_set = (\<lambda>k v ex nx. inside (redis_set r k v ex nx)),
      redis_delete = (\<lambda>k. inside (redis_delete r k)), redis_incr = (\<lambda>k. inside (redis_incr r k))\<rparr>"

lemma inside_ex:
  assumes "\<exists>v. f (as_world w) = (r, v) \<and> only_data rest (as_world w) v \<and> P (request.more v)"
  shows "\<exists>z. inside f w = (r, z) \<and> only_data (\<lambda>m. rest (inner m)) w z \<and> P (web.more z)"
proof -
  from assms obtain v where v: "f (as_world w) = (r, v)" "only_data rest (as_world w) v"
    "P (request.more v)" by blast
  with inside_only_data [where f = f and w = w and rest = rest, OF v(1,2)] show ?thesis by (intro exI [of _ "back_in w v"]) simp
qed

lemma web_stores:
  assumes "stores r kv rest"
  shows "stores (web_redis r) (\<lambda>m. kv (inner m)) (\<lambda>m. rest (inner m))"
  unfolding stores_def web_redis_def redis_client.simps inner_more
proof (intro conjI allI)
  fix k and w :: "(invalidation, 'a) web_scheme"
  note sd = storesD [OF assms, where w = "as_world w", unfolded as_world_simps]
  show "\<exists>w'. inside (redis_get r k) w = (Inr (kv (web.more w) k), w')
      \<and> only_data (\<lambda>m. rest (inner m)) w w' \<and> kv (web.more w') = kv (web.more w)"
    by (rule inside_ex) (rule sd(1))
  show "\<exists>w'. inside (redis_incr r k) w = (Inr (as_int (kv (web.more w) k) + 1), w')
      \<and> only_data (\<lambda>m. rest (inner m)) w w'
      \<and> kv (web.more w') = (kv (web.more w))(k \<mapsto> str_int (as_int (kv (web.more w) k) + 1))"
    by (rule inside_ex) (rule sd(5))
  obtain n where "\<exists>u. redis_delete r k (as_world w) = (Inr n, u) \<and> only_data rest (as_world w) u
      \<and> kv (request.more u) = (kv (web.more w))(k := None)" using sd(4) by blast
  from inside_ex [where f = "redis_delete r k" and w = w and rest = rest and P = "\<lambda>m. kv m = (kv (web.more w))(k := None)", OF this]
  show "\<exists>n w'. inside (redis_delete r k) w = (Inr n, w')
      \<and> only_data (\<lambda>m. rest (inner m)) w w' \<and> kv (web.more w') = (kv (web.more w))(k := None)"
    by blast
next
  fix ks and w :: "(invalidation, 'a) web_scheme"
  show "\<exists>w'. inside (redis_mget r ks) w = (Inr (map (kv (web.more w)) ks), w')
      \<and> only_data (\<lambda>m. rest (inner m)) w w' \<and> kv (web.more w') = kv (web.more w)"
    by (rule inside_ex) (rule storesD(2) [OF assms, of ks "as_world w", unfolded as_world_simps])
next
  fix k v ex nx and w :: "(invalidation, 'a) web_scheme"
  show "\<exists>w'. inside (redis_set r k v ex nx) w = (Inr (\<not> nx \<or> kv (web.more w) k = None), w')
      \<and> only_data (\<lambda>m. rest (inner m)) w w'
      \<and> kv (web.more w') = (if nx \<and> kv (web.more w) k \<noteq> None then kv (web.more w)
           else (kv (web.more w))(k \<mapsto> v))"
    by (rule inside_ex) (rule storesD(3) [OF assms, of k v ex nx "as_world w", unfolded as_world_simps])
qed

lemma web_serves:
  assumes "serves sess db clock rest"
  shows "serves (web_sql sess) (\<lambda>m. db (inner m)) (\<lambda>m. clock (inner m)) (\<lambda>m. rest (inner m))"
  unfolding serves_def web_sql_def sql_session.simps inner_more
proof (intro conjI allI impI)
  fix q dl and w :: "(invalidation, 'a) web_scheme"
  obtain rows where "\<exists>u. execute_select sess q dl (as_world w) = (Done (Inr rows), u)
      \<and> only_data rest (as_world w) u \<and> db (request.more u) = db (web.more w)"
    and a: "select_answer q (db (web.more w)) rows"
    using servesD(1) [OF assms, of q dl "as_world w"] unfolding as_world_simps by blast
  from inside_ex [where f = "execute_select sess q dl" and w = w and rest = rest and P = "\<lambda>m. db m = db (web.more w)", OF this(1)] a
  show "\<exists>rows w'. inside (execute_select sess q dl) w = (Done (Inr rows), w')
      \<and> select_answer q (db (web.more w)) rows
      \<and> only_data (\<lambda>m. rest (inner m)) w w' \<and> db (web.more w') = db (web.more w)" by blast
next
  fix q dl and w :: "(invalidation, 'a) web_scheme"
  obtain rows where "\<exists>u. execute_rows sess q dl (as_world w) = (Done (Inr (map summary_row rows)), u)
      \<and> only_data rest (as_world w) u \<and> db (request.more u) = db (web.more w)"
    and a: "select_answer q (db (web.more w)) rows"
    using servesD(2) [OF assms, of q dl "as_world w"] unfolding as_world_simps by blast
  from inside_ex [where f = "execute_rows sess q dl" and w = w and rest = rest and P = "\<lambda>m. db m = db (web.more w)", OF this(1)] a
  show "\<exists>rows w'. inside (execute_rows sess q dl) w = (Done (Inr (map summary_row rows)), w')
      \<and> select_answer q (db (web.more w)) rows
      \<and> only_data (\<lambda>m. rest (inner m)) w w' \<and> db (web.more w') = db (web.more w)" by blast
next
  fix u dl and w :: "(invalidation, 'a) web_scheme"
  show "\<exists>w'. inside (execute_update sess u dl) w = (Done (Inr (update_count u (db (web.more w)))), w')
      \<and> only_data (\<lambda>m. rest (inner m)) w w'
      \<and> db (web.more w') = update_effect (clock (web.more w)) u (db (web.more w))"
    by (rule inside_ex) (rule servesD(3) [OF assms, of u dl "as_world w", unfolded as_world_simps])
next
  fix who t b dl and w :: "(invalidation, 'a) web_scheme"
  let ?new = "\<lambda>a m. db m = db (web.more w) @ [a] \<and> art_id a \<notin> art_id ` set (db (web.more w))
    \<and> author_id a = who \<and> title a = t \<and> body a = b \<and> deleted_at a = None"
  obtain a where "\<exists>u. flush_article sess who t b dl (as_world w) = (Done (Inr (art_id a)), u)
      \<and> only_data rest (as_world w) u \<and> ?new a (request.more u)"
    using servesD(4) [OF assms, of who t b dl "as_world w"] unfolding as_world_simps by blast
  from inside_ex [where f = "flush_article sess who t b dl" and w = w and rest = rest and P = "?new a", OF this]
  show "\<exists>a w'. inside (flush_article sess who t b dl) w = (Done (Inr (art_id a)), w')
      \<and> only_data (\<lambda>m. rest (inner m)) w w' \<and> db (web.more w') = db (web.more w) @ [a]
      \<and> art_id a \<notin> art_id ` set (db (web.more w))
      \<and> author_id a = who \<and> title a = t \<and> body a = b \<and> deleted_at a = None" by blast
next
  fix a dl and w :: "(invalidation, 'a) web_scheme"
  assume "a \<in> set (db (web.more w)) \<and> distinct (map art_id (db (web.more w)))"
  with servesD(5) [OF assms, of a "as_world w" dl]
  have "\<exists>v. refresh_article sess (art_id a) dl (as_world w) = (Done (Inr a), v)
      \<and> only_data rest (as_world w) v \<and> db (request.more v) = db (web.more w)"
    unfolding as_world_simps by blast
  from inside_ex [where f = "refresh_article sess (art_id a) dl" and w = w and rest = rest and P = "\<lambda>m. db m = db (web.more w)", OF this]
  show "\<exists>w'. inside (refresh_article sess (art_id a) dl) w = (Done (Inr a), w')
      \<and> only_data (\<lambda>m. rest (inner m)) w w' \<and> db (web.more w') = db (web.more w)" .
qed

lemma web_transaction:
  assumes "transaction commit rollback db kv sv"
  shows "transaction (inside commit) (inside rollback)
    (\<lambda>m. db (inner m)) (\<lambda>m. kv (inner m)) (\<lambda>m. sv (inner m))"
  unfolding transaction_def inner_more
proof (intro conjI allI)
  fix w :: "(invalidation, 'a) web_scheme"
  have "\<exists>v. commit (as_world w) = (Inr (), v) \<and> only_data kv (as_world w) v
      \<and> db (request.more v) = db (web.more w) \<and> sv (request.more v) = db (web.more w)"
    using assms unfolding transaction_def by (metis as_world_simps(1))
  from inside_ex [where f = "commit" and w = w and rest = kv and P = "\<lambda>m. db m = db (web.more w) \<and> sv m = db (web.more w)", OF this]
  show "\<exists>w'. inside commit w = (Inr (), w') \<and> only_data (\<lambda>m. kv (inner m)) w w'
      \<and> db (web.more w') = db (web.more w) \<and> sv (web.more w') = db (web.more w)" .
  have "\<exists>v. rollback (as_world w) = (Inr (), v) \<and> only_data kv (as_world w) v
      \<and> db (request.more v) = sv (web.more w) \<and> sv (request.more v) = sv (web.more w)"
    using assms unfolding transaction_def by (metis as_world_simps(1))
  from inside_ex [where f = "rollback" and w = w and rest = kv and P = "\<lambda>m. db m = sv (web.more w) \<and> sv m = sv (web.more w)", OF this]
  show "\<exists>w'. inside rollback w = (Inr (), w') \<and> only_data (\<lambda>m. kv (inner m)) w w'
      \<and> db (web.more w') = sv (web.more w) \<and> sv (web.more w') = sv (web.more w)" .
qed

subsection \<open>Requests\<close>

definition web_service :: "(invalidation, store) web_scheme article_service" where
  "web_service =
     \<lparr>articles = \<lparr>repo_session = web_sql memory_sql, repo_policies = svc_policies demo_service,
                  repo_waits = (\<lambda>k. 0)\<rparr>,
      svc_redis = web_redis memory_kv, has_session = True, article_ttl = 300, list_ttl = 60,
      ttl_jitter = 1 / 5, lock_timeout = 2, svc_codec = demo_codec, sha256_hex = (\<lambda>s. s),
      random_draw = (\<lambda>w. 1 / 2), others_run = (\<lambda>w. w)\<rparr>"

definition web_users :: "(invalidation, store) web_scheme user_repository" where
  "web_users =
     \<lparr>users_session =
        \<lparr>session_get_user = (\<lambda>i dl w. (Done (Inr (find (\<lambda>u. user_id u = i) [demo_user 7 ''user''])), w)),
         select_user_by_email = (\<lambda>e dl w. (Done (Inr []), w)),
         select_role_by_name = (\<lambda>n dl w. (Done (Inr []), w)),
         flush_user = (\<lambda>e h r dl w. (Done (Inl (IntegrityError ''read only'')), w)),
         users_rollback = (\<lambda>dl w. (Done (Inr ()), w))\<rparr>,
      users_policies = svc_policies demo_service, users_waits = (\<lambda>k. 0)\<rparr>"

definition web_backend :: "(invalidation, store) web_scheme backend" where
  "web_backend =
     \<lparr>base_service = web_service, user_repo = web_users, sess_commit = inside demo_commit,
      sess_rollback = inside demo_rollback_cmd, article_json = (\<lambda>a. JStr (out_body a)),
      bad_input = JNull\<rparr>"

definition web_world :: "(invalidation, store) web_scheme" where
  "web_world =
     \<lparr>now = 0, breakers = breakers demo_world, metrics = [], session_info = None,
      cache = new_article_cache True, state_request_id = None,
      state_principal = Some \<lparr>principal_id = ''7'', principal_role = JStr ''user''\<rparr>,
      scope_route = None, context_vars = [], inflight = 0, log_lines = [], active_span = None,
      spans = [], dummy_hash_cache = None, \<dots> = request.more demo_world\<rparr>"

abbreviation web_table :: "store web_ext \<Rightarrow> article list" where
  "web_table m \<equiv> table_view (inner m)"

abbreviation web_keys :: "store web_ext \<Rightarrow> string \<Rightarrow> string option" where
  "web_keys m \<equiv> kv_entries (inner m)"

lemma web_environment:
  "environment (base_service web_backend) web_table web_keys (\<lambda>m. table_saved (inner m))
     (\<lambda>m. server_time (inner m))"
  using web_serves [OF memory_serves] web_stores [OF memory_stores] demo_codec_ok
  by (simp add: environment_def web_backend_def web_service_def)

lemma web_transaction_ok:
  "transaction (sess_commit web_backend) (sess_rollback web_backend) web_table web_keys
     (\<lambda>m. table_saved (inner m))"
  using web_transaction [OF demo_transaction] by (simp add: web_backend_def)

lemma web_world_more: "web.more web_world = request.more demo_world"
  by (simp add: web_world_def)

lemma web_steady: "steady default_settings web_backend web_table web_keys windows web_world"
  using demo_up(1,2)
  by (simp add: steady_def serving_def mysql_up_def redis_up_def web_backend_def web_service_def
      web_world_more demo_more coherent_def coherent_articles_def coherent_pages_def unlocked_def
      demo_distinct [unfolded demo_more])
    (simp add: default_settings_def web_world_def)

definition web_windows :: "(int \<times> position option) set" where
  "web_windows =
     {(1, None), (1, Some (100, 1)), (1, Some (100, 2)), (1, Some (150, 3)), (1, Some (200, 4))}"

lemma web_collision_free: "collision_free (sha256_hex (base_service web_backend)) web_windows"
  by (simp add: collision_free_def web_windows_def web_backend_def web_service_def filter_hash_def
      filter_material_def FILTER_HASH_LENGTH_def str_int_def dec_nat.simps digit_char_def)

theorem browsing_complete_witness:
  "fst (browse default_settings web_backend 1 None 4 None web_world)
   = Inr (map (\<lambda>a. dump_summary demo_codec (summary_out_of (summary_row a)))
       [demo_article 4 7 200, demo_article 2 8 100, demo_article 1 7 100])"
proof -
  have c: "svc_codec (base_service web_backend) = demo_codec"
    by (simp add: web_backend_def web_service_def)
  have t: "web_table (request.more web_world) = demo_table" by (simp add: web_world_more demo_more)
  show ?thesis
    unfolding c [symmetric]
  proof (rule browsing_complete [OF web_environment web_transaction_ok web_collision_free _ _ _ _ _
        web_steady, unfolded t])
    show "\<forall>a \<in> set demo_table. representable (key_of a) \<and> (1, Some (key_of a)) \<in> web_windows"
      by (simp add: demo_table_def demo_article_def representable_def key_of_def web_windows_def
          datetime_max_def)
    show "mset [demo_article 4 7 200, demo_article 2 8 100, demo_article 1 7 100]
        = mset (filter (listed None) demo_table)"
      by (simp add: demo_table_def listed_def demo_article_def)
  qed (simp_all add: MAX_PAGE_SIZE_def web_windows_def newer_def demo_article_def)
qed

lemma demo_version_text:
  "parse_if_match demo_codec (Some (isoformat demo_codec 200)) = Inr 200"
proof -
  have "is_ascii_digit x" if "x \<in> set (isoformat demo_codec 200)" for x
    using that dec_nat_digits by (auto simp: demo_codec_def number_text_def)
  moreover have "is_ascii_digit x \<Longrightarrow> x \<noteq> CHR 0x22 \<and> \<not> is_space x" for x
    by (auto simp: is_ascii_digit_def is_space_def)
  ultimately have "\<forall>x \<in> set (isoformat demo_codec 200). x \<noteq> CHR 0x22 \<and> \<not> is_space x" by blast
  moreover have "isoformat demo_codec 200 \<noteq> []" by (simp add: demo_codec_def number_text_def)
  moreover have "fromisoformat demo_codec (isoformat demo_codec 200) = Some 200"
    by (simp add: demo_codec_def)
  ultimately show ?thesis using if_match_roundtrip [of demo_codec 200] by blast
qed

theorem read_your_write_witness:
  "\<exists>stamp z. update_route default_settings web_backend 4 ''new'' ''text'' (Some (isoformat demo_codec 200)) web_world
      = (Inr (json_response 200 (article_json web_backend (article_out_of
          (written stamp 4 200 \<lparr>in_title = ''new'', in_body = ''text''\<rparr> (demo_article 4 7 200))))), z)
    \<and> fst (get_route default_settings web_backend 4 z)
      = fst (update_route default_settings web_backend 4 ''new'' ''text'' (Some (isoformat demo_codec 200)) web_world)"
proof -
  have c: "svc_codec (base_service web_backend) = demo_codec"
    by (simp add: web_backend_def web_service_def)
  have up: "users_up (user_repo web_backend) web_world"
    using demo_up(1) by (simp add: users_up_def mysql_up_def web_backend_def web_users_def web_world_def)
  have finds: "finds_users (users_session (user_repo web_backend)) (\<lambda>_. [demo_user 7 ''user''])"
  proof -
    have "later w w" for w :: "(invalidation, store) web_scheme"
      unfolding later_def by (rule exI [of _ "now w"]) simp
    then show ?thesis by (simp add: finds_users_def web_backend_def web_users_def)
  qed
  have who: "state_principal web_world = Some \<lparr>principal_id = ''7'', principal_role = JStr ''user''\<rparr>"
    by (simp add: web_world_def)
  have uid: "py_int ''7'' = Some 7" by code_simp
  have input: "validate_article (bad_input web_backend) ''new'' ''text''
      = Inr \<lparr>in_title = ''new'', in_body = ''text''\<rparr>"
    by (simp add: validate_article_def MAX_TITLE_LENGTH_def MAX_BODY_LENGTH_def)
  have verdict: "write_verdict (web_table (request.more web_world)) (demo_user 7 ''user'') 4 200
      = Inr (demo_article 4 7 200)"
    using demo_verdict by (simp add: web_world_more demo_more)
  have counters: "\<forall>who. counters_ok (web_keys (request.more web_world)) who"
    using demo_counters by (simp add: web_world_more)
  from read_your_write [OF web_environment web_transaction_ok web_steady up finds who _ _ input
      demo_version_text [folded c] verdict counters] uid
  show ?thesis by (auto simp: demo_user_def c)
qed

end
