(* ===== verification/DegradedWeb.thy ===== *)
theory DegradedWeb
  imports Degraded WebScenarios
begin

text \<open>
  Reading while Redis fails, seen from the client: whole HTTP requests, each with its session, its cache
  instance and its commit, over the reads of \<open>Degraded\<close>.
\<close>

lemma service_sound: "sound (service settings b) = sound (base_service b)"
  by (simp add: sound_def trusted_def coherent_articles_def coherent_pages_def mysql_up_def fun_eq_iff)

lemma service_half_up: "half_up (service settings b) = half_up (base_service b)"
  by (simp add: half_up_def fun_eq_iff)

lemma service_others_read: "others_read (service settings b) = others_read (base_service b)"
proof -
  have "others_run (service settings b) = others_run (base_service b)"
    by (simp add: get_article_service_def)
  then show ?thesis by (simp add: others_read_def weathered_def service_sound fun_eq_iff)
qed

lemma sound_opened:
  "sound s db kv windows table w \<Longrightarrow> sound s db kv windows table (opened settings w)"
  by (auto simp: sound_def opened_def mysql_up_def breaker_known_def new_article_cache_def)

text \<open>The commit of a request that only read.\<close>

lemma commit_weathered:
  assumes tr: "transaction (sess_commit b) (sess_rollback b) db kv sv"
    and st: "weathered (service settings b) db kv sv windows table (opened settings w) v"
  shows "\<exists>v1. sess_commit b v = (Inr (), v1) \<and> session_info v1 = None
    \<and> sound (base_service b) db kv windows table (discard_after_commit v1)"
proof -
  from tr obtain v1 where v1: "sess_commit b v = (Inr (), v1)" "only_data kv v v1"
    "db (request.more v1) = db (request.more v)" unfolding transaction_def by blast
  from st have "sound (base_service b) db kv windows table v" "session_info v = None"
    by (simp_all add: weathered_def service_sound)
  with v1 show ?thesis
    by (auto simp: sound_def mysql_up_def breaker_known_def only_data_def kept_def discard_after_commit_def)
qed

lemma list_route_weathered:
  assumes env: "half_up (base_service b) db kv sv clock"
    and calm: "others_read (base_service b) db kv sv windows table"
    and tr: "transaction (sess_commit b) (sess_rollback b) db kv sv"
    and ids: "distinct (map art_id table)" and snd: "sound (base_service b) db kv windows table w"
    and cf: "collision_free (sha256_hex (base_service b)) windows" and win: "(limit, after) \<in> windows"
    and args: "1 \<le> limit" "limit \<le> MAX_PAGE_SIZE" "\<forall>a. author = Some a \<longrightarrow> 1 \<le> a"
      "\<forall>p. after = Some p \<longrightarrow> representable p"
  shows "\<exists>z. list_route settings b (Some limit) (cursor_of after) author w
      = (Inr (json_response 200 (page_json (svc_codec (base_service b))
           (spec_page table limit after author))), z)
    \<and> sound (base_service b) db kv windows table z"
proof -
  let ?s = "service settings b"
  have "sound ?s db kv windows table (opened settings w)"
    using sound_opened [OF snd] by (simp add: service_sound)
  from list_articles_weathered [OF env [folded service_half_up [of settings b]]
      calm [folded service_others_read [of settings b]] ids this _ win, of author] cf
  obtain v where v: "list_articles ?s limit after author (opened settings w)
      = (Inr (spec_page table limit after author), v)"
    "weathered ?s db kv sv windows table (opened settings w) v" by auto
  from commit_weathered [OF tr v(2)] list_route_page [OF v(1) _ _ args] show ?thesis by blast
qed


subsection \<open>Witness\<close>

lemma inside_tried:
  fixes w :: "(invalidation, 'm) web_scheme"
  assumes "\<exists>x w'. f (as_world w) = (x, w') \<and> Q x (request.more w') \<and> only_data rest (as_world w) w'
    \<and> R (request.more w')"
  shows "\<exists>x w'. inside f w = (x, w') \<and> Q x (web.more w') \<and> only_data (\<lambda>m. rest (inner m)) w w'
    \<and> R (web.more w')"
proof -
  from assms obtain x v where v: "f (as_world w) = (x, v)" "Q x (request.more v)"
    "only_data rest (as_world w) v" "R (request.more v)" by blast
  with inside_only_data [where f = f and w = w and rest = rest, OF v(1,3)]
  show ?thesis by (intro exI [of _ x] exI [of _ "back_in w v"]) simp
qed

lemma web_unreliable:
  assumes "unreliable r kv rest"
  shows "unreliable (web_redis r) (\<lambda>m. kv (inner m)) (\<lambda>m. rest (inner m))"
proof -
  show ?thesis
    unfolding unreliable_def web_redis_def redis_client.simps inner_more
  proof (intro conjI allI)
    fix k and w :: "(invalidation, 'a) web_scheme"
    note u = unreliableD [OF assms, where w = "as_world w", unfolded as_world_simps]
    show "\<exists>x w'. inside (redis_get r k) w = (x, w') \<and> outcome x (\<lambda>x. x = kv (web.more w) k)
        \<and> only_data (\<lambda>m. rest (inner m)) w w' \<and> kv (web.more w') = kv (web.more w)"
      by (rule inside_tried [where f = "redis_get r k"]) (rule u(1))
    show "\<exists>x w'. inside (redis_delete r k) w = (x, w')
        \<and> outcome x (\<lambda>_. kv (web.more w') = (kv (web.more w))(k := None))
        \<and> only_data (\<lambda>m. rest (inner m)) w w'
        \<and> (kv (web.more w') = kv (web.more w) \<or> kv (web.more w') = (kv (web.more w))(k := None))"
      by (rule inside_tried [where f = "redis_delete r k"]) (rule u(4))
  next
    fix ks and w :: "(invalidation, 'a) web_scheme"
    show "\<exists>x w'. inside (redis_mget r ks) w = (x, w') \<and> outcome x (\<lambda>xs. xs = map (kv (web.more w)) ks)
        \<and> only_data (\<lambda>m. rest (inner m)) w w' \<and> kv (web.more w') = kv (web.more w)"
      by (rule inside_tried [where f = "redis_mget r ks"])
        (rule unreliableD(2) [OF assms, of ks "as_world w", unfolded as_world_simps])
  next
    fix k v ex nx and w :: "(invalidation, 'a) web_scheme"
    show "\<exists>x w'. inside (redis_set r k v ex nx) w = (x, w')
        \<and> outcome x (\<lambda>ok. ok = (\<not> nx \<or> kv (web.more w) k = None)
            \<and> (ok \<longrightarrow> kv (web.more w') = (kv (web.more w))(k \<mapsto> v)))
        \<and> only_data (\<lambda>m. rest (inner m)) w w'
        \<and> (kv (web.more w') = kv (web.more w)
           \<or> (\<not> nx \<or> kv (web.more w) k = None) \<and> kv (web.more w') = (kv (web.more w))(k \<mapsto> v))"
      by (rule inside_tried [where f = "redis_set r k v ex nx"])
        (rule unreliableD(3) [OF assms, of k v ex nx "as_world w", unfolded as_world_simps])
  qed
qed

definition faulty_backend :: "(invalidation, store) web_scheme backend" where
  "faulty_backend = web_backend\<lparr>base_service := web_service\<lparr>svc_redis := web_redis faulty_kv\<rparr>\<rparr>"

lemma faulty_backend_simps [simp]:
  "svc_codec (base_service faulty_backend) = demo_codec"
  "sha256_hex (base_service faulty_backend) = sha256_hex (base_service web_backend)"
  "svc_redis (base_service faulty_backend) = web_redis faulty_kv"
  "repo_session (articles (base_service faulty_backend)) = web_sql memory_sql"
  "others_run (base_service faulty_backend) w = w"
  "sess_commit faulty_backend = sess_commit web_backend"
  "sess_rollback faulty_backend = sess_rollback web_backend"
  by (simp_all add: faulty_backend_def web_backend_def web_service_def)


end
