(* ===== verification/Application.thy ===== *)
theory Application
  imports Routers
begin

text \<open>
  The application as \<open>app/main.py\<close> wires it: the routers it includes, each endpoint under its template,
  inside the chain of \<open>create_app\<close>. A request is what the client sent and the call the router made of
  it (\<open>api_call\<close>); \<open>serve_all\<close> runs one after the other, each in the state the previous one left. What
  the dependencies of the endpoints give is the record \<open>deployment\<close>.
\<close>

record 'w deployment =
  dep_env :: "'w http_env"
  dep_jwt :: jwt
  dep_settings :: settings
  dep_backend :: "'w backend"
  dep_hasher :: "'w hasher"
  dep_email :: "string \<Rightarrow> string option"         \<comment> \<open>\<open>EmailStr\<close>\<close>
  dep_breached :: "string \<Rightarrow> bool"                \<comment> \<open>the breach checker\<close>
  dep_instance :: string
  dep_class_name :: "exn \<Rightarrow> string"
  dep_probe_mysql :: "('w, unit) awaitable"
  dep_probe_redis :: "('w, unit) awaitable"
  dep_render :: "'w \<Rightarrow> string \<times> string"          \<comment> \<open>\<open>render_metrics\<close>\<close>

text \<open>
  An endpoint with the arguments FastAPI parsed, or a response the framework makes itself: its
  documentation pages, the redirect of a trailing slash, an unknown path, a method the path does not
  have.
\<close>

datatype api_call =
    Live
  | Ready
  | Scrape
  | Register string string
  | Login string string
  | CreateArticle string string
  | ListArticles "int option" "string option" "int option"
  | GetArticle int
  | UpdateArticle int string string "string option"
  | DeleteArticle int "string option"
  | Framework response "string option"

definition framework_statuses :: "int set" where
  "framework_statuses = {200, 307, 404, 405}"

fun call_template :: "api_call \<Rightarrow> string option" where
  "call_template Live = Some ''/health/live''"
| "call_template Ready = Some ''/health/ready''"
| "call_template Scrape = Some METRICS_PATH"
| "call_template (Register _ _) = Some ''/v1/auth/register''"
| "call_template (Login _ _) = Some ''/v1/auth/login''"
| "call_template (CreateArticle _ _) = Some ''/v1/articles''"
| "call_template (ListArticles _ _ _) = Some ''/v1/articles''"
| "call_template (GetArticle _) = Some ''/v1/articles/{article_id}''"
| "call_template (UpdateArticle _ _ _ _) = Some ''/v1/articles/{article_id}''"
| "call_template (DeleteArticle _ _) = Some ''/v1/articles/{article_id}''"
| "call_template (Framework _ path) = path"

definition auth_of ::
  "(invalidation, 'm) web_scheme deployment \<Rightarrow> (invalidation, 'm) web_scheme auth_service" where
  "auth_of D = get_auth_service (dep_jwt D) (dep_settings D) (wall_clock (dep_env D)) (dep_hasher D)
     (dep_backend D)"

fun endpoint ::
  "(invalidation, 'm) web_scheme deployment \<Rightarrow> api_call
   \<Rightarrow> ((invalidation, 'm) web_scheme, response) command" where
  "endpoint D Live = live_route (dep_instance D)"
| "endpoint D Ready =
     ready_route (dep_settings D) (dep_class_name D) (dep_probe_mysql D) (dep_probe_redis D)"
| "endpoint D Scrape = metrics_route (dep_render D)"
| "endpoint D (Register address password) =
     register_route (dep_settings D) (dep_backend D) (auth_of D) (dep_email D) (dep_breached D) address password"
| "endpoint D (Login address password) =
     login_route (dep_settings D) (dep_backend D) (auth_of D) address password"
| "endpoint D (CreateArticle new_title new_body) =
     create_route (dep_settings D) (dep_backend D) new_title new_body"
| "endpoint D (ListArticles limit cursor author) =
     list_route (dep_settings D) (dep_backend D) limit cursor author"
| "endpoint D (GetArticle i) = get_route (dep_settings D) (dep_backend D) i"
| "endpoint D (UpdateArticle i new_title new_body if_match) =
     update_route (dep_settings D) (dep_backend D) i new_title new_body if_match"
| "endpoint D (DeleteArticle i if_match) = delete_route (dep_settings D) (dep_backend D) i if_match"
| "endpoint D (Framework resp _) = return_cmd resp"

text \<open>The router stores the route it matched in the scope, and runs its endpoint.\<close>

definition routed ::
  "(invalidation, 'm) web_scheme deployment \<Rightarrow> api_call
   \<Rightarrow> ((invalidation, 'm) web_scheme, response) command" where
  "routed D call w = endpoint D call (w\<lparr>scope_route := call_template call\<rparr>)"

text \<open>One request: a fresh scope, and the chain. An application that cannot be built serves nothing.\<close>

definition exchange ::
  "(invalidation, 'm) web_scheme deployment \<Rightarrow> http_request \<times> api_call
   \<Rightarrow> ((invalidation, 'm) web_scheme, response) command" where
  "exchange D rq w =
     (case create_app (dep_env D) (dep_jwt D) (dep_settings D) (routed D (snd rq)) of
        Inl e \<Rightarrow> (Inl e, w)
      | Inr app \<Rightarrow> app (fst rq) (w\<lparr>scope_route := None\<rparr>))"

fun serve_all ::
  "(invalidation, 'm) web_scheme deployment \<Rightarrow> (http_request \<times> api_call) list
   \<Rightarrow> (invalidation, 'm) web_scheme \<Rightarrow> (invalidation, 'm) web_scheme" where
  "serve_all D [] w = w"
| "serve_all D (rq # rqs) w = serve_all D rqs (snd (exchange D rq w))"

text \<open>
  A request as the server hands it over: a method its parser knows, a route of the table, and of the
  framework's own responses only the documented ones.
\<close>

definition well_received :: "'w http_env \<Rightarrow> string set \<Rightarrow> http_request \<times> api_call \<Rightarrow> bool" where
  "well_received env methods rq \<longleftrightarrow>
     req_method (fst rq) \<in> methods
     \<and> (\<forall>path. call_template (snd rq) = Some path \<longrightarrow> path \<in> route_labels env)
     \<and> (\<forall>resp path. snd rq = Framework resp path \<longrightarrow> resp_status resp \<in> framework_statuses)"

subsection \<open>The statuses of the endpoints\<close>

definition answers_within :: "int set \<Rightarrow> ('w, response) command \<Rightarrow> bool" where
  "answers_within S m \<longleftrightarrow> (\<forall>w r w'. m w = (Inr r, w') \<longrightarrow> resp_status r \<in> S)"

lemma answers_withinI:
  "(\<And>w r w'. m w = (Inr r, w') \<Longrightarrow> resp_status r \<in> S) \<Longrightarrow> answers_within S m"
  by (simp add: answers_within_def)

lemma answers_return: "answers_within S (return_cmd r) \<longleftrightarrow> resp_status r \<in> S"
  by (simp add: answers_within_def)

lemma answers_raise: "answers_within S (raise_cmd e)"
  by (simp add: answers_within_def)

lemma answers_bind: "(\<And>a. answers_within S (f a)) \<Longrightarrow> answers_within S (bind_cmd m f)"
  by (auto simp: answers_within_def bind_cmd_def split: prod.splits sum.splits)

lemma answers_in_request:
  assumes "answers_within S handler"
  shows "answers_within S (in_request settings b handler)"
proof -
  have "fst (handler v) = Inr r" if "fst (in_request settings b handler w) = Inr r"
    and "v = w\<lparr>cache := new_article_cache (settings.cache_enabled settings), session_info := None\<rparr>" for w r v
    using that by (auto simp: in_request_def get_session_def rollback_and_raise_def bind_cmd_def
        split: prod.splits sum.splits)
  with assms show ?thesis by (auto simp: answers_within_def) (metis fst_conv prod.collapse)
qed

end
