(* ===== verification/Upkeep.thy ===== *)
theory Upkeep
  imports Application
begin

text \<open>
  One walk over the program for many invariants. An invariant reads the registry of breakers, the
  metric log and the scope of the request (type \<open>invariant\<close>). The locale \<open>upkeep\<close> says what an
  invariant must survive: a labelled metric call, the three reports to a breaker, and the building of
  one. Under that contract every operation of the cache, the guard, the repositories, the services,
  the routers and the layers of the middleware keeps it, whatever MySQL, Redis and the other tasks of
  the process do, as long as they keep it too. Theory \<open>Metering\<close> interprets the locale.
\<close>

subsection \<open>What keeps an invariant\<close>

type_synonym 'm served = "(invalidation, 'm) web_scheme"

type_synonym invariant =
  "(string \<rightharpoonup> circuit_breaker) \<Rightarrow> metric_log \<Rightarrow> string option \<Rightarrow> bool"

definition upheld :: "invariant \<Rightarrow> 'm served \<Rightarrow> bool" where
  "upheld I w \<longleftrightarrow> I (breakers w) (metrics w) (scope_route w)"

definition maintains :: "invariant \<Rightarrow> ('m served \<Rightarrow> 'x \<times> 'm served) \<Rightarrow> bool" where
  "maintains I f \<longleftrightarrow> (\<forall>w. upheld I w \<longrightarrow> upheld I (snd (f w)))"

lemma maintainsI: "(\<And>w. upheld I w \<Longrightarrow> upheld I (snd (f w))) \<Longrightarrow> maintains I f"
  by (simp add: maintains_def)

lemma maintainsD: "maintains I f \<Longrightarrow> upheld I w \<Longrightarrow> upheld I (snd (f w))"
  by (simp add: maintains_def)

lemma maintains_run: "maintains I f \<Longrightarrow> f w = (x, w') \<Longrightarrow> upheld I w \<Longrightarrow> upheld I w'"
  using maintainsD [of I f w] by simp

lemma upheld_frame:
  "upheld I w \<Longrightarrow> breakers w' = breakers w \<Longrightarrow> metrics w' = metrics w
    \<Longrightarrow> scope_route w' = scope_route w \<Longrightarrow> upheld I w'"
  by (simp add: upheld_def)

lemma upheld_fields [simp]:
  "upheld I (w\<lparr>now := t\<rparr>) = upheld I w"
  "upheld I (w\<lparr>session_info := q\<rparr>) = upheld I w"
  "upheld I (w\<lparr>cache := c\<rparr>) = upheld I w"
  "upheld I (w\<lparr>state_request_id := i\<rparr>) = upheld I w"
  "upheld I (w\<lparr>state_principal := p\<rparr>) = upheld I w"
  "upheld I (w\<lparr>context_vars := vs\<rparr>) = upheld I w"
  "upheld I (w\<lparr>inflight := n\<rparr>) = upheld I w"
  "upheld I (w\<lparr>log_lines := ls\<rparr>) = upheld I w"
  "upheld I (w\<lparr>active_span := sp\<rparr>) = upheld I w"
  "upheld I (w\<lparr>spans := ss\<rparr>) = upheld I w"
  "upheld I (w\<lparr>dummy_hash_cache := h\<rparr>) = upheld I w"
  by (simp_all add: upheld_def)

lemma upheld_steps [simp]:
  "upheld I (discard_after_commit w) = upheld I w"
  "upheld I (after_commit c w) = upheld I w"
  "upheld I (log_line level event given w) = upheld I w"
  "upheld I (bind_contextvars k v w) = upheld I w"
  "upheld I (clear_contextvars w) = upheld I w"
  by (simp_all add: discard_after_commit_def after_commit_def log_line_def bind_contextvars_def
      clear_contextvars_def)

text \<open>The rules of the walk: the constructs of a command.\<close>

lemma maintains_return [upkeep_rules]: "maintains I (return_cmd a)"
  by (simp add: maintains_def)

lemma maintains_raise [upkeep_rules]: "maintains I (raise_cmd e)"
  by (simp add: maintains_def)

lemma maintains_lift [upkeep_rules]: "maintains I (lift r)"
  by (simp add: maintains_def lift_def)

lemma maintains_pair [upkeep_rules]: "maintains I (Pair x)"
  by (simp add: maintains_def)

lemma maintains_finish [upkeep_rules]: "maintains I (finish r dl)"
  by (simp add: maintains_def finish_def)

lemma maintains_bind [upkeep_rules]:
  assumes "maintains I m" and "\<And>a. maintains I (f a)"
  shows "maintains I (bind_cmd m f)"
  using assms by (auto simp: maintains_def bind_cmd_def split: prod.split sum.split)

lemma maintains_bind_reading [upkeep_rules]:
  assumes "\<And>v. maintains I (m v)" and "\<And>a. maintains I (f a)"
  shows "maintains I (\<lambda>w. bind_cmd (m w) f w)"
  using maintains_bind [of I "m w" f for w] assms by (auto simp: maintains_def)

lemma maintains_bind_await [upkeep_rules]:
  assumes "maintains I (op dl)" and "\<And>a. maintains I (f a dl)"
  shows "maintains I (bind_await op f dl)"
  using assms by (auto simp: maintains_def bind_await_def split: prod.split sum.split completion.split)

lemma maintains_finally [upkeep_rules]:
  assumes "maintains I act" and "maintains I cleanup"
  shows "maintains I (finally_do act cleanup)"
proof (rule maintainsI)
  fix w :: "'a served"
  assume w: "upheld I w"
  obtain r w1 where 1: "act w = (r, w1)" by fastforce
  obtain r' w2 where 2: "cleanup w1 = (r', w2)" by fastforce
  show "upheld I (snd (finally_do act cleanup w))"
    using maintains_run [OF assms(2) 2 maintains_run [OF assms(1) 1 w]] 1 2
    by (simp add: finally_do_def split: sum.split)
qed

lemma maintains_if [upkeep_rules]:
  "(c \<Longrightarrow> maintains I f) \<Longrightarrow> (\<not> c \<Longrightarrow> maintains I g) \<Longrightarrow> maintains I (if c then f else g)"
  by simp

lemma maintains_option [upkeep_rules]:
  "maintains I f \<Longrightarrow> (\<And>a. maintains I (g a)) \<Longrightarrow> maintains I (case x of None \<Rightarrow> f | Some a \<Rightarrow> g a)"
  by (cases x) simp_all

lemma maintains_sum [upkeep_rules]:
  "(\<And>a. maintains I (f a)) \<Longrightarrow> (\<And>b. maintains I (g b)) \<Longrightarrow> maintains I (case x of Inl a \<Rightarrow> f a | Inr b \<Rightarrow> g b)"
  by (cases x) simp_all

lemma maintains_prod [upkeep_rules]:
  "(\<And>a b. maintains I (f a b)) \<Longrightarrow> maintains I (case x of (a, b) \<Rightarrow> f a b)"
  by (cases x) simp

lemma maintains_traced [upkeep_rules]: "maintains I m \<Longrightarrow> maintains I (traced c op attributes m)"
  by (simp add: maintains_def traced_def Let_def case_prod_beta)

text \<open>A step that reads the state it runs in.\<close>

lemma maintains_reading: "(\<And>v. maintains I (f v)) \<Longrightarrow> maintains I (\<lambda>w. f w w)"
  by (simp add: maintains_def)

subsection \<open>What the program relies on\<close>

text \<open>
  The drivers, the hasher and the tasks that run while a request awaits keep the invariant: what other
  tasks do is what this one does.
\<close>

definition client_keeps :: "invariant \<Rightarrow> 'm served redis_client \<Rightarrow> bool" where
  "client_keeps I redis \<longleftrightarrow>
     (\<forall>k. maintains I (redis_get redis k)) \<and> (\<forall>ks. maintains I (redis_mget redis ks))
     \<and> (\<forall>k v ex nx. maintains I (redis_set redis k v ex nx))
     \<and> (\<forall>k. maintains I (redis_delete redis k)) \<and> (\<forall>k. maintains I (redis_incr redis k))"

definition sql_keeps :: "invariant \<Rightarrow> 'm served sql_session \<Rightarrow> bool" where
  "sql_keeps I s \<longleftrightarrow>
     (\<forall>q dl. maintains I (execute_select s q dl)) \<and> (\<forall>q dl. maintains I (execute_rows s q dl))
     \<and> (\<forall>q dl. maintains I (execute_update s q dl)) \<and> (\<forall>who t b dl. maintains I (flush_article s who t b dl))
     \<and> (\<forall>i dl. maintains I (refresh_article s i dl)) \<and> (\<forall>dl. maintains I (session_rollback s dl))"

definition users_keep :: "invariant \<Rightarrow> 'm served user_session \<Rightarrow> bool" where
  "users_keep I s \<longleftrightarrow>
     (\<forall>i dl. maintains I (session_get_user s i dl)) \<and> (\<forall>e dl. maintains I (select_user_by_email s e dl))
     \<and> (\<forall>n dl. maintains I (select_role_by_name s n dl)) \<and> (\<forall>e h r dl. maintains I (flush_user s e h r dl))
     \<and> (\<forall>dl. maintains I (users_rollback s dl))"

definition hasher_keeps :: "invariant \<Rightarrow> 'm served hasher \<Rightarrow> bool" where
  "hasher_keeps I h \<longleftrightarrow>
     (\<forall>p. maintains I (argon2_hash h p)) \<and> (\<forall>d p. maintains I (argon2_verify h d p))"

definition users_configured ::
  "invariant \<Rightarrow> (string \<rightharpoonup> dependency_policy) \<Rightarrow> 'm served user_repository \<Rightarrow> bool" where
  "users_configured I policies r \<longleftrightarrow>
     users_policies r = policies \<and> (\<forall>k. 0 \<le> users_waits r k) \<and> users_keep I (users_session r)"

definition service_keeps ::
  "invariant \<Rightarrow> (string \<rightharpoonup> dependency_policy) \<Rightarrow> 'm served article_service \<Rightarrow> bool" where
  "service_keeps I policies s \<longleftrightarrow>
     svc_policies s = policies \<and> (\<forall>k. 0 \<le> repo_waits (articles s) k)
     \<and> sql_keeps I (repo_session (articles s)) \<and> client_keeps I (svc_redis s)
     \<and> (\<forall>w. upheld I w \<longrightarrow> upheld I (others_run s w))"

definition backend_keeps ::
  "invariant \<Rightarrow> (string \<rightharpoonup> dependency_policy) \<Rightarrow> 'm served backend \<Rightarrow> bool" where
  "backend_keeps I policies b \<longleftrightarrow>
     service_keeps I policies (base_service b) \<and> users_configured I policies (user_repo b)
     \<and> maintains I (sess_commit b) \<and> maintains I (sess_rollback b)"

lemma client_rules:
  assumes "client_keeps I redis"
  shows "maintains I (redis_get redis k)" "maintains I (redis_mget redis ks)"
    "maintains I (redis_set redis k v ex nx)" "maintains I (redis_delete redis k)" "maintains I (redis_incr redis k)"
  using assms by (simp_all add: client_keeps_def)

lemma sql_rules:
  assumes "sql_keeps I s"
  shows "maintains I (execute_select s q dl)" "maintains I (execute_rows s q dl)"
    "maintains I (execute_update s u dl)" "maintains I (flush_article s who t b dl)"
    "maintains I (refresh_article s i dl)" "maintains I (session_rollback s dl)"
  using assms by (simp_all add: sql_keeps_def)

lemma users_rules:
  assumes "users_keep I s"
  shows "maintains I (session_get_user s i dl)" "maintains I (select_user_by_email s e dl)"
    "maintains I (select_role_by_name s n dl)" "maintains I (flush_user s e h r dl)"
    "maintains I (users_rollback s dl)"
  using assms by (simp_all add: users_keep_def)

definition deployment_keeps ::
  "invariant \<Rightarrow> (string \<rightharpoonup> dependency_policy) \<Rightarrow> 'm served deployment \<Rightarrow> bool" where
  "deployment_keeps I policies D \<longleftrightarrow>
     backend_keeps I policies (dep_backend D) \<and> hasher_keeps I (dep_hasher D)
     \<and> (\<forall>dl. maintains I (dep_probe_mysql D dl)) \<and> (\<forall>dl. maintains I (dep_probe_redis D dl))"

subsection \<open>The contract of an invariant, and the walk\<close>

locale upkeep =
  fixes I :: invariant and policies :: "string \<rightharpoonup> dependency_policy"
    and routes :: "string set" and methods :: "string set"
  assumes metered: "I bs ms sc \<Longrightarrow> labelled routes methods c \<Longrightarrow> I bs (ms @ [c]) sc"
    and allowed: "I bs ms sc \<Longrightarrow> bs d = Some b \<Longrightarrow> I (bs(d \<mapsto> snd (allow t b))) ms sc"
    and succeeded: "I bs ms sc \<Longrightarrow> bs d = Some b \<Longrightarrow> I (bs(d \<mapsto> record_success b)) ms sc"
    and failed: "I bs ms sc \<Longrightarrow> bs d = Some b \<Longrightarrow> I (bs(d \<mapsto> record_failure t b)) ms sc"
    and built: "I bs ms sc \<Longrightarrow> bs d = None \<Longrightarrow> policies d = Some p \<Longrightarrow>
      I (bs(d \<mapsto> new_breaker d (pol_failure_threshold p) (pol_reset_seconds p)
           (pol_half_open_max_calls p) [])) ms sc"
    and scoped: "I bs ms (Some path) \<Longrightarrow> path \<in> routes"
    and rescoped: "I bs ms sc \<Longrightarrow> (\<And>path. sc' = Some path \<Longrightarrow> path \<in> routes) \<Longrightarrow> I bs ms sc'"
begin

text \<open>The primitive steps.\<close>

lemma upheld_call:
  "upheld I w \<Longrightarrow> labelled routes methods c \<Longrightarrow> upheld I (log_metric (\<lambda>calls. calls @ [c]) w)"
  by (simp add: upheld_def log_metric_def metered)

lemma upheld_observed [intro]:
  assumes "upheld I w"
  shows "upheld I (log_metric (observe_cache_hit e) w)"
    and "upheld I (log_metric (observe_cache_miss e) w)"
    and "upheld I (log_metric (observe_cache_error p) w)"
    and "upheld I (log_metric (observe_dependency_timeout d) w)"
    and "upheld I (log_metric (observe_retry d r) w)"
    and "upheld I (log_metric (track_inflight n) w)"
  using assms by (simp_all add: upheld_def log_metric_def observer_defs metered)

lemma upheld_succeeds [intro]: "upheld I w \<Longrightarrow> upheld I (breaker_succeeds d w)"
  by (cases "breakers w d") (simp_all add: upheld_def breaker_succeeds_def update_breaker_def
      succeeded fun_upd_idem)

lemma upheld_fails [intro]: "upheld I w \<Longrightarrow> upheld I (breaker_fails d w)"
  by (cases "breakers w d") (simp_all add: upheld_def breaker_fails_def update_breaker_def
      failed fun_upd_idem)

lemma upheld_allow:
  "upheld I w \<Longrightarrow> breakers w d = Some b \<Longrightarrow> upheld I (update_breaker d (\<lambda>_. snd (allow t b)) w)"
  by (simp add: upheld_def update_breaker_def allowed)

lemma upheld_get_breaker [intro]:
  "upheld I w \<Longrightarrow> policies d = Some p \<Longrightarrow> upheld I (get_breaker d p w)"
  by (simp add: upheld_def get_breaker_def Let_def built split: option.split)

subsubsection \<open>The guard\<close>

lemma loop: "loop_relation (\<lambda>dl u v. upheld I u \<longrightarrow> upheld I v)"
  by unfold_locales (auto simp: asyncio_sleep_def)

lemma conclude_keeps: "upheld I w \<Longrightarrow> upheld I (snd (conclude d p c w))"
  by (auto simp: conclude_def split: completion.split sum.split exn.split domain_error.split)

lemma guarded_call_keeps:
  assumes op: "\<And>dl. maintains I (op dl)" and hook: "\<And>h dl. hook = Some h \<Longrightarrow> maintains I (h dl)"
    and waits: "\<And>k. 0 \<le> waits k"
  shows "maintains I (guarded_call policies waits d hook retry op)"
proof (rule maintainsI)
  fix w :: "'a served"
  assume w: "upheld I w"
  show "upheld I (snd (guarded_call policies waits d hook retry op w))"
  proof (cases "policies d")
    case None
    with w show ?thesis by (simp add: guarded_call_def)
  next
    case (Some p)
    from w Some have w1: "upheld I (get_breaker d p w)" ..
    from Some show ?thesis
    proof (cases rule: guarded_call_cases [where w = w and op = op and waits = waits and hook = hook
          and retry = retry])
      case (refused b)
      with Some upheld_allow [OF w1 refused(1), of "now w"] show ?thesis
        by (simp add: guarded_call_refused admitted_state_def)
    next
      case (admitted b c w3)
      have "upheld I (admitted_state d p b w)"
        using upheld_allow [OF w1 admitted(1), of "now w"] by (simp add: admitted_state_def)
      moreover have "upheld I (admitted_state d p b w) \<longrightarrow> upheld I (snd (with_retry
          (if retry then p else p\<lparr>attempts := 1\<rparr>) d waits (if retry then hook else None) op
          (now w + call_timeout_seconds p) (admitted_state d p b w)))"
        by (rule loop_relation.retry_step [OF loop])
          (use op hook waits in \<open>auto simp: maintains_def split: if_splits\<close>)
      ultimately have "upheld I w3" using admitted(3) by simp
      with admitted(4) show ?thesis by (simp add: conclude_keeps)
    qed
  qed
qed

subsubsection \<open>The cache\<close>

lemma resolve_breaker_keeps: "maintains I (resolve_breaker policies)"
  by (rule maintainsI) (auto simp: resolve_breaker_def Let_def split: option.split)

lemma breaker_allow_keeps: "maintains I (breaker_allow d)"
  by (rule maintainsI) (simp add: breaker_allow_def case_prod_beta upheld_allow split: option.split)

lemma live_keeps: "maintains I (live policies)"
  by (rule maintainsI)
    (simp add: live_def maintainsD [OF maintains_bind] resolve_breaker_keeps breaker_allow_keeps)

lemma try_redis_keeps [upkeep_rules]:
  assumes cmd: "maintains I cmd" and fin: "\<And>a. maintains I (then_do a)"
  shows "maintains I (try_redis policies operation fallback cmd then_do)"
proof (rule maintainsI)
  fix w :: "'a served"
  assume w: "upheld I w"
  obtain r w1 where 1: "live policies w = (r, w1)" by fastforce
  obtain r' w2 where 2: "cmd w1 = (r', w2)" by fastforce
  have w1: "upheld I w1" by (rule maintains_run [OF live_keeps 1 w])
  have w2: "upheld I w2" by (rule maintains_run [OF cmd 2 w1])
  have "upheld I (degrade operation w2)"
    using w2 by (auto simp: degrade_def Let_def split: option.split intro!: upheld_observed upheld_fails)
  moreover have "upheld I (succeed w2)" using w2 by (auto simp: succeed_def split: option.split)
  ultimately show "upheld I (snd (try_redis policies operation fallback cmd then_do w))"
    using 1 2 w1 w2 maintainsD [OF fin] by (simp add: try_redis_def case_prod_beta split: sum.split)
qed

lemma counted_keeps [upkeep_rules]:
  "maintains I (\<lambda>w. case value of None \<Rightarrow> (None, log_metric (observe_cache_miss e) w)
     | Some v \<Rightarrow> (Some v, log_metric (observe_cache_hit e) w))"
  by (rule maintainsI) (auto split: option.split)

lemma cache_keeps [upkeep_rules]:
  assumes "client_keeps I redis"
  shows "maintains I (peek redis policies key)"
    and "maintains I (cache_get_article redis policies i)"
    and "maintains I (get_list_page redis policies key)"
    and "maintains I (get_generations redis policies who)"
    and "maintains I (set_article redis policies i text ttl)"
    and "maintains I (set_list_page redis policies key text ttl)"
    and "maintains I (invalidate_article redis policies i)"
    and "maintains I (bump_generations redis policies who)"
    and "maintains I (acquire_lock redis policies key ttl)"
    and "maintains I (release_lock redis policies key)"
  unfolding peek_def cache_get_article_def get_list_page_def cache_get_def get_generations_def
    set_article_def set_list_page_def cache_set_def invalidate_article_def bump_generations_def
    acquire_lock_def release_lock_def Let_def
  by (intro upkeep_rules client_rules [OF assms])+

subsubsection \<open>The repositories\<close>

lemma read_mysql_keeps:
  assumes "service_keeps I policies s" and "\<And>dl. maintains I (op dl)"
  shows "maintains I (read_mysql (articles s) op)"
proof -
  from assms(1) have p: "svc_policies s = policies" by (simp add: service_keeps_def)
  from assms show ?thesis
    unfolding read_mysql_def guarded_read_def p
    by (intro guarded_call_keeps) (auto simp: service_keeps_def sql_rules(6))
qed

lemma write_mysql_keeps:
  assumes "service_keeps I policies s" and "\<And>dl. maintains I (op dl)"
  shows "maintains I (write_mysql (articles s) op)"
proof -
  from assms(1) have p: "svc_policies s = policies" by (simp add: service_keeps_def)
  from assms show ?thesis
    unfolding write_mysql_def guarded_write_def p
    by (intro guarded_call_keeps) (auto simp: service_keeps_def)
qed

lemma article_statements_keep [upkeep_rules]:
  assumes s: "service_keeps I policies s"
  shows "maintains I (repo_create (articles s) who new_title new_body)"
    and "maintains I (repo_get (articles s) i)"
    and "maintains I (repo_list (articles s) limit after author)"
    and "maintains I (update_cas (articles s) i t new_title new_body)"
    and "maintains I (soft_delete_cas (articles s) i t)"
proof -
  note q = sql_rules [of I "repo_session (articles s)"]
  from s have [simp]: "sql_keeps I (repo_session (articles s))" by (simp add: service_keeps_def)
  show "maintains I (repo_create (articles s) who new_title new_body)"
    unfolding repo_create_def by (intro write_mysql_keeps [OF s] upkeep_rules q) simp_all
  show "maintains I (repo_get (articles s) i)"
    unfolding repo_get_def by (intro read_mysql_keeps [OF s] upkeep_rules q) simp_all
  show "maintains I (repo_list (articles s) limit after author)"
    unfolding repo_list_def by (intro read_mysql_keeps [OF s] upkeep_rules q) simp_all
  show "maintains I (update_cas (articles s) i t new_title new_body)"
    unfolding update_cas_def by (intro write_mysql_keeps [OF s] upkeep_rules q) simp_all
  show "maintains I (soft_delete_cas (articles s) i t)"
    unfolding soft_delete_cas_def
    by (rule write_mysql_keeps [OF s], rule maintainsI, rule maintainsD [OF q(3)]) simp_all
qed

subsubsection \<open>The article service\<close>

lemma service_parts_keep:
  assumes "service_keeps I policies s"
  shows "svc_policies s = policies" "client_keeps I (svc_redis s)"
    "upheld I w \<Longrightarrow> upheld I (sleep_cmd s t w)"
  using assms by (simp_all add: service_keeps_def sleep_cmd_def Let_def)

lemma await_loader_keeps [upkeep_rules]:
  assumes s: "service_keeps I policies s"
  shows "maintains I (await_loader s key)"
proof -
  have "upheld I w \<Longrightarrow> upheld I (snd (await_loop s n deadline key w))" for n deadline w
  proof (induction n arbitrary: w)
    case (Suc n)
    obtain r w1 where 1: "peek (svc_redis s) policies key (sleep_cmd s POLL_INTERVAL_SECONDS w) = (r, w1)"
      by fastforce
    have "upheld I w1"
      by (rule maintains_run [OF cache_keeps(1) 1]) (use service_parts_keep [OF s] Suc.prems in auto)
    with Suc 1 service_parts_keep(1) [OF s] show ?case by (simp split: sum.split option.split)
  qed simp
  then show ?thesis by (simp add: maintains_def await_loader_def)
qed

lemma service_keeps_operations [upkeep_rules]:
  assumes s: "service_keeps I policies s"
  shows "maintains I (create s actor new_title new_body)"
    and "maintains I (get_article s i)"
    and "maintains I (list_articles s limit after author)"
    and "maintains I (update s actor i new_title new_body t)"
    and "maintains I (delete s actor i t)"
    and "maintains I (invalidate s job)"
proof -
  have after: "maintains I (invalidate_after_commit s who i)" for who i
    by (simp add: maintains_def invalidate_after_commit_def)
  have load: "maintains I (load s i)" "maintains I (raise_conflict_or_not_found s i)"
    "maintains I (load_page s limit p author)" for i limit p author
    unfolding load_def raise_conflict_or_not_found_def load_page_def Let_def
    by (intro upkeep_rules s)+
  note rules = upkeep_rules s service_parts_keep(2) [OF s] after load
  show "maintains I (create s actor new_title new_body)"
    unfolding create_def by (intro rules)
  show "maintains I (get_article s i)"
    unfolding get_article_def Let_def service_parts_keep(1) [OF s] by (intro rules)
  show "maintains I (list_articles s limit after author)"
    unfolding list_articles_def Let_def service_parts_keep(1) [OF s] by (intro rules)
  show "maintains I (update s actor i new_title new_body t)"
    unfolding update_def authorize_write_def Let_def by (intro rules)
  show "maintains I (delete s actor i t)"
    unfolding delete_def authorize_write_def Let_def by (intro rules)
  show "maintains I (invalidate s job)"
    unfolding invalidate_def service_parts_keep(1) [OF s] by (intro rules)
qed

subsubsection \<open>The accounts\<close>

lemma user_statements_keep [upkeep_rules]:
  assumes r: "users_configured I policies r"
  shows "maintains I (get_by_id r i)" and "maintains I (get_by_email r address)"
    and "maintains I (user_create r address hash name)"
proof -
  from r have p: "users_policies r = policies" and w: "\<And>k. 0 \<le> users_waits r k"
    and q: "users_keep I (users_session r)" by (simp_all add: users_configured_def)
  note q = users_rules [OF q]
  show "maintains I (get_by_id r i)"
    unfolding get_by_id_def read_users_def guarded_read_def p
    by (rule guarded_call_keeps) (use q w in auto)
  show "maintains I (get_by_email r address)"
    unfolding get_by_email_def read_users_def guarded_read_def p
    by (rule guarded_call_keeps) (use q w in \<open>auto intro!: maintains_bind_await maintains_finish\<close>)
  show "maintains I (user_create r address hash name)"
    unfolding user_create_def get_role_def guarded_write_def p
    by (rule guarded_call_keeps) (use q w in \<open>auto intro!: maintains_bind_await maintains_finish\<close>)
qed

lemma get_current_user_keeps [upkeep_rules]:
  assumes "users_configured I policies r"
  shows "maintains I (get_current_user r)"
proof (rule maintainsI)
  fix w :: "'a served"
  assume "upheld I w"
  moreover have "maintains I (bind_cmd (get_by_id r i)
      (\<lambda>found. case found of None \<Rightarrow> raise_cmd bad_identity | Some u \<Rightarrow> return_cmd u))" for i
    by (intro upkeep_rules assms)
  ultimately show "upheld I (snd (get_current_user r w))"
    using maintainsD by (auto simp: get_current_user_def split: option.split)
qed

lemma hashing_keeps [upkeep_rules]:
  assumes "hasher_keeps I h"
  shows "maintains I (hash_password h p)" and "maintains I (verify_password h p stored)"
  using assms by (auto simp: hash_password_def verify_password_def hasher_keeps_def intro!: upkeep_rules)

lemma auth_keeps [upkeep_rules]:
  assumes r: "users_configured I policies (users s)" and h: "hasher_keeps I (auth_hasher s)"
  shows "maintains I (register s address password)" and "maintains I (login s address password)"
proof -
  have dummy: "maintains I (dummy_hash s)"
  proof (rule maintainsI)
    fix w :: "'a served"
    assume w: "upheld I w"
    have "maintains I (bind_cmd (hash_password (auth_hasher s) t)
        (\<lambda>d w'. (Inr d, w'\<lparr>dummy_hash_cache := Some d\<rparr>)))" for t
      by (intro upkeep_rules h) (simp add: maintains_def)
    with w maintainsD show "upheld I (snd (dummy_hash s w))"
      by (auto simp: dummy_hash_def split: option.split)
  qed
  show "maintains I (register s address password)"
    unfolding register_def by (intro upkeep_rules r h)
  show "maintains I (login s address password)"
    unfolding login_def by (intro upkeep_rules r h dummy) (simp add: maintains_def)
qed

subsubsection \<open>The endpoints\<close>

lemma in_request_keeps:
  fixes handler :: "('m served, 'x) command"
  assumes b: "backend_keeps I policies b" and handler: "maintains I handler"
  shows "maintains I (in_request settings b handler)"
proof -
  from b have service: "service_keeps I policies (get_article_service settings b)"
    and commit: "maintains I (sess_commit b)" and rollback: "maintains I (sess_rollback b)"
    by (simp_all add: backend_keeps_def service_keeps_def get_article_service_def)
  let ?call = "invalidate (get_article_service settings b)"
  have drained: "upheld I w \<Longrightarrow> upheld I (snd (run_callbacks ?call jobs w))" for jobs w
  proof (induction jobs arbitrary: w)
    case (Cons job jobs)
    obtain r w1 where 1: "?call job w = (r, w1)" by fastforce
    have "upheld I w1" by (rule maintains_run [OF service_keeps_operations(6) [OF service] 1 Cons.prems])
    with Cons.IH 1 show ?case by (simp split: sum.split)
  qed simp
  have undone: "upheld I w \<Longrightarrow> upheld I (snd (rollback_and_raise (sess_rollback b) e w :: (exn + 'x) \<times> 'm served))" for e w
    using maintainsD [OF rollback, of w]
    by (simp add: rollback_and_raise_def case_prod_beta split: sum.split)
  show ?thesis
  proof (rule maintainsI)
    fix w :: "'m served"
    assume w: "upheld I w"
    let ?w0 = "w\<lparr>cache := new_article_cache (settings.cache_enabled settings), session_info := None\<rparr>"
    obtain r w1 where 1: "handler ?w0 = (r, w1)" by fastforce
    obtain r' w2 where 2: "sess_commit b w1 = (r', w2)" by fastforce
    have w1: "upheld I w1" by (rule maintains_run [OF handler 1]) (use w in simp)
    have w2: "upheld I w2" by (rule maintains_run [OF commit 2 w1])
    show "upheld I (snd (in_request settings b handler w))"
      using 1 2 undone [OF w1] undone [OF w2] drained w2
      by (simp add: in_request_def get_session_def drain_after_commit_def bind_cmd_def case_prod_beta
          split: sum.split)
  qed
qed

lemma endpoint_keeps:
  assumes D: "deployment_keeps I policies D"
  shows "maintains I (endpoint D call)"
proof -
  let ?b = "dep_backend D"
  from D have b: "backend_keeps I policies ?b" and h: "hasher_keeps I (dep_hasher D)"
    by (simp_all add: deployment_keeps_def)
  from b have s: "service_keeps I policies (get_article_service (dep_settings D) ?b)"
    and u: "users_configured I policies (user_repo ?b)"
    by (simp_all add: backend_keeps_def service_keeps_def get_article_service_def)
  have a: "users_configured I policies (users (auth_of D))" "hasher_keeps I (auth_hasher (auth_of D))"
    using u h by (simp_all add: auth_of_def get_auth_service_def)
  have probe: "maintains I (check name p t)" if "\<And>dl. maintains I (p dl)" for name t
    and p :: "('a served, unit) awaitable"
    using that by (auto simp: maintains_def check_def case_prod_beta split: completion.split sum.split)
  note rules = upkeep_rules in_request_keeps [OF b] s u a
  show ?thesis
  proof (cases call)
    case Ready
    from D show ?thesis
      unfolding Ready endpoint.simps ready_route_def Let_def deployment_keeps_def
      by (intro upkeep_rules probe) auto
  next
    case Scrape
    show ?thesis by (simp add: Scrape maintains_def metrics_route_def case_prod_beta)
  next
    case (Register address password)
    show ?thesis unfolding Register endpoint.simps register_route_def by (intro rules)
  next
    case (Login address password)
    show ?thesis unfolding Login endpoint.simps login_route_def Let_def by (intro rules)
  next
    case (CreateArticle new_title new_body)
    show ?thesis unfolding CreateArticle endpoint.simps create_route_def by (intro rules)
  next
    case (ListArticles limit cursor author)
    show ?thesis unfolding ListArticles endpoint.simps list_route_def Let_def by (intro rules)
  next
    case (GetArticle i)
    show ?thesis unfolding GetArticle endpoint.simps get_route_def by (intro rules)
  next
    case (UpdateArticle i new_title new_body if_match)
    show ?thesis unfolding UpdateArticle endpoint.simps update_route_def by (intro rules)
  next
    case (DeleteArticle i if_match)
    show ?thesis unfolding DeleteArticle endpoint.simps delete_route_def by (intro rules)
  qed (simp_all add: live_route_def maintains_return)
qed

end

end
