(* ===== verification/Metering.thy ===== *)
theory Metering
  imports Upkeep WebScenarios
begin

text \<open>
  The walk of theory \<open>Upkeep\<close> through the middleware, and its two uses: every time series the service
  ever exposes is one of a fixed finite set, and every breaker of the registry is well formed, keeps
  the configuration of its policy, and has its state on the gauge. Both are statements about any
  sequence of whole requests.
\<close>

subsection \<open>The statuses of the chain\<close>

lemma endpoint_answers:
  assumes "\<And>resp path. call = Framework resp path \<Longrightarrow> resp_status resp \<in> framework_statuses"
  shows "answers_within answered_statuses (endpoint D call)"
proof -
  note rules = answers_in_request answers_bind answers_raise
  show ?thesis
  proof (cases call)
    case Ready
    have "answers_within answered_statuses (if c then return_cmd (json_response 503 x)
        else return_cmd (json_response 200 y))" for c x y
      by (simp add: answers_return json_response_def answered_statuses_def)
    then show ?thesis unfolding Ready endpoint.simps ready_route_def Let_def by (intro rules)
  next
    case Scrape
    show ?thesis
      by (simp add: Scrape answers_within_def metrics_route_def case_prod_beta answered_statuses_def)
  next
    case (ListArticles limit cursor author)
    have "answers_within answered_statuses (if c then raise_cmd e else m)"
      if "answers_within answered_statuses m" for c e and m :: "('a served, response) command"
      using that by (simp add: answers_raise)
    then show ?thesis
      unfolding ListArticles endpoint.simps list_route_def Let_def
      by (intro rules) (auto intro!: rules simp: answers_return json_response_def answered_statuses_def)
  qed (use assms in \<open>auto intro!: rules simp: live_route_def metrics_route_def register_route_def
      login_route_def create_route_def get_route_def update_route_def delete_route_def answers_return
      json_response_def answered_statuses_def framework_statuses_def Let_def
      answers_withinI split: prod.split\<close>)
qed

lemma chain_answers:
  assumes m: "answers_within answered_statuses m"
  shows "answers_within answered_statuses (handle_exceptions env req m)"
    and "answers_within answered_statuses (auth_dispatch env lib settings req m)"
    and "answers_within answered_statuses (load_shed_dispatch shed env req m)"
proof -
  note S = answered_statuses_def
  have domain: "resp_status (fst (domain_error_handler env req e v)) \<in> answered_statuses" for e v
    by (cases e) (simp_all add: domain_error_handler_def Let_def case_prod_beta S)
  show "answers_within answered_statuses (handle_exceptions env req m)"
  proof (rule answers_withinI)
    fix w r w'
    assume h: "handle_exceptions env req m w = (Inr r, w')"
    obtain x v where x: "m w = (x, v)" by fastforce
    show "resp_status r \<in> answered_statuses"
    proof (cases x)
      case (Inr resp)
      with h x have "m w = (Inr r, w')" by (simp add: handle_exceptions_def)
      with m show ?thesis unfolding answers_within_def by blast
    next
      case (Inl e)
      with h x domain show ?thesis
        by (cases e) (auto simp: handle_exceptions_def map_prod_def case_prod_beta
            validation_error_handler_def S)
    qed
  qed
  show "answers_within answered_statuses (load_shed_dispatch shed env req m)"
    using m unfolding answers_within_def load_shed_dispatch_def shed_enter_def
    by (auto simp: Let_def S split: prod.splits if_splits)
  have "status \<in> answered_statuses" if "authorize q p = Some (status, code, msg)" for q p status code msg
    using authorize_status [OF that] by (simp add: S)
  then have "answers_within answered_statuses (auth_policy env req m)"
    using m unfolding answers_within_def auth_policy_def
    by (auto simp: Let_def split: option.splits)
  then show "answers_within answered_statuses (auth_dispatch env lib settings req m)"
    unfolding answers_within_def auth_dispatch_def auth_principal_def bind_cmd_def
    by (auto simp: Let_def S split: option.splits prod.splits sum.splits exn.splits domain_error.splits)
qed

subsection \<open>The layers\<close>

context upkeep
begin

lemma label_known:
  "upheld I w \<Longrightarrow> route_labels env \<subseteq> routes \<Longrightarrow> route_label env req w \<in> routes"
  using scoped match_route_table_closed [of env req]
  by (auto simp: upheld_def route_label_def route_template_def split: option.split)

lemma upheld_degraded:
  "upheld I w \<Longrightarrow> route_labels env \<subseteq> routes
    \<Longrightarrow> upheld I (log_metric (observe_degraded_response (route_label env req w) reason) w)"
  using label_known [of w env req] labelled_route_calls(1)
  by (simp add: upheld_def log_metric_def observe_degraded_response_def metered)

lemma handle_exceptions_keeps:
  assumes "maintains I m" and "route_labels env \<subseteq> routes"
  shows "maintains I (handle_exceptions env req m)"
proof (rule maintainsI)
  fix w :: "'a served"
  assume w: "upheld I w"
  obtain r w1 where 1: "m w = (r, w1)" by fastforce
  have w1: "upheld I w1" by (rule maintains_run [OF assms(1) 1 w])
  have "upheld I (snd (domain_error_handler env req e w1))" for e
    using w1 upheld_degraded [OF w1 assms(2)]
    by (auto simp: domain_error_handler_def Let_def case_prod_beta split: option.split)
  with 1 w1 show "upheld I (snd (handle_exceptions env req m w))"
    by (auto simp: handle_exceptions_def split: sum.split exn.split)
qed

lemma auth_dispatch_keeps:
  assumes "maintains I m"
  shows "maintains I (auth_dispatch env lib settings req m)"
proof -
  have "maintains I (auth_principal env lib settings req)"
    by (rule maintainsI) (auto simp: auth_principal_def Let_def split: option.split sum.split exn.split
        domain_error.split prod.split)
  moreover have "maintains I (auth_policy env req m)"
    using assms by (auto simp: maintains_def auth_policy_def Let_def split: option.split)
  ultimately show ?thesis unfolding auth_dispatch_def by (intro upkeep_rules)
qed

lemma load_shed_dispatch_keeps:
  assumes "maintains I m" and "route_labels env \<subseteq> routes"
  shows "maintains I (load_shed_dispatch shed env req m)"
proof (rule maintainsI)
  fix w :: "'a served"
  assume w: "upheld I w"
  obtain a w1 where 1: "shed_enter shed env req w = (a, w1)" by fastforce
  have w1: "upheld I w1"
    using 1 w upheld_degraded [OF w assms(2)]
    by (auto simp: shed_enter_def Let_def upheld_observed split: if_splits)
  have "upheld I (shed_exit v)" if "upheld I v" for v
    using that by (auto simp: shed_exit_def upheld_observed)
  with 1 w1 maintainsD [OF assms(1) w1] show "upheld I (snd (load_shed_dispatch shed env req m w))"
    by (auto simp: load_shed_dispatch_def case_prod_beta split: admission.split)
qed

lemma metrics_dispatch_keeps:
  assumes "maintains I m" and "answers_within answered_statuses m"
    and "route_labels env \<subseteq> routes" and "req_method req \<in> methods"
  shows "maintains I (metrics_dispatch env req m)"
proof (rule maintainsI)
  fix w :: "'a served"
  assume w: "upheld I w"
  obtain r w1 where 1: "m w = (r, w1)" by fastforce
  have w1: "upheld I w1" by (rule maintains_run [OF assms(1) 1 w])
  have "upheld I (metrics_observe env req status started w1)" if "status \<in> answered_statuses" for status started
    using w1 label_known [OF w1 assms(3)] that assms(4) labelled_route_calls(2,3)
      metered [OF metered, of "breakers w1" "metrics w1" "scope_route w1"]
    by (auto simp: metrics_observe_def Let_def observe_request_def upheld_def log_metric_def)
  moreover have "500 \<in> answered_statuses" by (simp add: answered_statuses_def)
  moreover have "resp_status resp \<in> answered_statuses" if "r = Inr resp" for resp
    using assms(2) 1 that unfolding answers_within_def by blast
  ultimately show "upheld I (snd (metrics_dispatch env req m w))"
    using 1 w1 by (auto simp: metrics_dispatch_def Let_def split: sum.split)
qed

lemma upheld_annotate: "upheld I w \<Longrightarrow> upheld I (snd (annotate_current_span rid w))"
  by (simp add: annotate_current_span_def split: option.split)

lemma outer_layers_keep:
  assumes "maintains I m"
  shows "maintains I (access_log_dispatch env req m)" and "maintains I (request_id_dispatch env req m)"
    and "maintains I (handle_server_errors env m)"
proof -
  show "maintains I (access_log_dispatch env req m)"
    using assms by (auto simp: maintains_def access_log_dispatch_def Let_def split: sum.split prod.split)
  show "maintains I (handle_server_errors env m)"
    using assms by (auto simp: maintains_def handle_server_errors_def split: sum.split prod.split)
  show "maintains I (request_id_dispatch env req m)"
  proof (rule maintainsI)
    fix w :: "'a served"
    assume w: "upheld I w"
    from w show "upheld I (snd (request_id_dispatch env req m w))"
      unfolding request_id_dispatch_def Let_def case_prod_beta
      by (intro maintainsD [OF maintains_bind] assms maintains_return) (simp add: upheld_annotate split: option.split)
  qed
qed

text \<open>A request the application knows: its method, its route, and a status of the framework's own.\<close>

lemma exchange_keeps:
  assumes D: "deployment_keeps I policies D" and labels: "route_labels (dep_env D) \<subseteq> routes"
    and req: "well_received (dep_env D) methods rq"
  shows "maintains I (exchange D rq)"
proof -
  obtain req call where rq: "rq = (req, call)" by fastforce
  have routed: "maintains I (routed D call)"
  proof (rule maintainsI)
    fix w :: "'a served"
    assume "upheld I w"
    moreover have "path \<in> routes" if "call_template call = Some path" for path
      using that req labels by (auto simp: well_received_def rq)
    ultimately have "upheld I (w\<lparr>scope_route := call_template call\<rparr>)"
      by (simp add: upheld_def rescoped)
    then show "upheld I (snd (routed D call w))"
      unfolding routed_def by (rule maintainsD [OF endpoint_keeps [OF D]])
  qed
  have statuses: "answers_within answered_statuses (routed D call)"
    using endpoint_answers [of call D] req
    by (auto simp: answers_within_def routed_def well_received_def rq)
  have chain: "maintains I (app req)"
    if "create_app (dep_env D) (dep_jwt D) (dep_settings D) (routed D call) = Inr app" for app
    using that labels req
    by (auto simp: create_app_def sum_bind_eq_Inr rq well_received_def intro!: outer_layers_keep
        metrics_dispatch_keeps load_shed_dispatch_keeps auth_dispatch_keeps handle_exceptions_keeps
        chain_answers routed statuses)
  show ?thesis
  proof (rule maintainsI)
    fix w :: "'a served"
    assume w: "upheld I w"
    then have "upheld I (w\<lparr>scope_route := None\<rparr>)"
      using rescoped [of "breakers w" "metrics w" "scope_route w" None] by (simp add: upheld_def)
    with w maintainsD [OF chain] show "upheld I (snd (exchange D rq w))"
      by (auto simp: exchange_def rq split: sum.split)
  qed
qed

theorem serve_all_keeps:
  assumes "deployment_keeps I policies D" and "route_labels (dep_env D) \<subseteq> routes"
    and "\<And>rq. rq \<in> set rqs \<Longrightarrow> well_received (dep_env D) methods rq" and "upheld I w"
  shows "upheld I (serve_all D rqs w)"
  using assms(3,4)
proof (induction rqs arbitrary: w)
  case (Cons rq rqs)
  have "upheld I (snd (exchange D rq w))"
    by (rule maintainsD [OF exchange_keeps [OF assms(1,2)]]) (use Cons.prems in auto)
  with Cons show ?case by simp
qed simp

end

subsection \<open>The series of the service\<close>

text \<open>Every call on the registry of the process and by the breakers it holds is labelled.\<close>

definition metered :: "string set \<Rightarrow> string set \<Rightarrow> invariant" where
  "metered routes methods bs ms sc \<longleftrightarrow>
     (\<forall>c \<in> set ms. labelled routes methods c)
     \<and> (\<forall>d b. bs d = Some b \<longrightarrow> (\<forall>c \<in> set (cb_metrics b). labelled routes methods c))
     \<and> (\<forall>path. sc = Some path \<longrightarrow> path \<in> routes)"

lemma breaker_calls_labelled:
  assumes "\<forall>c \<in> set (cb_metrics b). labelled R M c"
  shows "\<forall>c \<in> set (cb_metrics (snd (allow t b))). labelled R M c"
    and "\<forall>c \<in> set (cb_metrics (record_success b)). labelled R M c"
    and "\<forall>c \<in> set (cb_metrics (record_failure t b)). labelled R M c"
  using assms
  by (auto simp: breaker_defs observe_breaker_transition_def set_breaker_state_def Let_def)

lemma new_breaker_labelled: "\<forall>c \<in> set (cb_metrics (new_breaker d n r h [])). labelled R M c"
  by (simp add: new_breaker_def set_breaker_state_def Let_def)

lemma metered_update:
  assumes "metered R M bs ms sc" and "\<forall>c \<in> set (cb_metrics b). labelled R M c"
  shows "metered R M (bs(d \<mapsto> b)) ms sc"
  using assms by (simp add: metered_def)

lemma metered_calls:
  "metered R M bs ms sc \<Longrightarrow> bs d = Some b \<Longrightarrow> \<forall>c \<in> set (cb_metrics b). labelled R M c"
  by (simp add: metered_def)

interpretation metering: upkeep "metered routes methods" policies routes methods
  for policies routes methods
proof (unfold_locales, goal_cases)
  case (2 bs ms sc d b t)
  then show ?case by (intro metered_update breaker_calls_labelled(1) metered_calls)
next
  case (3 bs ms sc d b)
  then show ?case by (intro metered_update breaker_calls_labelled(2) metered_calls)
next
  case (4 bs ms sc d b t)
  then show ?case by (intro metered_update breaker_calls_labelled(3) metered_calls)
next
  case (5 bs ms sc d p)
  then show ?case by (intro metered_update new_breaker_labelled)
qed (simp_all add: metered_def)

definition exposed_series :: "'m served \<Rightarrow> (collector_kind \<times> string \<times> string list) set" where
  "exposed_series w = series_of ` (set (metrics w) \<union> (\<Union>b \<in> ran (breakers w). set (cb_metrics b)))"

text \<open>C30. The scrape stays small whatever clients send. However many requests a process serves, and
  whatever their paths, bodies, tokens and headers, every metric call it makes is on a declared
  collector with one value per label, each from its closed set (a route template, a method of HTTP, a
  status the service answers, a bucketed name); so the number of time series it ever exposes is
  bounded by its routes and the methods alone.\<close>

theorem series_bounded:
  assumes "deployment_keeps (metered (route_labels (dep_env D)) methods) policies D"
    and "\<forall>rq \<in> set rqs. well_received (dep_env D) methods rq" and "finite methods"
    and "metrics w = []" and "breakers w = Map.empty" and "scope_route w = None"
  shows "exposed_series (serve_all D rqs w) \<subseteq> declared_series (route_labels (dep_env D)) methods
    \<and> card (exposed_series (serve_all D rqs w))
        \<le> 14 * (card (route_labels (dep_env D)) * card methods) + 4 * card (route_labels (dep_env D)) + 45"
proof -
  let ?R = "route_labels (dep_env D)"
  have "upheld (metered ?R methods) w" using assms(4-6) by (simp add: upheld_def metered_def)
  then have "upheld (metered ?R methods) (serve_all D rqs w)"
    by (intro metering.serve_all_keeps [OF assms(1)]) (use assms(2) in auto)
  then have sub: "exposed_series (serve_all D rqs w) \<subseteq> declared_series ?R methods"
    by (auto simp: upheld_def metered_def exposed_series_def labelled_def ran_def)
  have bound: "finite (declared_series ?R methods)
    \<and> card (declared_series ?R methods) \<le> 14 * (card ?R * card methods) + 4 * card ?R + 45"
    by (rule declared_series_bounded [OF finite_route_labels assms(3)])
  with sub card_mono [of "declared_series ?R methods" "exposed_series (serve_all D rqs w)"] show ?thesis
    by linarith
qed

subsection \<open>The registry of breakers\<close>

definition sound_registry :: "(string \<rightharpoonup> dependency_policy) \<Rightarrow> invariant" where
  "sound_registry policies bs ms sc \<longleftrightarrow>
     (\<forall>d b. bs d = Some b \<longrightarrow>
        (\<exists>p. policies d = Some p
           \<and> same_config (new_breaker d (pol_failure_threshold p) (pol_reset_seconds p)
                            (pol_half_open_max_calls p) []) b
           \<and> (policy_ok p \<longrightarrow> breaker_ok b))
        \<and> gauge_agrees b)"

lemma sound_registry_update:
  assumes "sound_registry policies bs ms sc" and "bs d = Some b"
    and "same_config b b'" and "breaker_ok b \<Longrightarrow> breaker_ok b'" and "gauge_agrees b \<Longrightarrow> gauge_agrees b'"
  shows "sound_registry policies (bs(d \<mapsto> b')) ms sc"
proof -
  from assms(1,2) obtain p where p: "policies d = Some p" "gauge_agrees b" "policy_ok p \<longrightarrow> breaker_ok b"
    "same_config (new_breaker d (pol_failure_threshold p) (pol_reset_seconds p) (pol_half_open_max_calls p) []) b"
    unfolding sound_registry_def by blast
  note same_config_trans [OF p(4) assms(3)]
  with assms(1) p(1-3) assms(4,5) show ?thesis by (simp add: sound_registry_def)
qed

interpretation registry_upkeep: upkeep "sound_registry policies" policies UNIV UNIV
  for policies
proof (unfold_locales, goal_cases)
  case (2 bs ms sc d b t)
  then show ?case
    by (rule sound_registry_update) (use gauge_agrees_step [of b "Ask t"] in \<open>simp_all add: allow_ok\<close>)
next
  case (3 bs ms sc d b)
  then show ?case
    by (rule sound_registry_update) (use gauge_agrees_step [of b Good] in \<open>simp_all add: record_success_ok\<close>)
next
  case (4 bs ms sc d b t)
  then show ?case
    by (rule sound_registry_update) (use gauge_agrees_step [of b "Bad t"] in \<open>simp_all add: record_failure_ok\<close>)
next
  case (5 bs ms sc d p)
  then show ?case
    by (auto simp: sound_registry_def gauge_agrees_new policy_ok_def intro!: new_breaker_ok)
qed (simp_all add: sound_registry_def)

text \<open>C23. The registry stays sound. From a process that has just started with the policies its settings
  build, after any number of requests every breaker in the registry is the one of MySQL or of Redis,
  has the thresholds of its policy, has consistent fields (fewer failures than the threshold, no more
  probes than the limit, none unless half-open), and shows its state on the gauge.\<close>

theorem registry_sound:
  assumes "build_policies s = Inr policies" and "deployment_keeps (sound_registry policies) policies D"
    and "\<forall>rq \<in> set rqs. well_received (dep_env D) UNIV rq" and "breakers w = Map.empty"
    and "breakers (serve_all D rqs w) d = Some b"
  shows "d \<in> {''mysql'', ''redis''} \<and> cb_name b = d
    \<and> failure_threshold b = breaker_failure_threshold s \<and> reset_seconds b = breaker_reset_seconds s
    \<and> half_open_max_calls b = breaker_half_open_max_calls s \<and> breaker_ok b \<and> gauge_agrees b"
proof -
  have "upheld (sound_registry policies) w" using assms(4) by (simp add: upheld_def sound_registry_def)
  then have "upheld (sound_registry policies) (serve_all D rqs w)"
    by (intro registry_upkeep.serve_all_keeps [OF assms(2)]) (use assms(3) in auto)
  with assms(5) obtain p where p: "policies d = Some p" "gauge_agrees b" "policy_ok p \<longrightarrow> breaker_ok b"
    "same_config (new_breaker d (pol_failure_threshold p) (pol_reset_seconds p) (pol_half_open_max_calls p) []) b"
    unfolding upheld_def sound_registry_def by blast
  from build_policies_accepted [OF assms(1)]
  have dom: "dom policies = {''mysql'', ''redis''}" and ok: "policy_ok (database_policy s)" "policy_ok (cache_policy s)"
    and at: "policies ''mysql'' = Some (database_policy s)" "policies ''redis'' = Some (cache_policy s)"
    by blast+
  have "d \<in> dom policies" using p(1) by blast
  with dom have d: "d = ''mysql'' \<or> d = ''redis''" by simp
  with p(1) at have "p = database_policy s \<or> p = cache_policy s" by (elim disjE) simp_all
  with ok have "policy_ok p" "pol_failure_threshold p = breaker_failure_threshold s"
    "pol_reset_seconds p = breaker_reset_seconds s" "pol_half_open_max_calls p = breaker_half_open_max_calls s"
    by (elim disjE; simp add: database_policy_def cache_policy_def)+
  with p d show ?thesis by (simp add: same_config_def new_breaker_def)
qed

subsection \<open>The reference deployment\<close>

text \<open>The routing table of the service, and its reference environment behind it.\<close>

definition service_routes :: "route list" where
  "service_routes =
     map (\<lambda>(verbs, path). Route [] [] (Some path) (demo_matches verbs (\<lambda>p. startswith p path)))
       [([''GET''], ''/health/live''), ([''GET''], ''/health/ready''), ([''GET''], METRICS_PATH),
        ([''POST''], ''/v1/auth/register''), ([''POST''], ''/v1/auth/login''),
        ([''GET'', ''POST''], ''/v1/articles''),
        ([''GET'', ''PUT'', ''DELETE''], ''/v1/articles/{article_id}'')]"

definition web_deployment :: "(invalidation, store) web_scheme deployment" where
  "web_deployment =
     \<lparr>dep_env = demo_env\<lparr>app_routes := service_routes\<rparr>, dep_jwt = \<lparr>jwt_encode = (\<lambda>c key alg. []), jwt_decode = (\<lambda>t s key algs. None)\<rparr>,
      dep_settings = default_settings, dep_backend = web_backend,
      dep_hasher = \<lparr>argon2_hash = (\<lambda>p. return_cmd p), argon2_verify = (\<lambda>d p. return_cmd Argon2Error)\<rparr>,
      dep_email = Some, dep_breached = (\<lambda>p. False), dep_instance = ''a'', dep_class_name = (\<lambda>e. []),
      dep_probe_mysql = (\<lambda>dl w. (Done (Inr ()), w)), dep_probe_redis = (\<lambda>dl w. (Done (Inr ()), w)),
      dep_render = (\<lambda>w. ([], []))\<rparr>"

lemma inside_keeps:
  assumes "\<And>v. breakers (snd (f v)) = breakers v" and "\<And>v. metrics (snd (f v)) = metrics v"
  shows "maintains I (inside f)"
  using assms
  by (intro maintainsI) (simp add: inside_def case_prod_beta back_in_def upheld_def as_world_def)

lemma web_deployment_keeps: "deployment_keeps I (svc_policies demo_service) web_deployment"
  by (simp add: deployment_keeps_def backend_keeps_def service_keeps_def users_configured_def
      sql_keeps_def users_keep_def client_keeps_def hasher_keeps_def web_deployment_def web_backend_def
      web_service_def web_users_def web_sql_def web_redis_def maintains_return)
    (auto simp: memory_sql_def memory_kv_def demo_commit_def demo_rollback_cmd_def put_rows_def
      put_entries_def maintains_pair case_prod_beta intro!: inside_keeps split: option.split)

definition started :: "(invalidation, store) web_scheme" where
  "started = web_world\<lparr>breakers := Map.empty\<rparr>"

definition login_request :: "http_request \<times> api_call" where
  "login_request =
     (\<lparr>req_method = ''POST'', req_path = ''/v1/auth/login'', req_headers = []\<rparr>, Login ''a@b.c'' ''guess'')"

lemma web_deployment_routes:
  "route_labels (dep_env web_deployment) =
     {UNMATCHED_ROUTE, ''/health/live'', ''/health/ready'', METRICS_PATH, ''/v1/auth/register'',
      ''/v1/auth/login'', ''/v1/articles'', ''/v1/articles/{article_id}''}"
  by (auto simp: route_labels_def web_deployment_def service_routes_def)

lemma web_deployment_labels: "card (route_labels (dep_env web_deployment)) = 8"
  by (simp add: web_deployment_routes UNMATCHED_ROUTE_def METRICS_PATH_def)

lemma login_received:
  "{''GET'', ''POST''} \<subseteq> M \<Longrightarrow> well_received (dep_env web_deployment) M login_request"
  by (auto simp: well_received_def login_request_def web_deployment_routes)

lemma login_run:
  "CounterInc ''http_requests_total'' [''/v1/auth/login'', ''POST'', ''401'']
     \<in> set (metrics (serve_all web_deployment [login_request] started))"
  "map_option cb_state (breakers (serve_all web_deployment [login_request] started) ''mysql'') = Some CLOSED"
  by code_simp+

theorem series_bounded_witness:
  "(Counter, ''http_requests_total'', [''/v1/auth/login'', ''POST'', ''401''])
     \<in> declared_series (route_labels (dep_env web_deployment)) {''GET'', ''POST''}
   \<and> card (exposed_series (serve_all web_deployment [login_request] started)) \<le> 301"
proof -
  have "(Counter, ''http_requests_total'', [''/v1/auth/login'', ''POST'', ''401''])
      \<in> exposed_series (serve_all web_deployment [login_request] started)"
    unfolding exposed_series_def using login_run(1) by (intro image_eqI [OF _ UnI1]) auto
  moreover have "exposed_series (serve_all web_deployment [login_request] started)
      \<subseteq> declared_series (route_labels (dep_env web_deployment)) {''GET'', ''POST''}
    \<and> card (exposed_series (serve_all web_deployment [login_request] started))
      \<le> 14 * (card (route_labels (dep_env web_deployment)) * card {''GET'', ''POST''})
         + 4 * card (route_labels (dep_env web_deployment)) + 45"
    by (rule series_bounded [OF web_deployment_keeps])
      (auto simp: login_received started_def web_world_def)
  ultimately show ?thesis by (auto simp: web_deployment_labels)
qed

theorem registry_sound_witness:
  "\<exists>b. breakers (serve_all web_deployment [login_request] started) ''mysql'' = Some b
     \<and> failure_threshold b = breaker_failure_threshold default_settings \<and> breaker_ok b \<and> gauge_agrees b"
proof -
  obtain b where b: "breakers (serve_all web_deployment [login_request] started) ''mysql'' = Some b"
    using login_run(2) by blast
  have "build_policies default_settings = Inr (svc_policies demo_service)"
    using build_policies_default by (simp add: demo_service_def)
  from registry_sound [OF this web_deployment_keeps _ _ b] b show ?thesis
    by (simp add: login_received started_def)
qed

text \<open>
  The method label is the request line's, unlike every other: a caller without a token gets a series
  per method it makes up. That there are finitely many (\<open>methods\<close> above) is the doing of the HTTP
  parser in front of the application, which refuses the methods it does not know.
\<close>

theorem method_label_unchecked:
  "CounterInc ''http_requests_total'' [''/v1/articles'', ''BREW'', ''401'']
     \<in> set (metrics (serve_all web_deployment
         [(\<lparr>req_method = ''BREW'', req_path = ''/v1/articles'', req_headers = []\<rparr>, Live)] started))"
  by code_simp

end
