(* ===== verification/AuthScenarios.thy ===== *)
theory AuthScenarios
  imports Routers
begin

text \<open>
  A users table and a hasher in memory, on which the properties of the authentication service run, and
  the race of two registrations.
\<close>

type_synonym people_state = "(invalidation, user list \<times> nat) web_scheme"

definition set_people :: "user list \<Rightarrow> people_state \<Rightarrow> people_state" where
  "set_people us w = w\<lparr>web.more := (us, snd (web.more w))\<rparr>"

definition next_id :: "user list \<Rightarrow> int" where
  "next_id us = fold (\<lambda>u m. max (user_id u + 1) m) us 1"

lemma next_id_above: "m \<le> fold (\<lambda>u m. max (user_id u + 1) m) us m
    \<and> (\<forall>u \<in> set us. user_id u < fold (\<lambda>u m. max (user_id u + 1) m) us m)"
proof (induction us arbitrary: m)
  case (Cons u us)
  from Cons.IH [of "max (user_id u + 1) m"] show ?case by force
qed simp

definition demo_role :: role where
  "demo_role = \<lparr>role_id = 1, role_name = ''user'', role_created_at = 0\<rparr>"

definition new_user :: "user list \<Rightarrow> string \<Rightarrow> string \<Rightarrow> role \<Rightarrow> user" where
  "new_user us e h r =
     \<lparr>user_id = next_id us, email = e, password_hash = h, user_created_at = 0, user_updated_at = 0,
      user_role = r\<rparr>"

definition memory_users :: "people_state user_session" where
  "memory_users =
     \<lparr>session_get_user = (\<lambda>i dl w. (Done (Inr (find (\<lambda>u. user_id u = i) (fst (web.more w)))), w)),
      select_user_by_email = (\<lambda>e dl w. (Done (Inr (filter (\<lambda>u. email u = e) (fst (web.more w)))), w)),
      select_role_by_name = (\<lambda>n dl w. (Done (Inr (if n = ''user'' then [demo_role] else [])), w)),
      flush_user = (\<lambda>e h r dl w.
        let us = fst (web.more w) in
        if e \<in> email ` set us then (Done (Inl (IntegrityError ''Duplicate entry'')), w)
        else (Done (Inr (new_user us e h r)), set_people (us @ [new_user us e h r]) w)),
      users_rollback = (\<lambda>dl w. (Done (Inr ()), w))\<rparr>"

lemma later_refl [simp]: "later w w"
  by (simp add: later_def exI [of _ "now w"])

lemma memory_users_db: "user_db memory_users fst snd demo_role"
  unfolding user_db_def
proof (intro conjI allI impI, goal_cases)
  case (4 e h r dl w)
  then have "flush_user memory_users e h r dl w
      = (Done (Inr (new_user (fst (web.more w)) e h r)),
         set_people (fst (web.more w) @ [new_user (fst (web.more w)) e h r]) w)"
    by (simp add: memory_users_def Let_def)
  moreover have "next_id (fst (web.more w)) \<notin> user_id ` set (fst (web.more w))"
    "0 < next_id (fst (web.more w))"
    using next_id_above [of 1 "fst (web.more w)"] unfolding next_id_def by force+
  ultimately show ?case by (simp add: set_people_def new_user_def)
qed (auto simp: memory_users_def)

definition charge :: "people_state \<Rightarrow> people_state" where
  "charge w = w\<lparr>web.more := (fst (web.more w), Suc (snd (web.more w)))\<rparr>"

definition demo_fits :: "string \<Rightarrow> string \<Rightarrow> bool" where
  "demo_fits h p \<longleftrightarrow> h = CHR ''$'' # p"

definition demo_hasher :: "people_state hasher" where
  "demo_hasher =
     \<lparr>argon2_hash = (\<lambda>p w. (Inr (CHR ''$'' # p), charge w)),
      argon2_verify = (\<lambda>h p w. (Inr (if demo_fits h p then Verified else Argon2Error), charge w))\<rparr>"

lemma demo_hasher_laws: "hasher_laws demo_hasher fst snd demo_fits"
  by (simp add: hasher_laws_def demo_hasher_def charge_def demo_fits_def)

definition demo_users :: "people_state user_session \<Rightarrow> people_state user_repository" where
  "demo_users us =
     \<lparr>users_session = us, users_policies = demo_policies, users_waits = (\<lambda>_. 0)\<rparr>"

definition demo_auth :: "people_state user_session \<Rightarrow> people_state auth_service" where
  "demo_auth us =
     \<lparr>users = demo_users us, auth_hasher = demo_hasher, auth_jwt = demo_jwt,
      auth_settings = demo_secrets, auth_wall = now\<rparr>"

definition people_world :: "user list \<Rightarrow> people_state" where
  "people_world us =
     \<lparr>now = 0, breakers = [''mysql'' \<mapsto> demo_closed], metrics = [], session_info = None,
      cache = new_article_cache True, state_request_id = None, state_principal = None,
      scope_route = None, context_vars = [], inflight = 0, log_lines = [], active_span = None,
      spans = [], dummy_hash_cache = None, \<dots> = (us, 0)\<rparr>"

lemma people_world_up [simp]: "users_up (demo_users us) (people_world ps)"
  by (simp add: users_up_def demo_users_def people_world_def)

lemma people_world_more [simp]: "web.more (people_world us) = (us, 0)"
  by (simp add: people_world_def)

lemma demo_auth_fields [simp]:
  "users (demo_auth us) = demo_users us" "users_session (demo_users us) = us"
  "auth_hasher (demo_auth us) = demo_hasher"
  by (simp_all add: demo_auth_def demo_users_def)


text \<open>An unknown address, and a known one with the wrong password.\<close>

definition demo_account :: user where
  "demo_account = new_user [] ''a@x.org'' ''$correct horse'' demo_role"


theorem token_leads_to_account_witness:
  "\<exists>token. create_access_token demo_jwt demo_secrets 100 ''1'' ''user'' = Inr token
     \<and> decode_access_token demo_jwt demo_secrets 200 token = Inr (''1'', JStr ''user'')"
proof -
  have u: "user_id demo_account = 1" "role_name (user_role demo_account) = ''user''"
    by (simp_all add: demo_account_def new_user_def next_id_def demo_role_def)
  have one: "str_int 1 = ''1''"
    by code_simp
  obtain token where t: "create_access_token demo_jwt demo_secrets 100 ''1'' ''user'' = Inr token"
    by (simp add: create_access_token_def)
  have db: "user_db (users_session (demo_users memory_users)) fst snd demo_role"
    by (simp add: memory_users_db)
  have "decode_access_token demo_jwt demo_secrets 200 token
      = Inr (str_int (user_id demo_account), JStr (role_name (user_role demo_account)))"
    using token_leads_to_account [of demo_jwt demo_secrets 100 demo_account token 200
        "demo_users memory_users" fst snd demo_role "people_world []", OF demo_jwt_laws _ _ _ _ _ _ _ _ db]
      t by (simp add: u one)
  with t show ?thesis by (simp add: u one)
qed

subsection \<open>Two registrations of one address\<close>

text \<open>
  The table as a racing registration sees it: its lookup ran before the other request committed, its
  insertion after.
\<close>

definition racing_users :: "people_state user_session" where
  "racing_users = memory_users\<lparr>select_user_by_email := (\<lambda>e dl w. (Done (Inr []), w))\<rparr>"

definition registration_answer :: "people_state user_session \<Rightarrow> user list \<Rightarrow> exn + response" where
  "registration_answer us ps =
     fst (handle_server_errors demo_env
       (handle_exceptions demo_env \<lparr>req_method = ''POST'', req_path = ''/v1/auth/register'', req_headers = []\<rparr>
         (bind_cmd (register (demo_auth us) ''a@x.org'' ''correct horse'')
           (\<lambda>u. return_cmd (json_response 201 (user_out u)))))
       (people_world ps))"

lemma demo_users_call:
  assumes "op 3 w = (Done (Inr a), v)" and "breakers w ''mysql'' = Some b" and "cb_state b = CLOSED"
    and "now w = 0"
  shows "guarded_call (users_policies (demo_users us)) waits ''mysql'' hook retry op w
    = (Inr a, breaker_succeeds ''mysql'' v)"
  by (rule guarded_call_first_try [where p = "database_policy default_settings"])
    (use assms in \<open>simp_all add: demo_users_def\<close>)


subsection \<open>Readiness and If-Match at concrete inputs\<close>

theorem if_match_roundtrip_witness:
  "parse_if_match
     \<lparr>dump_article_json = (\<lambda>_. []), validate_article_json = (\<lambda>_. None), dump_summary = (\<lambda>_. JNull),
      validate_summary = (\<lambda>_. None), json_dumps = (\<lambda>_. []), json_loads = (\<lambda>_. None),
      isoformat = str_int, fromisoformat = (\<lambda>s. if s = ''7'' then Some 7 else None)\<rparr>
     (Some (CHR 0x22 # ''7'' @ [CHR 0x22])) = Inr 7"
proof -
  let ?c = "\<lparr>dump_article_json = (\<lambda>_. []), validate_article_json = (\<lambda>_. None), dump_summary = (\<lambda>_. JNull),
      validate_summary = (\<lambda>_. None), json_dumps = (\<lambda>_. []), json_loads = (\<lambda>_. None),
      isoformat = str_int, fromisoformat = (\<lambda>s. if s = ''7'' then Some 7 else None)\<rparr>"
  have s: "isoformat ?c 7 = ''7''" by code_simp
  then have "parse_if_match ?c (Some (CHR 0x22 # isoformat ?c 7 @ [CHR 0x22])) = Inr 7"
    by (intro if_match_roundtrip [THEN conjunct2, THEN conjunct1]) (simp_all add: is_space_def)
  with s show ?thesis by simp
qed

theorem readiness_verdict_witness:
  "\<exists>resp w'. ready_route default_settings (\<lambda>_. ''TimeoutError'') (\<lambda>dl w. (Done (Inr ()), w))
       (\<lambda>dl w. (Expired, w\<lparr>now := max (now w) dl\<rparr>)) (people_world []) = (Inr resp, w')
     \<and> resp_status resp = 200 \<and> now w' \<le> 4"
proof -
  have "never_cancelled (\<lambda>dl (w :: people_state). (Done (Inr ()), w))"
    "never_cancelled (\<lambda>dl (w :: people_state). (Expired :: unit completion, w\<lparr>now := max (now w) dl\<rparr>))"
    "prompt (\<lambda>dl (w :: people_state). (Done (Inr ()), w))"
    "prompt (\<lambda>dl (w :: people_state). (Expired :: unit completion, w\<lparr>now := max (now w) dl\<rparr>))"
    by (simp_all add: never_cancelled_def prompt_def)
  from readiness_verdict [OF this, of default_settings "\<lambda>_. ''TimeoutError''" "people_world []"]
  show ?thesis
    by (auto simp: default_settings_def probe_ok_def Let_def people_world_def)
qed

end
