(* ===== verification/Tracing.thy ===== *)
theory Tracing
  imports Settings
begin

text \<open>
  The installation of tracing, \<open>app/observability/tracing.py\<close>: the state of the process it changes is
  the record \<open>tracing\<close> (the installed provider with its span processors, the two module latches, the
  libraries and the applications instrumented so far). \<open>traced\<close> and \<open>annotate_current_span\<close> are in
  theory \<open>Context\<close>.
\<close>

datatype span_processor = Otlp string | Given nat     \<comment> \<open>the OTLP exporter; one of the caller\<close>

record resource =
  service_name :: string
  service_version :: string

record tracing =
  sdk_provider :: "resource option"
  span_processors :: "span_processor list"
  exporter_installed :: bool
  libraries_installed :: bool
  library_instruments :: "string list"
  instrumented_apps :: "nat list"

definition fresh_tracing :: tracing where
  "fresh_tracing =
     \<lparr>sdk_provider = None, span_processors = [], exporter_installed = False,
      libraries_installed = False, library_instruments = [], instrumented_apps = []\<rparr>"

definition tracing_enabled :: "settings \<Rightarrow> bool" where
  "tracing_enabled settings \<longleftrightarrow> strip (otel_exporter_otlp_endpoint settings) \<noteq> []"

definition build_resource :: "string \<Rightarrow> settings \<Rightarrow> resource" where
  "build_resource version settings =
     \<lparr>service_name = otel_service_name settings, service_version = version\<rparr>"

definition install_provider :: "string \<Rightarrow> settings \<Rightarrow> tracing \<Rightarrow> tracing" where
  "install_provider version settings t =
     (case sdk_provider t of
        Some _ \<Rightarrow> t
      | None \<Rightarrow> t\<lparr>sdk_provider := Some (build_resource version settings)\<rparr>)"

definition add_processor :: "span_processor \<Rightarrow> tracing \<Rightarrow> tracing" where
  "add_processor p t = t\<lparr>span_processors := span_processors t @ [p]\<rparr>"

definition install_processor :: "settings \<Rightarrow> span_processor option \<Rightarrow> tracing \<Rightarrow> tracing" where
  "install_processor settings processor t =
     (case processor of
        Some p \<Rightarrow> add_processor p t
      | None \<Rightarrow>
          if exporter_installed t then t
          else (add_processor (Otlp (strip (otel_exporter_otlp_endpoint settings))) t)
                 \<lparr>exporter_installed := True\<rparr>)"

definition instrument_libraries :: "tracing \<Rightarrow> tracing" where
  "instrument_libraries t =
     (if libraries_installed t then t
      else t\<lparr>library_instruments := library_instruments t @ [''sqlalchemy'', ''redis''],
             libraries_installed := True\<rparr>)"

definition instrument_app :: "nat option \<Rightarrow> tracing \<Rightarrow> tracing" where
  "instrument_app app t =
     (case app of
        Some a \<Rightarrow>
          if a \<in> set (instrumented_apps t) then t
          else t\<lparr>instrumented_apps := instrumented_apps t @ [a]\<rparr>
      | None \<Rightarrow> t)"

definition configure_tracing ::
  "string \<Rightarrow> settings \<Rightarrow> nat option \<Rightarrow> span_processor option \<Rightarrow> tracing \<Rightarrow> bool \<times> tracing" where
  "configure_tracing version settings app processor t =
     (if processor = None \<and> \<not> tracing_enabled settings then (False, t)
      else
        (True,
         instrument_app app
           (instrument_libraries
             (install_processor settings processor (install_provider version settings t)))))"

text \<open>A process configures tracing any number of times, as the app factory of the tests does.\<close>

fun configure_all ::
  "string \<Rightarrow> (settings \<times> nat option \<times> span_processor option) list \<Rightarrow> tracing \<Rightarrow> tracing" where
  "configure_all version [] t = t"
| "configure_all version ((settings, app, processor) # calls) t =
     configure_all version calls (snd (configure_tracing version settings app processor t))"

fun is_otlp :: "span_processor \<Rightarrow> bool" where
  "is_otlp (Otlp _) = True"
| "is_otlp (Given _) = False"

definition tracing_ok :: "tracing \<Rightarrow> bool" where
  "tracing_ok t \<longleftrightarrow>
     length (filter is_otlp (span_processors t)) = (if exporter_installed t then 1 else 0)
     \<and> library_instruments t = (if libraries_installed t then [''sqlalchemy'', ''redis''] else [])
     \<and> distinct (instrumented_apps t)
     \<and> (span_processors t \<noteq> [] \<or> libraries_installed t \<longrightarrow> sdk_provider t \<noteq> None)"

lemma install_provider_ok:
  assumes "tracing_ok t"
  shows "tracing_ok (install_provider version settings t)
    \<and> sdk_provider (install_provider version settings t) \<noteq> None"
  using assms by (cases "sdk_provider t") (auto simp: tracing_ok_def install_provider_def)

lemma install_processor_ok:
  assumes "tracing_ok t" and "sdk_provider t \<noteq> None" and "\<forall>p. processor = Some p \<longrightarrow> \<not> is_otlp p"
  shows "tracing_ok (install_processor settings processor t)
    \<and> sdk_provider (install_processor settings processor t) \<noteq> None"
proof (cases processor)
  case (Some p)
  with assms show ?thesis by (simp add: tracing_ok_def install_processor_def add_processor_def)
next
  case None
  with assms show ?thesis
    by (cases "exporter_installed t") (simp_all add: tracing_ok_def install_processor_def add_processor_def)
qed

lemma instrument_ok:
  assumes "tracing_ok t" and "sdk_provider t \<noteq> None"
  shows "tracing_ok (instrument_app app (instrument_libraries t))"
proof -
  have "tracing_ok (instrument_libraries t)"
    using assms by (cases "libraries_installed t") (simp_all add: tracing_ok_def instrument_libraries_def)
  then show ?thesis
    by (cases app) (auto simp: tracing_ok_def instrument_app_def)
qed

lemma configure_tracing_ok:
  assumes "tracing_ok t" and "\<forall>p. processor = Some p \<longrightarrow> \<not> is_otlp p"
  shows "tracing_ok (snd (configure_tracing version settings app processor t))"
  using assms install_provider_ok [of t version settings]
    install_processor_ok [of "install_provider version settings t" processor settings] instrument_ok
  by (simp add: configure_tracing_def)

lemma configure_all_ok:
  assumes "tracing_ok t" and "\<forall>(settings, app, p) \<in> set calls. \<forall>q. p = Some q \<longrightarrow> \<not> is_otlp q"
  shows "tracing_ok (configure_all version calls t)"
  using assms
proof (induction version calls t rule: configure_all.induct)
  case (2 version settings app processor calls t)
  then show ?case using configure_tracing_ok [of t processor version settings app] by simp
qed simp

text \<open>Tracing is installed once. However often and with whatever settings a process configures it,
  it ends with at most one OTLP exporter, each library instrumented at most once, each application at
  most once, and an SDK provider under every processor; with no endpoint and no processor given, a
  configuration does nothing at all and says so.\<close>

theorem tracing_installed_once:
  assumes "\<forall>(settings, app, p) \<in> set calls. \<forall>q. p = Some q \<longrightarrow> \<not> is_otlp q"
    and "t = configure_all version calls fresh_tracing"
  shows "length (filter is_otlp (span_processors t)) \<le> 1
    \<and> distinct (library_instruments t) \<and> distinct (instrumented_apps t)
    \<and> (span_processors t \<noteq> [] \<longrightarrow> sdk_provider t \<noteq> None)
    \<and> (strip (otel_exporter_otlp_endpoint settings) = [] \<longrightarrow>
         configure_tracing version settings app None t = (False, t))"
proof -
  have "tracing_ok fresh_tracing" by (simp add: tracing_ok_def fresh_tracing_def)
  from configure_all_ok [OF this assms(1), of version] have "tracing_ok t" unfolding assms(2) .
  then show ?thesis
    by (auto simp: tracing_ok_def configure_tracing_def tracing_enabled_def split: if_splits)
qed

theorem tracing_installed_once_witness:
  "length (filter is_otlp (span_processors (configure_all ''1.0''
      [(default_settings\<lparr>otel_exporter_otlp_endpoint := ''http://c:4318''\<rparr>, Some 1, None),
       (default_settings\<lparr>otel_exporter_otlp_endpoint := ''http://c:4318''\<rparr>, Some 2, None)]
      fresh_tracing))) \<le> 1"
  by (rule conjunct1 [OF tracing_installed_once [OF _ refl]]) simp

end
