(* ===== verification/Seeding.thy ===== *)
theory Seeding
  imports Session
begin

text \<open>
  \<open>scripts/seed_load_dataset.py\<close>: the validated plan, the batches, the skewed authorship, and the run
  that tops the dataset up. Python's generator \<open>random.Random\<close> and the SQL session are parameters
  (records \<open>rng\<close> and \<open>seed_session\<close>), with what they document as the predicates \<open>rng_laws\<close> and
  \<open>seed_db\<close>. Command line parsing and printing are not modelled, except the body range argument.
\<close>

subsection \<open>The plan\<close>

record seed_plan =
  plan_articles :: int
  plan_authors :: int
  plan_hot_share :: rat
  plan_min_body :: int
  plan_max_body :: int
  plan_batch_size :: int
  plan_seed :: int

definition check_plan :: "seed_plan \<Rightarrow> exn + seed_plan" where
  "check_plan p =
     (if plan_articles p < 0 then Inl (ValueError (''articles must be zero or more, got '' @ str_int (plan_articles p)))
      else if plan_authors p < 1
      then Inl (ValueError (''authors must be one or more, got '' @ str_int (plan_authors p)))
      else if \<not> (0 \<le> plan_hot_share p \<and> plan_hot_share p < 1)
      then Inl (ValueError ''hot share must be in [0, 1)'')
      else if plan_min_body p < 1 \<or> plan_max_body p < plan_min_body p
      then Inl (ValueError (''body bounds must satisfy 1 <= min <= max, got '' @
        str_int (plan_min_body p) @ ''-'' @ str_int (plan_max_body p)))
      else if plan_batch_size p < 1
      then Inl (ValueError (''batch size must be one or more, got '' @ str_int (plan_batch_size p)))
      else Inr p)"

record seed_result =
  authors_created :: int
  articles_before :: int
  articles_created :: int
  result_id_min :: "int option"
  result_id_max :: "int option"

definition articles_after :: "seed_result \<Rightarrow> int" where
  "articles_after r = articles_before r + articles_created r"

definition plan_batches :: "int \<Rightarrow> int \<Rightarrow> exn + int list" where
  "plan_batches missing batch_size =
     (if batch_size < 1 then Inl (ValueError (''batch size must be one or more, got '' @ str_int batch_size))
      else if missing < 0 then 
        Inl (ValueError (''missing must be zero or more, got '' @ str_int missing @
          ''; the table already holds more articles than requested''))
      else
        let full = missing div batch_size; remainder = missing mod batch_size in
        Inr (replicate (nat full) batch_size @ (if remainder \<noteq> 0 then [remainder] else [])))"

text \<open>The range argument \<open>--body-bytes MIN-MAX\<close>\<close>

definition parse_body_bytes :: "string \<Rightarrow> exn + (int \<times> int)" where
  "parse_body_bytes arg =
     (let (low, _, high) = partition_char CHR ''-'' arg in
      if high = [] then Inl (ValueError ''body bytes must be given as MIN-MAX'')
      else
        case (py_int low, py_int high) of
          (Some a, Some b) \<Rightarrow> Inr (a, b)
        | _ \<Rightarrow> Inl (ValueError ''invalid literal for int()''))"

definition range_payload :: "seed_result \<Rightarrow> exn + (int option \<times> int option \<times> int)" where
  "range_payload r =
     (let n = articles_after r in
      if n = 0 then Inr (None, None, 0)
      else
        case (result_id_min r, result_id_max r) of
          (Some lo, Some hi) \<Rightarrow>
            if hi < lo
            then Inl (ValueError (''inverted id range '' @ str_int lo @ ''..'' @ str_int hi))
            else Inr (Some lo, Some hi, n)
        | _ \<Rightarrow> Inl (ValueError (''the dataset holds '' @ str_int n @ '' rows but reports no id range'')))"

subsection \<open>Randomness\<close>

record 'r rng =
  rng_seeded :: "int \<Rightarrow> 'r"
  rng_random :: "'r \<Rightarrow> rat \<times> 'r"
  rng_range :: "int \<Rightarrow> int \<Rightarrow> 'r \<Rightarrow> int \<times> 'r"      \<comment> \<open>\<open>randrange(lo, hi)\<close>; \<open>randint(a, b)\<close> is \<open>randrange(a, b + 1)\<close>\<close>

definition rng_laws :: "'r rng \<Rightarrow> bool" where
  "rng_laws g \<longleftrightarrow>
     (\<forall>r. 0 \<le> fst (rng_random g r) \<and> fst (rng_random g r) < 1)
     \<and> (\<forall>lo hi r. lo < hi \<longrightarrow> lo \<le> fst (rng_range g lo hi r) \<and> fst (rng_range g lo hi r) < hi)"

definition FILLER :: string where
  "FILLER = ''the quick brown fox jumps over the lazy dog and files a report about it ''"

definition build_body :: "'r rng \<Rightarrow> int \<Rightarrow> int \<Rightarrow> 'r \<Rightarrow> string \<times> 'r" where
  "build_body g min_bytes max_bytes r =
     (let (len, r') = rng_range g min_bytes (max_bytes + 1) r;
          repeats = len div int (length FILLER) + 1 in
      (take (nat len) (concat (replicate (nat repeats) FILLER)), r'))"

definition hot_count :: "seed_plan \<Rightarrow> int" where
  "hot_count p = py_int_of_float (of_int (plan_authors p) * plan_hot_share p)"

fun draw_slots :: "'r rng \<Rightarrow> seed_plan \<Rightarrow> nat \<Rightarrow> 'r \<Rightarrow> int list" where
  "draw_slots g p 0 r = []"
| "draw_slots g p (Suc n) r =
     (if hot_count p \<noteq> 0 then
        (let (x, r1) = rng_random g r;
             (slot, r2) = (if x < 1 - plan_hot_share p then rng_range g 0 (hot_count p) r1
                           else rng_range g (hot_count p) (plan_authors p) r1) in
         slot # draw_slots g p n r2)
      else
        (let (slot, r1) = rng_range g (hot_count p) (plan_authors p) r in
         slot # draw_slots g p n r1))"

definition author_slots :: "'r rng \<Rightarrow> seed_plan \<Rightarrow> int list" where
  "author_slots g p = draw_slots g p (nat (plan_articles p)) (rng_seeded g (plan_seed p))"

subsection \<open>The run\<close>

text \<open>\<open>AUTHOR_EMAIL_TEMPLATE.format(index=index)\<close>\<close>

definition pad4 :: "string \<Rightarrow> string" where
  "pad4 s = replicate (4 - length s) CHR ''0'' @ s"

definition author_email :: "nat \<Rightarrow> string" where
  "author_email index = ''loadtest-author-'' @ pad4 (dec_nat index) @ ''@loadtest.example''"

record new_article =
  new_author :: int
  new_title :: string
  new_body :: string

record 'w seed_session =
  seed_select_users :: "string list \<Rightarrow> ('w, (int \<times> string) list) command"
  seed_select_role :: "string \<Rightarrow> ('w, int) command"
  seed_insert_users :: "(string \<times> int) list \<Rightarrow> ('w, unit) command"   \<comment> \<open>address, role\<close>
  seed_count_articles :: "int list \<Rightarrow> ('w, int) command"
  seed_insert_articles :: "new_article list \<Rightarrow> ('w, unit) command"
  seed_article_bounds :: "int list \<Rightarrow> ('w, int option \<times> int option) command"
  seed_commit :: "('w, unit) command"

definition index_error :: exn where "index_error = OtherException ''IndexError''"

definition py_nth :: "'a list \<Rightarrow> int \<Rightarrow> exn + 'a" where
  "py_nth xs i =
     (if 0 \<le> i \<and> i < int (length xs) then Inr (xs ! nat i)
      else if - int (length xs) \<le> i \<and> i < 0 then Inr (xs ! nat (int (length xs) + i))
      else Inl index_error)"

fun look_up_all :: "(string \<times> int) list \<Rightarrow> string list \<Rightarrow> exn + int list" where
  "look_up_all by_email [] = Inr []"
| "look_up_all by_email (e # es) =
     (case map_of by_email e of
        None \<Rightarrow> Inl (KeyError e)
      | Some i \<Rightarrow> sum_bind (look_up_all by_email es) (\<lambda>ids. Inr (i # ids)))"

definition by_email_of :: "(int \<times> string) list \<Rightarrow> (string \<times> int) list" where
  "by_email_of found = rev (map (\<lambda>(i, e). (e, i)) found)"

definition author_emails :: "seed_plan \<Rightarrow> string list" where
  "author_emails p = map author_email [0..<nat (plan_authors p)]"

definition ensure_authors ::
  "'w seed_session \<Rightarrow> seed_plan \<Rightarrow> ('w, int list \<times> int) command" where
  "ensure_authors s p =
     (let emails = author_emails p in
      bind_cmd (seed_select_users s emails) (\<lambda>found.
      let missing = filter (\<lambda>e. e \<notin> fst ` set (by_email_of found)) emails in
      bind_cmd
        (if missing = [] then return_cmd found
         else
           bind_cmd (seed_select_role s ''user'') (\<lambda>role.
           bind_cmd (seed_insert_users s (map (\<lambda>e. (e, role)) missing)) (\<lambda>_.
           bind_cmd (seed_commit s) (\<lambda>_.
           seed_select_users s emails))))
        (\<lambda>all_found w.
           (sum_bind (look_up_all (by_email_of all_found) emails)
              (\<lambda>ids. Inr (ids, int (length missing))), w))))"

text \<open>The rows of one batch, and the loop over the batches.\<close>

fun batch_rows ::
  "'r rng \<Rightarrow> seed_plan \<Rightarrow> int list \<Rightarrow> int list \<Rightarrow> int \<Rightarrow> int \<Rightarrow> nat \<Rightarrow> nat \<Rightarrow> 'r
   \<Rightarrow> (exn + new_article list) \<times> 'r" where
  "batch_rows g p ids slots existing created offset 0 r = (Inr [], r)"
| "batch_rows g p ids slots existing created offset (Suc n) r =
     (case sum_bind (py_nth slots (created + int offset)) (py_nth ids) of
        Inl e \<Rightarrow> (Inl e, r)
      | Inr who \<Rightarrow>
          let (text, r1) = build_body g (plan_min_body p) (plan_max_body p) r;
              row = \<lparr>new_author = who,
                     new_title = ''Load test article '' @ str_int (existing + created + int offset + 1),
                     new_body = text\<rparr> in
          (case batch_rows g p ids slots existing created (Suc offset) n r1 of
             (Inl e, r2) \<Rightarrow> (Inl e, r2)
           | (Inr rows, r2) \<Rightarrow> (Inr (row # rows), r2)))"

fun insert_batches ::
  "'w seed_session \<Rightarrow> 'r rng \<Rightarrow> seed_plan \<Rightarrow> int list \<Rightarrow> int list \<Rightarrow> int \<Rightarrow> int \<Rightarrow> int list \<Rightarrow> 'r
   \<Rightarrow> ('w, int) command" where
  "insert_batches s g p ids slots existing created [] r = return_cmd created"
| "insert_batches s g p ids slots existing created (n # sizes) r =
     (case batch_rows g p ids slots existing created 0 (nat n) r of
        (Inl e, _) \<Rightarrow> raise_cmd e
      | (Inr rows, r') \<Rightarrow>
          bind_cmd (seed_insert_articles s rows) (\<lambda>_.
          bind_cmd (seed_commit s) (\<lambda>_.
          insert_batches s g p ids slots existing (created + n) sizes r')))"

definition seed :: "'w seed_session \<Rightarrow> 'r rng \<Rightarrow> seed_plan \<Rightarrow> ('w, seed_result) command" where
  "seed s g p =
     bind_cmd (ensure_authors s p) (\<lambda>(ids, created_authors).
     bind_cmd (seed_count_articles s ids) (\<lambda>existing.
     case plan_batches (max (plan_articles p - existing) 0) (plan_batch_size p) of
       Inl e \<Rightarrow> raise_cmd e
     | Inr batches \<Rightarrow>
         bind_cmd (insert_batches s g p ids (drop (nat existing) (author_slots g p)) existing 0 batches
                     (rng_seeded g (plan_seed p))) (\<lambda>created.
         bind_cmd (seed_article_bounds s ids) (\<lambda>(lo, hi).
         return_cmd \<lparr>authors_created = created_authors, articles_before = existing,
                      articles_created = created, result_id_min = lo, result_id_max = hi\<rparr>))))"

subsection \<open>Batches, slots and bodies\<close>

lemma plan_batches_sound:
  assumes "1 \<le> batch" and "0 \<le> missing"
  shows "\<exists>bs. plan_batches missing batch = Inr bs \<and> sum_list bs = missing
    \<and> (\<forall>b \<in> set bs. 1 \<le> b \<and> b \<le> batch)"
proof -
  have "sum_list (replicate n batch) = int n * batch" for n by (simp add: sum_list_replicate)
  moreover have "missing div batch * batch + missing mod batch = missing" by simp
  moreover have "1 \<le> missing mod batch \<and> missing mod batch \<le> batch" if "missing mod batch \<noteq> 0"
  proof -
    have "0 \<le> missing mod batch" "missing mod batch < batch" using assms(1) by simp_all
    with that show ?thesis by linarith
  qed
  moreover have "0 \<le> missing div batch" using assms by (simp add: pos_imp_zdiv_nonneg_iff)
  ultimately show ?thesis using assms by (auto simp: plan_batches_def Let_def)
qed

lemma hot_count_bounds:
  assumes "check_plan p = Inr q"
  shows "0 \<le> hot_count p \<and> hot_count p < plan_authors p"
proof -
  from assms have a: "1 \<le> plan_authors p" "0 \<le> plan_hot_share p" "plan_hot_share p < 1"
    by (auto simp: check_plan_def split: if_splits)
  let ?x = "of_int (plan_authors p) * plan_hot_share p"
  have "?x < of_int (plan_authors p)" using a by simp
  then have "\<lfloor>?x\<rfloor> < plan_authors p" by (simp add: floor_less_iff)
  moreover have "0 \<le> ?x" using a by simp
  ultimately show ?thesis by (simp add: hot_count_def py_int_of_float_def)
qed

lemma rng_range_bounds:
  assumes "rng_laws g" and "lo < hi" and "rng_range g lo hi r = (x, r')"
  shows "lo \<le> x \<and> x < hi"
  using assms unfolding rng_laws_def by (metis fst_conv)

lemma draw_slots_bounds:
  assumes "rng_laws g" and "check_plan p = Inr q"
  shows "length (draw_slots g p n r) = n
    \<and> (\<forall>x \<in> set (draw_slots g p n r). 0 \<le> x \<and> x < plan_authors p)"
proof (induction n arbitrary: r)
  case (Suc n)
  note hot = hot_count_bounds [OF assms(2)] and range = rng_range_bounds [OF assms(1)]
  show ?case
  proof (cases "hot_count p = 0")
    case True
    obtain slot r1 where s: "rng_range g (hot_count p) (plan_authors p) r = (slot, r1)" by fastforce
    from range [OF _ this] hot True have "0 \<le> slot \<and> slot < plan_authors p" by simp
    with Suc [of r1] s True show ?thesis by simp
  next
    case False
    obtain x r1 where x: "rng_random g r = (x, r1)" by fastforce
    obtain slot r2 where s: "(if x < 1 - plan_hot_share p then rng_range g 0 (hot_count p) r1
        else rng_range g (hot_count p) (plan_authors p) r1) = (slot, r2)" by fastforce
    have "0 \<le> slot \<and> slot < plan_authors p"
    proof (cases "x < 1 - plan_hot_share p")
      case True
      with s range [of 0 "hot_count p" r1 slot r2] hot False show ?thesis by simp
    next
      case not: False
      with s range [of "hot_count p" "plan_authors p" r1 slot r2] hot show ?thesis by simp
    qed
    with Suc [of r2] x s False show ?thesis by simp
  qed
qed simp

lemma concat_replicate_length: "length (concat (replicate n xs)) = n * length xs"
  by (induction n) simp_all

text \<open>A body has a size inside the bounds and only characters of the filler.\<close>

lemma build_body_bounds:
  assumes "rng_laws g" and "1 \<le> lo" and "lo \<le> hi"
  shows "lo \<le> int (length (fst (build_body g lo hi r))) \<and> int (length (fst (build_body g lo hi r))) \<le> hi"
proof -
  obtain sz r' where s: "rng_range g lo (hi + 1) r = (sz, r')" by fastforce
  have b: "lo \<le> sz \<and> sz < hi + 1" by (rule rng_range_bounds [OF assms(1) _ s]) (use assms(3) in simp)
  have F: "int (length FILLER) = 72" by (simp add: FILLER_def)
  have "sz < (sz div 72 + 1) * 72" by presburger
  then have "sz \<le> int (nat (sz div 72 + 1) * length FILLER)"
    using b assms(2) F by (simp add: pos_imp_zdiv_nonneg_iff)
  then have "nat sz \<le> length (concat (replicate (nat (sz div 72 + 1)) FILLER))"
    by (simp add: concat_replicate_length nat_le_iff)
  with s b assms(2) show ?thesis by (simp add: build_body_def F)
qed

subsection \<open>A database that answers\<close>

text \<open>
  \<open>accounts\<close> and \<open>rows\<close> read the users and the articles (id and author) out of the state. An insertion
  adds its rows with fresh ids; a query answers from the table; nothing else moves them.
\<close>

definition owned :: "int list \<Rightarrow> (int \<times> int) list \<Rightarrow> (int \<times> int) list" where
  "owned ids table = filter (\<lambda>(i, who). who \<in> set ids) table"

definition seed_db ::
  "'w seed_session \<Rightarrow> ('w \<Rightarrow> (int \<times> string) list) \<Rightarrow> ('w \<Rightarrow> (int \<times> int) list) \<Rightarrow> bool" where
  "seed_db s accounts rows \<longleftrightarrow>
     (\<forall>es w. \<exists>w'. seed_select_users s es w
          = (Inr (filter (\<lambda>(i, e). e \<in> set es) (accounts w)), w')
        \<and> accounts w' = accounts w \<and> rows w' = rows w)
     \<and> (\<forall>w. \<exists>role w'. seed_select_role s ''user'' w = (Inr role, w')
        \<and> accounts w' = accounts w \<and> rows w' = rows w)
     \<and> (\<forall>es w. \<exists>new w'. seed_insert_users s es w = (Inr (), w')
        \<and> accounts w' = accounts w @ new \<and> map snd new = map fst es \<and> rows w' = rows w)
     \<and> (\<forall>w. \<exists>w'. seed_commit s w = (Inr (), w') \<and> accounts w' = accounts w \<and> rows w' = rows w)
     \<and> (\<forall>ids w. \<exists>w'. seed_count_articles s ids w = (Inr (int (length (owned ids (rows w)))), w')
        \<and> accounts w' = accounts w \<and> rows w' = rows w)
     \<and> (\<forall>ns w. \<exists>new w'. seed_insert_articles s ns w = (Inr (), w')
        \<and> rows w' = rows w @ new \<and> map snd new = map new_author ns \<and> accounts w' = accounts w)
     \<and> (\<forall>ids w. \<exists>w'. seed_article_bounds s ids w =
            (Inr (let is = map fst (owned ids (rows w)) in
                  if is = [] then (None, None) else (Some (Min (set is)), Some (Max (set is)))), w')
        \<and> accounts w' = accounts w \<and> rows w' = rows w)"

lemma seed_dbD:
  assumes "seed_db s accounts rows"
  shows "\<exists>w'. seed_select_users s es w = (Inr (filter (\<lambda>(i, e). e \<in> set es) (accounts w)), w')
        \<and> accounts w' = accounts w \<and> rows w' = rows w"
    and "\<exists>role w'. seed_select_role s ''user'' w = (Inr role, w')
        \<and> accounts w' = accounts w \<and> rows w' = rows w"
    and "\<exists>new w'. seed_insert_users s us w = (Inr (), w')
        \<and> accounts w' = accounts w @ new \<and> map snd new = map fst us \<and> rows w' = rows w"
    and "\<exists>w'. seed_commit s w = (Inr (), w') \<and> accounts w' = accounts w \<and> rows w' = rows w"
    and "\<exists>w'. seed_count_articles s ids w = (Inr (int (length (owned ids (rows w)))), w')
        \<and> accounts w' = accounts w \<and> rows w' = rows w"
    and "\<exists>new w'. seed_insert_articles s ns w = (Inr (), w')
        \<and> rows w' = rows w @ new \<and> map snd new = map new_author ns \<and> accounts w' = accounts w"
    and "\<exists>w'. seed_article_bounds s ids w =
            (Inr (let is = map fst (owned ids (rows w)) in
                  if is = [] then (None, None) else (Some (Min (set is)), Some (Max (set is)))), w')
        \<and> accounts w' = accounts w \<and> rows w' = rows w"
  using assms unfolding seed_db_def by blast+

subsection \<open>The accounts\<close>

lemma look_up_all_some:
  assumes "\<forall>e \<in> set es. map_of by_email e \<noteq> None"
  shows "look_up_all by_email es = Inr (map (\<lambda>e. the (map_of by_email e)) es)"
  using assms by (induction es) auto

lemma map_of_by_email:
  "map_of (by_email_of found) e \<noteq> None \<longleftrightarrow> e \<in> snd ` set found"
  by (force simp: by_email_of_def map_of_eq_None_iff)

text \<open>The ids the run works with: those of the load-test addresses in the table it finds.\<close>

definition author_ids :: "seed_plan \<Rightarrow> (int \<times> string) list \<Rightarrow> int list" where
  "author_ids p table =
     (let emails = author_emails p in
      map (\<lambda>e. the (map_of (by_email_of (filter (\<lambda>(i, e). e \<in> set emails) table)) e)) emails)"

lemma length_author_ids [simp]: "length (author_ids p table) = nat (plan_authors p)"
  by (simp add: author_ids_def author_emails_def Let_def)

lemma ensure_authors_ok:
  assumes "seed_db s accounts rows"
  shows "\<exists>n w'. ensure_authors s p w = (Inr (author_ids p (accounts w'), n), w')
    \<and> rows w' = rows w
    \<and> set (author_emails p) \<subseteq> snd ` set (accounts w')
    \<and> (set (author_emails p) \<subseteq> snd ` set (accounts w)
        \<longrightarrow> n = 0 \<and> accounts w' = accounts w)"
proof -
  let ?es = "author_emails p"
  let ?hit = "\<lambda>table. filter (\<lambda>(i, e). e \<in> set ?es) table"
  obtain w1 where w1: "seed_select_users s ?es w = (Inr (?hit (accounts w)), w1)"
    "accounts w1 = accounts w" "rows w1 = rows w"
    using seed_dbD(1) [OF assms] by blast
  let ?missing = "filter (\<lambda>e. e \<notin> fst ` set (by_email_of (?hit (accounts w)))) ?es"
  have keys: "fst ` set (by_email_of (?hit table)) = set ?es \<inter> snd ` set table" for table
    by (force simp: by_email_of_def)
  have full: "look_up_all (by_email_of (?hit table)) ?es = Inr (author_ids p table)"
    if "set ?es \<subseteq> snd ` set table" for table
  proof -
    have "\<forall>e \<in> set ?es. map_of (by_email_of (?hit table)) e \<noteq> None"
      using that unfolding map_of_by_email by force
    from look_up_all_some [OF this] show ?thesis by (simp add: author_ids_def Let_def)
  qed
  have none: "?missing = [] \<longleftrightarrow> set ?es \<subseteq> snd ` set (accounts w)"
    by (auto simp: filter_empty_conv keys)
  show ?thesis
  proof (cases "?missing = []")
    case True
    with none full have "look_up_all (by_email_of (?hit (accounts w))) ?es = Inr (author_ids p (accounts w))"
      by blast
    with w1 True none show ?thesis
      by (simp add: ensure_authors_def Let_def bind_cmd_def)
  next
    case False
    obtain role w2 where w2: "seed_select_role s ''user'' w1 = (Inr role, w2)" "accounts w2 = accounts w1"
      "rows w2 = rows w1" using seed_dbD(2) [OF assms] by blast
    obtain new w3 where w3: "seed_insert_users s (map (\<lambda>e. (e, role)) ?missing) w2 = (Inr (), w3)"
      "accounts w3 = accounts w2 @ new" "map snd new = map fst (map (\<lambda>e. (e, role)) ?missing)"
      "rows w3 = rows w2" using seed_dbD(3) [OF assms] by blast
    obtain w4 where w4: "seed_commit s w3 = (Inr (), w4)" "accounts w4 = accounts w3" "rows w4 = rows w3"
      using seed_dbD(4) [OF assms] by blast
    obtain w5 where w5: "seed_select_users s ?es w4 = (Inr (?hit (accounts w4)), w5)"
      "accounts w5 = accounts w4" "rows w5 = rows w4" using seed_dbD(1) [OF assms] by blast
    have "snd ` set new = set ?missing" using arg_cong [OF w3(3), of set] by (simp add: image_image)
    then have all: "set ?es \<subseteq> snd ` set (accounts w5)"
      using w1(2) w2(2) w3(2) w4(2) w5(2) by (auto simp: keys image_Un)
    have "look_up_all (by_email_of (?hit (accounts w5))) ?es = Inr (author_ids p (accounts w5))"
      by (rule full [OF all])
    moreover have "\<not> set (author_emails p) \<subseteq> snd ` set (accounts w)"
      using False none by blast
    ultimately show ?thesis
      using w1 w2 w3 w4 w5 False all
      by (simp add: ensure_authors_def Let_def bind_cmd_def)
  qed
qed

subsection \<open>The articles\<close>

lemma py_nth_in:
  assumes "0 \<le> i" and "i < int (length xs)"
  shows "py_nth xs i = Inr (xs ! nat i)" and "xs ! nat i \<in> set xs"
  using assms by (simp_all add: py_nth_def nat_less_iff)

lemma batch_rows_ok:
  assumes ids: "int (length ids) = plan_authors p"
    and slots: "\<forall>x \<in> set slots. 0 \<le> x \<and> x < plan_authors p"
    and room: "0 \<le> created" "created + int (offset + n) \<le> int (length slots)"
  shows "\<exists>ns r'. batch_rows g p ids slots existing created offset n r = (Inr ns, r')
    \<and> length ns = n \<and> set (map new_author ns) \<subseteq> set ids"
  using room(2)
proof (induction n arbitrary: offset r)
  case (Suc n)
  let ?k = "created + int offset"
  have k: "0 \<le> ?k" "?k < int (length slots)" using room(1) Suc.prems by simp_all
  let ?x = "slots ! nat ?k"
  from slots py_nth_in(2) [OF k] have x: "0 \<le> ?x" "?x < int (length ids)" by (auto simp: ids)
  obtain content r1 where body: "build_body g (plan_min_body p) (plan_max_body p) r = (content, r1)" by fastforce
  from Suc.prems have "created + int (Suc offset + n) \<le> int (length slots)" by simp
  from Suc.IH [OF this, of r1] show ?case
    by (auto simp: py_nth_in(1) [OF k] py_nth_in(1) [OF x] py_nth_in(2) [OF x] body)
qed simp

lemma insert_batches_ok:
  assumes db: "seed_db s accounts rows"
    and ids: "int (length ids) = plan_authors p"
    and slots: "\<forall>x \<in> set slots. 0 \<le> x \<and> x < plan_authors p"
    and created: "0 \<le> created"
    and pos: "\<forall>b \<in> set sizes. 1 \<le> b"
    and room: "created + sum_list sizes \<le> int (length slots)"
  shows "\<exists>new w'. insert_batches s g p ids slots existing created sizes r w
      = (Inr (created + sum_list sizes), w')
    \<and> rows w' = rows w @ new \<and> int (length new) = sum_list sizes \<and> set (map snd new) \<subseteq> set ids
    \<and> accounts w' = accounts w"
  using created pos room
proof (induction sizes arbitrary: created r w)
  case (Cons b bs)
  have b: "1 \<le> b" using Cons.prems by simp
  have bs: "0 \<le> sum_list bs" by (rule sum_list_nonneg) (use Cons.prems(2) in force)
  have "created + int (0 + nat b) \<le> int (length slots)" using Cons.prems b bs by simp
  from batch_rows_ok [OF ids slots Cons.prems(1) this, of g existing r]
  obtain ns r' where ns: "batch_rows g p ids slots existing created 0 (nat b) r = (Inr ns, r')"
    "length ns = nat b" "set (map new_author ns) \<subseteq> set ids" by blast
  obtain new w1 where w1: "seed_insert_articles s ns w = (Inr (), w1)" "rows w1 = rows w @ new"
    "map snd new = map new_author ns" "accounts w1 = accounts w"
    using seed_dbD(6) [OF db] by blast
  obtain w2 where w2: "seed_commit s w1 = (Inr (), w2)" "accounts w2 = accounts w1" "rows w2 = rows w1"
    using seed_dbD(4) [OF db] by blast
  have "0 \<le> created + b" "\<forall>b \<in> set bs. 1 \<le> b" "created + b + sum_list bs \<le> int (length slots)"
    using Cons.prems b by simp_all
  from Cons.IH [OF this, of r' w2] obtain more w3 where w3:
    "insert_batches s g p ids slots existing (created + b) bs r' w2 = (Inr (created + b + sum_list bs), w3)"
    "rows w3 = rows w2 @ more" "int (length more) = sum_list bs" "set (map snd more) \<subseteq> set ids"
    "accounts w3 = accounts w2" by blast
  have len: "int (length new) = b" using arg_cong [OF w1(3), of length] ns(2) b by simp
  have "rows w3 = rows w @ (new @ more)" "set (map snd (new @ more)) \<subseteq> set ids"
    using w1 w2 w3 ns(3) by auto
  with len w1 w2 w3 ns show ?case
    by (intro exI [of _ "new @ more"] exI [of _ w3]) (simp add: bind_cmd_def)
qed (simp add: return_cmd_def)

lemma owned_append: "owned ids (xs @ ys) = owned ids xs @ owned ids ys"
  by (simp add: owned_def)

lemma owned_all: "set (map snd new) \<subseteq> set ids \<Longrightarrow> owned ids new = new"
  by (auto simp: owned_def filter_id_conv)

lemma draw_slots_range:
  assumes "rng_laws g" and "check_plan p = Inr q"
  shows "int (length (drop k (author_slots g p))) = max (plan_articles p - int k) 0
    \<and> (\<forall>x \<in> set (drop k (author_slots g p)). 0 \<le> x \<and> x < plan_authors p)"
proof -
  have "0 \<le> plan_articles p" using assms(2) by (auto simp: check_plan_def split: if_splits)
  with draw_slots_bounds [OF assms, of "nat (plan_articles p)" "rng_seeded g (plan_seed p)"] show ?thesis
    by (auto simp: author_slots_def dest: in_set_dropD)
qed

text \<open>One run: what it finds, what it adds, and the ids it reports.\<close>

definition run_outcome ::
  "('w \<Rightarrow> (int \<times> string) list) \<Rightarrow> ('w \<Rightarrow> (int \<times> int) list) \<Rightarrow> seed_plan \<Rightarrow> 'w \<Rightarrow> seed_result \<Rightarrow> 'w \<Rightarrow> bool" where
  "run_outcome accounts rows p w r w' \<longleftrightarrow>
     (let mine = owned (author_ids p (accounts w')) in
      articles_before r = int (length (mine (rows w)))
      \<and> articles_created r = max (plan_articles p - articles_before r) 0
      \<and> int (length (mine (rows w'))) = articles_after r
      \<and> (\<exists>new. rows w' = rows w @ new \<and> mine new = new)
      \<and> (result_id_min r, result_id_max r)
          = (let is = map fst (mine (rows w')) in
             if is = [] then (None, None) else (Some (Min (set is)), Some (Max (set is))))
      \<and> set (author_emails p) \<subseteq> snd ` set (accounts w'))"

lemma seed_run:
  assumes plan: "check_plan p = Inr q" and rng: "rng_laws g" and db: "seed_db s accounts rows"
  shows "\<exists>r w'. seed s g p w = (Inr r, w') \<and> run_outcome accounts rows p w r w'
    \<and> (set (author_emails p) \<subseteq> snd ` set (accounts w)
       \<longrightarrow> authors_created r = 0 \<and> accounts w' = accounts w)"
proof -
  obtain n w1 where w1: "ensure_authors s p w = (Inr (author_ids p (accounts w1), n), w1)"
    "rows w1 = rows w" "set (author_emails p) \<subseteq> snd ` set (accounts w1)"
    "set (author_emails p) \<subseteq> snd ` set (accounts w) \<longrightarrow> n = 0 \<and> accounts w1 = accounts w"
    using ensure_authors_ok [OF db] by blast
  let ?ids = "author_ids p (accounts w1)"
  let ?existing = "int (length (owned ?ids (rows w)))"
  let ?missing = "max (plan_articles p - ?existing) 0"
  obtain w2 where w2: "seed_count_articles s ?ids w1 = (Inr ?existing, w2)" "accounts w2 = accounts w1"
    "rows w2 = rows w1" using seed_dbD(5) [OF db, of ?ids w1] w1(2) by auto
  from plan have batch: "1 \<le> plan_batch_size p" "1 \<le> plan_authors p"
    by (auto simp: check_plan_def split: if_splits)
  obtain bs where bs: "plan_batches ?missing (plan_batch_size p) = Inr bs" "sum_list bs = ?missing"
    "\<forall>b \<in> set bs. 1 \<le> b" using plan_batches_sound [OF batch(1), of ?missing] by auto
  let ?slots = "drop (nat ?existing) (author_slots g p)"
  have slots: "\<forall>x \<in> set ?slots. 0 \<le> x \<and> x < plan_authors p"
    and room: "0 + sum_list bs \<le> int (length ?slots)"
    using draw_slots_range [OF rng plan, of "nat ?existing"] bs(2) by simp_all
  have len: "int (length ?ids) = plan_authors p" using batch by simp
  from insert_batches_ok [OF db len slots order_refl bs(3) room, of g ?existing
      "rng_seeded g (plan_seed p)" w2] bs(2)
  obtain new w3 where w3:
    "insert_batches s g p ?ids ?slots ?existing 0 bs (rng_seeded g (plan_seed p)) w2
      = (Inr ?missing, w3)" "rows w3 = rows w2 @ new" "int (length new) = ?missing"
    "set (map snd new) \<subseteq> set ?ids" "accounts w3 = accounts w2"
    by auto
  let ?is = "map fst (owned ?ids (rows w3))"
  let ?bounds = "if ?is = [] then (None, None) else (Some (Min (set ?is)), Some (Max (set ?is)))"
  obtain w4 where w4: "seed_article_bounds s ?ids w3 = (Inr ?bounds, w4)" "accounts w4 = accounts w3"
    "rows w4 = rows w3" using seed_dbD(7) [OF db, of ?ids w3] by (auto simp: Let_def)
  let ?r = "\<lparr>authors_created = n, articles_before = ?existing, articles_created = ?missing,
    result_id_min = fst ?bounds, result_id_max = snd ?bounds\<rparr>"
  have run: "seed s g p w = (Inr ?r, w4)"
    unfolding seed_def bind_cmd_def w1(1) prod.case sum.case w2(1) bs(1) w3(1) w4(1)
    by (simp add: split_def)
  have mine: "owned ?ids new = new" by (rule owned_all [OF w3(4)])
  have "run_outcome accounts rows p w ?r w4"
    unfolding run_outcome_def Let_def
    using w1 w2 w3 w4 mine by (simp add: owned_append articles_after_def)
  with run w1(4) w2 w3 w4 show ?thesis by auto
qed

lemma range_payload_some:
  assumes "result_id_min r = Some lo" and "result_id_max r = Some hi" and "lo \<le> hi"
  shows "\<exists>payload. range_payload r = Inr payload"
  using assms by (simp add: range_payload_def Let_def)

lemma range_payload_ok:
  assumes "run_outcome accounts rows p w r w'"
  shows "\<exists>payload. range_payload r = Inr payload"
proof -
  let ?is = "map fst (owned (author_ids p (accounts w')) (rows w'))"
  from assms have n: "int (length ?is) = articles_after r"
    and b: "(result_id_min r, result_id_max r)
      = (if ?is = [] then (None, None) else (Some (Min (set ?is)), Some (Max (set ?is))))"
    by (simp_all add: run_outcome_def Let_def)
  show ?thesis
  proof (cases "?is = []")
    case True
    with n show ?thesis by (simp add: range_payload_def)
  next
    case False
    then have le: "Min (set ?is) \<le> Max (set ?is)" by (intro Min.coboundedI) auto
    from b have "result_id_min r = Some (Min (set ?is))" and "result_id_max r = Some (Max (set ?is))"
      unfolding if_not_P [OF False] by simp_all
    from range_payload_some [OF this le] show ?thesis .
  qed
qed


subsection \<open>A table in memory\<close>

type_synonym memory_table = "(int \<times> string) list \<times> (int \<times> int) list"

definition memory_seed :: "memory_table seed_session" where
  "memory_seed = \<lparr>
     seed_select_users = \<lambda>es w. (Inr (filter (\<lambda>(i, e). e \<in> set es) (fst w)), w),
     seed_select_role = \<lambda>_ w. (Inr 1, w),
     seed_insert_users = \<lambda>us w.
       (Inr (), (fst w @ map (\<lambda>(k, e, _). (int (length (fst w)) + int k + 1, e)) (List.enumerate 0 us), snd w)),
     seed_count_articles = \<lambda>ids w. (Inr (int (length (owned ids (snd w)))), w),
     seed_insert_articles = \<lambda>ns w.
       (Inr (), (fst w, snd w @ map (\<lambda>(k, a). (int (length (snd w)) + int k + 1, new_author a)) (List.enumerate 0 ns))),
     seed_article_bounds = \<lambda>ids w.
       (Inr (let is = map fst (owned ids (snd w)) in
             if is = [] then (None, None) else (Some (Min (set is)), Some (Max (set is)))), w),
     seed_commit = \<lambda>w. (Inr (), w)\<rparr>"

lemma map_enumerate: "map (\<lambda>(k, a). f a) (List.enumerate n xs) = map f xs"
  by (induction xs arbitrary: n) simp_all

lemma memory_seed_db: "seed_db memory_seed fst snd"
  by (simp add: seed_db_def memory_seed_def o_def split_def map_enumerate [unfolded split_def])

definition counter_rng :: "int rng" where
  "counter_rng = \<lparr>rng_seeded = (\<lambda>n. n), rng_random = (\<lambda>r. (1 / 2, r + 1)),
                  rng_range = (\<lambda>lo hi r. (lo + r mod (hi - lo), r + 1))\<rparr>"

lemma counter_rng_laws: "rng_laws counter_rng"
proof -
  have "r mod (hi - lo) < hi - lo" if "lo < hi" for lo hi r :: int using that by simp
  then show ?thesis by (simp add: rng_laws_def counter_rng_def less_diff_eq add.commute)
qed

definition demo_plan :: seed_plan where
  "demo_plan = \<lparr>plan_articles = 3, plan_authors = 2, plan_hot_share = 1 / 2, plan_min_body = 4,
                plan_max_body = 9, plan_batch_size = 2, plan_seed = 20\<rparr>"

lemma demo_plan_ok: "check_plan demo_plan = Inr demo_plan"
  by (simp add: check_plan_def demo_plan_def)


end
