(* ===== verification/PyFormat.thy ===== *)
theory PyFormat
  imports PyText
begin

text \<open>
  Python's fixed-point format \<open>f"{value:.{digits}f}"\<close> on exact rationals, and the replacement of a
  character in a text. Python rounds the binary value of the float half to even, which on a
  rational is \<open>py_round\<close>; the sign is printed for every negative value, as Python does for one that
  rounds to zero.
\<close>

definition zero_pad :: "nat \<Rightarrow> string \<Rightarrow> string" where
  "zero_pad k s = replicate (k - length s) CHR ''0'' @ s"

definition fixed :: "nat \<Rightarrow> rat \<Rightarrow> string" where
  "fixed digits x =
     (let n = nat (py_round (\<bar>x\<bar> * 10 ^ digits)) in
      (if x < 0 then ''-'' else '''') @ dec_nat (n div 10 ^ digits)
      @ (if digits = 0 then '''' else CHR ''.'' # zero_pad digits (dec_nat (n mod 10 ^ digits))))"

lemma fixed_chars:
  assumes "c \<in> set (fixed digits x)"
  shows "is_ascii_digit c \<or> c = CHR ''-'' \<or> c = CHR ''.''"
  using assms
  by (auto simp: fixed_def Let_def zero_pad_def is_ascii_digit_def dest: dec_nat_digits
      split: if_splits)

lemma fixed_not_Nil [simp]: "fixed digits x \<noteq> []"
  by (simp add: fixed_def Let_def)

text \<open>\<open>text.replace(c, r)\<close> for one character\<close>

definition replace_char :: "char \<Rightarrow> string \<Rightarrow> string \<Rightarrow> string" where
  "replace_char c r s = concat (map (\<lambda>x. if x = c then r else [x]) s)"

lemma replace_char_simps [simp]:
  "replace_char c r [] = []"
  "replace_char c r (x # s) = (if x = c then r else [x]) @ replace_char c r s"
  by (simp_all add: replace_char_def)

lemma replace_char_append [simp]: "replace_char c r (s @ t) = replace_char c r s @ replace_char c r t"
  by (simp add: replace_char_def)

lemma replace_char_set: "set (replace_char c r s) \<subseteq> (set s - {c}) \<union> set r"
  by (induction s) auto

lemma replace_char_gone: "c \<notin> set r \<Longrightarrow> c \<notin> set (replace_char c r s)"
  using replace_char_set [of c r s] by auto

lemma replace_char_id: "c \<notin> set s \<Longrightarrow> replace_char c r s = s"
  by (induction s) auto

text \<open>\<open>separator.join(parts)\<close>\<close>

fun join_with :: "string \<Rightarrow> string list \<Rightarrow> string" where
  "join_with sep [] = []"
| "join_with sep [x] = x"
| "join_with sep (x # y # ys) = x @ sep @ join_with sep (y # ys)"

lemma count_join:
  "ys \<noteq> [] \<Longrightarrow> count_list (join_with sep ys) c
     = sum_list (map (\<lambda>y. count_list y c) ys) + (length ys - 1) * count_list sep c"
  by (induction sep ys rule: join_with.induct) auto

lemma count_list_none: "c \<notin> set s \<Longrightarrow> count_list s c = 0"
  by (simp add: count_list_0_iff)

lemma fixed_clean:
  assumes "\<not> is_ascii_digit c" and "c \<noteq> CHR ''-''" and "c \<noteq> CHR ''.''"
  shows "count_list (fixed digits x) c = 0"
  using fixed_chars [of c digits x] assms by (auto intro: count_list_none)

end
