(* ===== verification/LoadSummary.thy ===== *)
theory LoadSummary
  imports PyFormat Exceptions "HOL-Library.List_Lexorder" "HOL-Library.Char_ord"
begin

text \<open>
  \<open>scripts/summarize_load_results.py\<close>: the headline numbers of a k6 summary, the noise floor between
  two runs, the test an optimization has to pass, and the table of the report. Reading files is the
  parameter \<open>read_text\<close>, \<open>json.loads\<close> the parameter \<open>loads\<close>, and \<open>float(text)\<close> the parameter
  \<open>float_of\<close>. Numbers are exact; \<open>Infinity\<close> and \<open>NaN\<close>, which k6 never writes, are outside the model
  (they end in an error here). A missing cell is an em dash, three bytes of UTF-8.
\<close>

subsection \<open>Reading a summary\<close>

definition attribute_error :: exn where "attribute_error = OtherException ''AttributeError''"

text \<open>\<open>value.get(name, default)\<close>\<close>

fun json_get :: "json \<Rightarrow> string \<Rightarrow> json \<Rightarrow> exn + json" where
  "json_get (JObj kvs) name d = Inr (case map_of kvs name of None \<Rightarrow> d | Some v \<Rightarrow> v)"
| "json_get _ name d = Inl attribute_error"

text \<open>\<open>name in value\<close>\<close>

fun json_contains :: "json \<Rightarrow> string \<Rightarrow> exn + bool" where
  "json_contains (JObj kvs) name = Inr (name \<in> fst ` set kvs)"
| "json_contains (JList xs) name = Inr (JStr name \<in> set xs)"
| "json_contains (JStr s) name = Inr (\<exists>k \<le> length s. startswith (drop k s) name)"
| "json_contains _ name = Inl (OtherException ''TypeError'')"

fun json_float :: "(string \<Rightarrow> rat option) \<Rightarrow> json \<Rightarrow> exn + rat" where
  "json_float float_of (JInt i) = Inr (of_int i)"
| "json_float float_of (JBool b) = Inr (if b then 1 else 0)"
| "json_float float_of (JFloat x) = Inr x"
| "json_float float_of (JStr s) =
     (case float_of s of None \<Rightarrow> Inl (ValueError ''could not convert string to float'') | Some x \<Rightarrow> Inr x)"
| "json_float float_of _ = Inl (OtherException ''TypeError'')"

definition load_summary ::
  "(string \<Rightarrow> string option) \<Rightarrow> (string \<Rightarrow> json option) \<Rightarrow> string \<Rightarrow> exn + json" where
  "load_summary read_text loads path =
     (case read_text path of
        None \<Rightarrow> Inl (ValueError (''cannot read '' @ path))
      | Some content \<Rightarrow>
          (case loads content of
             None \<Rightarrow> Inl (ValueError (path @ '' is not valid JSON''))
           | Some summary \<Rightarrow>
               sum_bind (json_contains summary ''metrics'') (\<lambda>there.
                 if there then Inr summary
                 else Inl (ValueError (path @ '' carries no metrics block'')))))"

definition metric :: "(string \<Rightarrow> rat option) \<Rightarrow> json \<Rightarrow> string \<Rightarrow> string \<Rightarrow> exn + rat option" where
  "metric float_of summary name statistic =
     sum_bind (json_get summary ''metrics'' (JObj [])) (\<lambda>metrics.
     sum_bind (json_get metrics name (JObj [])) (\<lambda>trend.
     sum_bind (json_get trend ''values'' (JObj [])) (\<lambda>measured.
     sum_bind (json_get measured statistic JNull) (\<lambda>v.
     if v = JNull then Inr None
     else sum_bind (json_float float_of v) (\<lambda>x. Inr (Some x))))))"

definition HEADLINE :: "(string \<times> string \<times> string) list" where
  "HEADLINE =
     [(''requests'', ''http_reqs'', ''count''),
      (''rps'', ''http_reqs'', ''rate''),
      (''error_rate'', ''http_req_failed'', ''rate''),
      (''dropped_iterations'', ''dropped_iterations'', ''count''),
      (''read_p50'', ''op_read_detail'', ''p(50)''),
      (''read_p95'', ''op_read_detail'', ''p(95)''),
      (''read_p99'', ''op_read_detail'', ''p(99)''),
      (''list_p95'', ''op_read_list'', ''p(95)''),
      (''write_create_p95'', ''op_write_create'', ''p(95)''),
      (''write_update_p95'', ''op_write_update'', ''p(95)'')]"

type_synonym numbers = "(string \<times> rat option) list"

fun read_metrics ::
  "(string \<Rightarrow> rat option) \<Rightarrow> json \<Rightarrow> (string \<times> string \<times> string) list \<Rightarrow> exn + numbers" where
  "read_metrics float_of summary [] = Inr []"
| "read_metrics float_of summary ((key, name, statistic) # rest) =
     sum_bind (metric float_of summary name statistic) (\<lambda>v.
     sum_bind (read_metrics float_of summary rest) (\<lambda>more.
     Inr ((key, if key = ''dropped_iterations'' \<and> v = None then Some 0 else v) # more)))"

definition headline :: "(string \<Rightarrow> rat option) \<Rightarrow> json \<Rightarrow> exn + numbers" where
  "headline float_of summary = read_metrics float_of summary HEADLINE"

subsection \<open>The noise floor\<close>

definition relative_spread :: "rat \<Rightarrow> rat \<Rightarrow> rat" where
  "relative_spread left right =
     (let mean = (left + right) / 2 in if mean = 0 then 0 else \<bar>left - right\<bar> / mean)"

definition spread_of :: "numbers \<Rightarrow> numbers \<Rightarrow> (string \<times> rat) list" where
  "spread_of a b =
     List.map_filter (\<lambda>(key, left).
       case (left, map_of b key) of
         (Some x, Some (Some y)) \<Rightarrow> Some (key, relative_spread x y)
       | _ \<Rightarrow> None) a"

definition noise_floor :: "(string \<Rightarrow> rat option) \<Rightarrow> json \<Rightarrow> json \<Rightarrow> exn + (string \<times> rat) list" where
  "noise_floor float_of first second =
     sum_bind (headline float_of first) (\<lambda>a.
     sum_bind (headline float_of second) (\<lambda>b. Inr (spread_of a b)))"

definition is_significant :: "rat \<Rightarrow> rat \<Rightarrow> rat \<Rightarrow> exn + bool" where
  "is_significant before after floor_size =
     (if floor_size < 0 then Inl (ValueError ''the noise floor cannot be negative'')
      else
        let mean = (before + after) / 2 in
        Inr (mean \<noteq> 0 \<and> floor_size < \<bar>after - before\<bar> / mean))"

subsection \<open>The table\<close>

definition DASH :: string where "DASH = map char_of [226, 128, 148 :: nat]"

definition fmt :: "rat option \<Rightarrow> nat \<Rightarrow> string" where
  "fmt v digits = (case v of None \<Rightarrow> DASH | Some x \<Rightarrow> fixed digits x)"

definition HEADER :: string where
  "HEADER =
     ''| Run | Requests | rps | Error rate | Read P50 | Read P95 | Read P99 | List P95 ''
     @ ''| Create P95 | Update P95 |'' @ [CHR 0x0A]
     @ ''|---|---|---|---|---|---|---|---|---|---|'' @ [CHR 0x0A]"

text \<open>\<open>h[key]\<close> of the ten keys, which every headline has\<close>

definition number :: "numbers \<Rightarrow> string \<Rightarrow> rat option" where
  "number h key = (case map_of h key of None \<Rightarrow> None | Some v \<Rightarrow> v)"

definition row_cells :: "string \<Rightarrow> numbers \<Rightarrow> string list" where
  "row_cells label h =
     [label, fmt (number h ''requests'') 0, fmt (number h ''rps'') 1,
      fmt (Some ((case number h ''error_rate'' of None \<Rightarrow> 0 | Some x \<Rightarrow> x) * 100)) 3 @ ''%'',
      fmt (number h ''read_p50'') 1, fmt (number h ''read_p95'') 1, fmt (number h ''read_p99'') 1,
      fmt (number h ''list_p95'') 1, fmt (number h ''write_create_p95'') 1,
      fmt (number h ''write_update_p95'') 1]"

definition table_row :: "string \<Rightarrow> numbers \<Rightarrow> string" where
  "table_row label h = ''| '' @ join_with '' | '' (row_cells label h) @ '' |''"

fun table_rows :: "(string \<Rightarrow> rat option) \<Rightarrow> (string \<times> json) list \<Rightarrow> exn + string list" where
  "table_rows float_of [] = Inr []"
| "table_rows float_of ((label, summary) # runs) =
     sum_bind (headline float_of summary) (\<lambda>h.
     sum_bind (table_rows float_of runs) (\<lambda>rows. Inr (table_row label h # rows)))"

definition results_table :: "(string \<Rightarrow> rat option) \<Rightarrow> (string \<times> json) list \<Rightarrow> exn + string" where
  "results_table float_of runs =
     sum_bind (table_rows float_of runs) (\<lambda>rows. Inr (HEADER @ join_with [CHR 0x0A] rows))"

text \<open>
  The files of one matrix, in the order of the report, and what \<open>main\<close> prints. \<open>sorted(items)\<close> compares the
  names first and never needs more, since they are different.
\<close>

fun load_runs ::
  "(string \<Rightarrow> bool) \<Rightarrow> (string \<Rightarrow> string option) \<Rightarrow> (string \<Rightarrow> json option) \<Rightarrow> string \<Rightarrow> string \<Rightarrow> string list
   \<Rightarrow> exn + (string \<times> json) list" where
  "load_runs is_file read_text loads scenario matrix [] = Inr []"
| "load_runs is_file read_text loads scenario matrix (label # labels) =
     (let path = scenario @ ''-'' @ matrix @ ''-'' @ label @ ''.json'' in
      if is_file path then
        sum_bind (load_summary read_text loads path) (\<lambda>summary.
        sum_bind (load_runs is_file read_text loads scenario matrix labels) (\<lambda>runs.
        Inr ((label, summary) # runs)))
      else load_runs is_file read_text loads scenario matrix labels)"

definition spread_line :: "string \<times> rat \<Rightarrow> string" where
  "spread_line = (\<lambda>(key, spread). ''  '' @ key @ '': '' @ fixed 2 (spread * 100) @ ''%'')"

definition summarize_main ::
  "(string \<Rightarrow> rat option) \<Rightarrow> (string \<Rightarrow> bool) \<Rightarrow> (string \<Rightarrow> string option) \<Rightarrow> (string \<Rightarrow> json option)
   \<Rightarrow> string \<Rightarrow> string \<Rightarrow> exn + string list" where
  "summarize_main float_of is_file read_text loads scenario matrix =
     sum_bind (load_runs is_file read_text loads scenario matrix [''A'', ''B'', ''C'', ''B2'']) (\<lambda>runs.
     if runs = [] then Inl (ValueError (''no '' @ scenario @ '' summaries for matrix '' @ matrix))
     else
       sum_bind (results_table float_of runs) (\<lambda>table.
       case (map_of runs ''B'', map_of runs ''B2'') of
         (Some b, Some b2) \<Rightarrow>
           sum_bind (noise_floor float_of b b2) (\<lambda>spreads.
           Inr ([table, [CHR 0x0A] @ ''Noise floor, B against B2:'']
                @ map spread_line (sort_key fst spreads)))
       | _ \<Rightarrow> Inr [table]))"

subsection \<open>A difference that sets the floor does not beat it\<close>

lemma headline_keys:
  assumes "read_metrics float_of summary rows = Inr h"
  shows "map fst h = map fst rows"
  using assms
  by (induction rows arbitrary: h) (auto simp: sum_bind_eq_Inr)

lemma relative_spread_sym: "relative_spread x y = relative_spread y x"
  by (simp add: relative_spread_def Let_def add.commute abs_minus_commute)

lemma spread_of_entry:
  "(key, f) \<in> set (spread_of a b)
    \<longleftrightarrow> (\<exists>x y. (key, Some x) \<in> set a \<and> map_of b key = Some (Some y) \<and> f = relative_spread x y)"
  by (force simp: spread_of_def List.map_filter_def split: option.splits)

lemma spread_not_significant:
  assumes "0 \<le> x" and "0 \<le> y"
  shows "is_significant x y (relative_spread x y) = Inr False"
proof -
  have "0 \<le> \<bar>x - y\<bar> / ((x + y) / 2)" using assms by (intro divide_nonneg_nonneg) simp_all
  then show ?thesis by (simp add: is_significant_def relative_spread_def Let_def abs_minus_commute)
qed

lemma map_of_headline:
  assumes "headline float_of summary = Inr h"
  shows "(key, v) \<in> set h \<longleftrightarrow> map_of h key = Some v"
proof -
  have "distinct (map fst h)"
    using headline_keys [OF assms [unfolded headline_def]] by (simp add: HEADLINE_def)
  then show ?thesis by simp
qed

text \<open>
  The noise floor is calibrated: it has an entry for exactly the numbers both runs recorded, it does
  not depend on the order of the two runs, and the difference between the very runs that set it is never
  called significant, in either direction.
\<close>

theorem noise_floor_calibrated:
  assumes a: "headline float_of first = Inr a" and b: "headline float_of second = Inr b"
    and pos: "\<forall>key x. map_of a key = Some (Some x) \<or> map_of b key = Some (Some x) \<longrightarrow> 0 \<le> x"
  shows "\<exists>spreads swapped. noise_floor float_of first second = Inr spreads
    \<and> noise_floor float_of second first = Inr swapped \<and> set swapped = set spreads
    \<and> fst ` set spreads = {key. \<exists>x y. map_of a key = Some (Some x) \<and> map_of b key = Some (Some y)}
    \<and> (\<forall>key f x y. (key, f) \<in> set spreads \<and> map_of a key = Some (Some x) \<and> map_of b key = Some (Some y)
        \<longrightarrow> 0 \<le> f \<and> is_significant x y f = Inr False \<and> is_significant y x f = Inr False)"
proof -
  have entry: "(key, f) \<in> set (spread_of a b)
      \<longleftrightarrow> (\<exists>x y. map_of a key = Some (Some x) \<and> map_of b key = Some (Some y) \<and> f = relative_spread x y)"
    for key f
    by (simp add: spread_of_entry map_of_headline [OF a])
  have swap: "(key, f) \<in> set (spread_of b a) \<longleftrightarrow> (key, f) \<in> set (spread_of a b)" for key f
    unfolding entry by (auto simp: spread_of_entry map_of_headline [OF b] relative_spread_sym)
  then have same: "set (spread_of b a) = set (spread_of a b)" by auto
  have keys: "fst ` set (spread_of a b)
      = {key. \<exists>x y. map_of a key = Some (Some x) \<and> map_of b key = Some (Some y)}"
  proof (intro set_eqI iffI)
    fix key assume "key \<in> fst ` set (spread_of a b)"
    then obtain f where "(key, f) \<in> set (spread_of a b)" by force
    then show "key \<in> {key. \<exists>x y. map_of a key = Some (Some x) \<and> map_of b key = Some (Some y)}"
      unfolding entry by blast
  next
    fix key assume "key \<in> {key. \<exists>x y. map_of a key = Some (Some x) \<and> map_of b key = Some (Some y)}"
    then obtain f where "(key, f) \<in> set (spread_of a b)" unfolding entry by blast
    then show "key \<in> fst ` set (spread_of a b)" by force
  qed
  have "0 \<le> f \<and> is_significant x y f = Inr False \<and> is_significant y x f = Inr False"
    if "(key, f) \<in> set (spread_of a b)" and x: "map_of a key = Some (Some x)"
      and y: "map_of b key = Some (Some y)" for key f x y
  proof -
    from that have f: "f = relative_spread x y" by (simp add: entry)
    from pos x y have "0 \<le> x" "0 \<le> y" by blast+
    with f spread_not_significant [of x y] spread_not_significant [of y x] show ?thesis
      by (auto simp: relative_spread_sym [of y x] is_significant_def split: if_splits)
  qed
  then have calm: "\<forall>key f x y. (key, f) \<in> set (spread_of a b) \<and> map_of a key = Some (Some x)
      \<and> map_of b key = Some (Some y)
      \<longrightarrow> 0 \<le> f \<and> is_significant x y f = Inr False \<and> is_significant y x f = Inr False" by blast
  have "noise_floor float_of first second = Inr (spread_of a b)"
    and "noise_floor float_of second first = Inr (spread_of b a)"
    using a b by (simp_all add: noise_floor_def)
  with same keys calm show ?thesis by blast
qed

definition demo_run :: "rat \<Rightarrow> json" where
  "demo_run x =
     JObj [(''metrics'', JObj [(''http_reqs'', JObj [(''values'', JObj [(''rate'', JFloat x)])])])]"

lemma demo_headline:
  "headline float_of (demo_run x) = Inr
     [(''requests'', None), (''rps'', Some x), (''error_rate'', None), (''dropped_iterations'', Some 0),
      (''read_p50'', None), (''read_p95'', None), (''read_p99'', None), (''list_p95'', None),
      (''write_create_p95'', None), (''write_update_p95'', None)]"
  by (simp add: headline_def HEADLINE_def demo_run_def metric_def)

theorem noise_floor_calibrated_witness:
  "\<exists>spreads. noise_floor (\<lambda>_. None) (demo_run 90) (demo_run 110) = Inr spreads
    \<and> ''rps'' \<in> fst ` set spreads"
proof -
  have "\<forall>key x. map_of [(''requests'', None), (''rps'', Some 90), (''error_rate'', None),
        (''dropped_iterations'', Some 0), (''read_p50'', None), (''read_p95'', None), (''read_p99'', None),
        (''list_p95'', None), (''write_create_p95'', None), (''write_update_p95'', None)] key
        = Some (Some (x :: rat))
      \<or> map_of [(''requests'', None), (''rps'', Some 110), (''error_rate'', None),
        (''dropped_iterations'', Some 0), (''read_p50'', None), (''read_p95'', None), (''read_p99'', None),
        (''list_p95'', None), (''write_create_p95'', None), (''write_update_p95'', None)] key
        = Some (Some x) \<longrightarrow> 0 \<le> x"
    by (auto split: if_splits)
  from noise_floor_calibrated [OF demo_headline [of "\<lambda>_. None" 90] demo_headline [of "\<lambda>_. None" 110] this]
  show ?thesis by fastforce
qed

subsection \<open>The shape of the table\<close>

lemma fmt_clean:
  assumes "c \<in> {CHR ''|'', CHR 0x0A}"
  shows "count_list (fmt v digits) c = 0"
proof (cases v)
  case None
  have "\<forall>x \<in> set DASH. x \<noteq> CHR ''|'' \<and> x \<noteq> CHR 0x0A" by code_simp
  with None assms show ?thesis by (auto simp: fmt_def intro: count_list_none)
next
  case (Some x)
  have "\<not> is_ascii_digit CHR ''|''" "\<not> is_ascii_digit CHR 0x0A" by (simp_all add: is_ascii_digit_def)
  with Some assms show ?thesis by (auto simp: fmt_def fixed_clean)
qed

lemma count_row:
  assumes "c \<in> {CHR ''|'', CHR 0x0A}" and "c \<notin> set label"
  shows "count_list (table_row label h) c = (if c = CHR ''|'' then 11 else 0)"
  using assms fmt_clean [OF assms(1)]
  by (auto simp: table_row_def row_cells_def count_list_none)

lemma table_rows_shape:
  assumes "table_rows float_of runs = Inr rows" and "\<forall>label \<in> fst ` set runs. c \<notin> set label"
    and "c \<in> {CHR ''|'', CHR 0x0A}"
  shows "length rows = length runs
    \<and> (\<forall>row \<in> set rows. count_list row c = (if c = CHR ''|'' then 11 else 0))"
  using assms
  by (induction float_of runs arbitrary: rows rule: table_rows.induct)
     (auto simp: sum_bind_eq_Inr count_row)

text \<open>
  The table is a table: one line per run below the two header lines, and every line has the eleven
  bars of ten columns, whatever the numbers are.
\<close>

theorem table_shape:
  assumes "results_table float_of runs = Inr table" and "runs \<noteq> []"
    and "\<forall>label \<in> fst ` set runs. CHR ''|'' \<notin> set label \<and> CHR 0x0A \<notin> set label"
  shows "\<exists>rows. table = HEADER @ join_with [CHR 0x0A] rows \<and> length rows = length runs
    \<and> (\<forall>row \<in> set rows. count_list row CHR ''|'' = 11 \<and> count_list row CHR 0x0A = 0)
    \<and> count_list table CHR 0x0A = length runs + 1 \<and> count_list table CHR ''|'' = 11 * (length runs + 2)"
proof -
  obtain rows where rows: "table_rows float_of runs = Inr rows"
    and table: "table = HEADER @ join_with [CHR 0x0A] rows"
    using assms(1) by (auto simp: results_table_def sum_bind_eq_Inr)
  from table_rows_shape [OF rows, of "CHR ''|''"] table_rows_shape [OF rows, of "CHR 0x0A"] assms(3)
  have n: "length rows = length runs" and bars: "\<forall>row \<in> set rows. count_list row CHR ''|'' = 11"
    and lines: "\<forall>row \<in> set rows. count_list row CHR 0x0A = 0" by auto
  have header: "count_list HEADER CHR ''|'' = 22" "count_list HEADER CHR 0x0A = 2"
    by (simp_all add: HEADER_def)
  have "rows \<noteq> []" using n assms(2) by auto
  moreover have "map (\<lambda>row. count_list row CHR ''|'') rows = replicate (length rows) 11"
    using bars by (simp add: map_idI map_replicate_const [symmetric])
  moreover have "map (\<lambda>row. count_list row CHR 0x0A) rows = replicate (length rows) 0"
    using lines by (simp add: map_replicate_const [symmetric])
  ultimately have "count_list table CHR 0x0A = length runs + 1" "count_list table CHR ''|'' = 11 * (length runs + 2)"
    using table n header assms(2) by (simp_all add: count_join sum_list_replicate Suc_pred)
  with table n bars lines show ?thesis by blast
qed

theorem table_shape_witness:
  "\<exists>t. results_table (\<lambda>_. None) [(''A'', demo_run 90)] = Inr t \<and> count_list t CHR ''|'' = 33"
proof -
  obtain t where t: "results_table (\<lambda>_. None) [(''A'', demo_run 90)] = Inr t"
    by (simp add: results_table_def demo_headline)
  from table_shape [OF t] have "count_list t CHR ''|'' = 11 * (length [(''A'', demo_run 90)] + 2)" by auto
  with t show ?thesis by simp
qed

end
