(* ===== verification/RunMetadata.thy ===== *)
theory RunMetadata
  imports LoadSummary
begin

text \<open>
  \<open>scripts/run_metadata.py\<close>: whether the two machine snapshots around a load run, and those of its
  repeat, support a citable result. A snapshot is a JSON object. The reasons are values of type
  \<open>reason\<close>, one constructor per message of the source with the values it prints; \<open>labelled\<close> is the
  prefix \<open>run\<close> or \<open>repeat\<close>.
\<close>

definition REQUIRED_KEYS :: "string list" where
  "REQUIRED_KEYS =
     [''timestamp'', ''hostname'', ''kernel'', ''cpu_model'', ''nproc'', ''governor'',
      ''energy_performance_preference'', ''power_profile'', ''no_turbo'', ''min_perf_pct'',
      ''max_perf_pct'', ''rapl_pl1_watts'', ''rapl_pl2_watts'', ''package_throttle_count'',
      ''core_throttle_count'', ''k6_cpuset'', ''ac_online'', ''loadavg'']"

definition CHAOS_REQUIRED_KEYS :: "string list" where
  "CHAOS_REQUIRED_KEYS = REQUIRED_KEYS @ [''toxiproxy_cpuset'']"

definition DEFAULT_MAX_THROTTLE_DRIFT :: rat where "DEFAULT_MAX_THROTTLE_DRIFT = 1 / 10"

type_synonym snapshot = "(string \<times> json) list"

definition validate :: "string list \<Rightarrow> snapshot \<Rightarrow> exn + snapshot" where
  "validate required s =
     (let missing = sort (remdups (filter (\<lambda>k. k \<notin> fst ` set s) required)) in
      if missing \<noteq> []
      then Inl (ValueError (''run metadata is missing '' @ join_with '', '' missing))
      else Inr s)"

definition load_metadata ::
  "(string \<Rightarrow> string option) \<Rightarrow> (string \<Rightarrow> json option) \<Rightarrow> string list \<Rightarrow> string \<Rightarrow> exn + snapshot" where
  "load_metadata read_text loads required path =
     (case Option.bind (read_text path) loads of
        None \<Rightarrow> Inl (ValueError (''cannot read the run metadata at '' @ path))
      | Some (JObj s) \<Rightarrow> validate required s
      | Some _ \<Rightarrow> Inl (ValueError (''the run metadata at '' @ path @ '' is not a JSON object'')))"

subsection \<open>Snapshot values\<close>

text \<open>\<open>snapshot[key]\<close>\<close>

definition entry_at :: "snapshot \<Rightarrow> string \<Rightarrow> exn + json" where
  "entry_at s key = (case map_of s key of None \<Rightarrow> Inl (KeyError key) | Some v \<Rightarrow> Inr v)"

text \<open>\<open>snapshot.get(key)\<close>\<close>

definition entry_or_none :: "snapshot \<Rightarrow> string \<Rightarrow> json" where
  "entry_or_none s key = (case map_of s key of None \<Rightarrow> JNull | Some v \<Rightarrow> v)"

fun as_number :: "json \<Rightarrow> rat option" where
  "as_number (JInt i) = Some (of_int i)"
| "as_number (JBool b) = Some (if b then 1 else 0)"
| "as_number (JFloat x) = Some x"
| "as_number _ = None"

text \<open>\<open>a == b\<close> on the scalars a snapshot holds: numbers and booleans by value, \<open>NaN\<close> never.\<close>

definition py_equal :: "json \<Rightarrow> json \<Rightarrow> bool" where
  "py_equal a b =
     (case (as_number a, as_number b) of
        (Some x, Some y) \<Rightarrow> x = y
      | (None, None) \<Rightarrow> a = b \<and> a \<noteq> JNaN
      | _ \<Rightarrow> False)"

definition difference_at :: "string \<Rightarrow> snapshot \<Rightarrow> snapshot \<Rightarrow> exn + rat" where
  "difference_at key before after =
     sum_bind (entry_at after key) (\<lambda>x.
     sum_bind (entry_at before key) (\<lambda>y.
     case (as_number x, as_number y) of
       (Some a, Some b) \<Rightarrow> Inr (a - b)
     | _ \<Rightarrow> Inl (OtherException ''TypeError'')))"

definition throttle_delta :: "snapshot \<Rightarrow> snapshot \<Rightarrow> exn + (rat \<times> rat)" where
  "throttle_delta before after =
     sum_bind (difference_at ''package_throttle_count'' before after) (\<lambda>package.
     sum_bind (difference_at ''core_throttle_count'' before after) (\<lambda>core. Inr (package, core)))"

subsection \<open>The verdicts\<close>

datatype reason =
    OnBattery
  | ProfileMoved json json
  | GeneratorMoved json json
  | InjectorMoved json json
  | PackageThrottled rat int
  | Drifted rat rat rat rat      \<comment> \<open>drift, the two deltas, the limit\<close>

definition moved :: "bool \<Rightarrow> reason \<Rightarrow> reason list" where
  "moved same r = (if same then [] else [r])"

definition is_citable ::
  "int option \<Rightarrow> string list \<Rightarrow> snapshot \<Rightarrow> snapshot \<Rightarrow> exn + (bool \<times> reason list)" where
  "is_citable max_package_delta required before after =
     sum_bind (validate required before) (\<lambda>_.
     sum_bind (validate required after) (\<lambda>_.
     sum_bind (entry_at before ''ac_online'') (\<lambda>ac1.
     sum_bind (if json_truthy ac1 then entry_at after ''ac_online'' else Inr ac1) (\<lambda>ac.
     sum_bind (entry_at before ''power_profile'') (\<lambda>p1.
     sum_bind (entry_at after ''power_profile'') (\<lambda>p2.
     sum_bind (entry_at before ''k6_cpuset'') (\<lambda>c1.
     sum_bind (entry_at after ''k6_cpuset'') (\<lambda>c2.
     let t1 = entry_or_none before ''toxiproxy_cpuset'';
         t2 = entry_or_none after ''toxiproxy_cpuset'';
         reasons = moved (json_truthy ac) OnBattery @ moved (py_equal p1 p2) (ProfileMoved p1 p2)
                   @ moved (py_equal c1 c2) (GeneratorMoved c1 c2)
                   @ moved (py_equal t1 t2) (InjectorMoved t1 t2) in
     case max_package_delta of
       None \<Rightarrow> Inr (reasons = [], reasons)
     | Some limit \<Rightarrow>
         sum_bind (throttle_delta before after) (\<lambda>(package, core).
         let all = reasons @ (if of_int limit < package then [PackageThrottled package limit] else []) in
         Inr (all = [], all))))))))))"

definition throttle_drift :: "rat \<Rightarrow> rat \<Rightarrow> exn + rat" where
  "throttle_drift first second =
     (if first < 0 \<or> second < 0 then Inl (ValueError ''a throttle delta cannot be negative'')
      else let total = first + second in
           if total = 0 then Inr 0 else Inr (\<bar>first - second\<bar> / (total / 2)))"

definition repeat_is_consistent ::
  "rat \<Rightarrow> string list \<Rightarrow> snapshot \<times> snapshot \<Rightarrow> snapshot \<times> snapshot
   \<Rightarrow> exn + (bool \<times> (string \<times> reason) list)" where
  "repeat_is_consistent max_drift required run repeat =
     sum_bind (is_citable None required (fst run) (snd run)) (\<lambda>(_, first_reasons).
     sum_bind (is_citable None required (fst repeat) (snd repeat)) (\<lambda>(_, second_reasons).
     sum_bind (throttle_delta (fst run) (snd run)) (\<lambda>(first, _).
     sum_bind (throttle_delta (fst repeat) (snd repeat)) (\<lambda>(second, _).
     sum_bind (throttle_drift first second) (\<lambda>drift.
     let reasons = map (Pair ''run'') first_reasons @ map (Pair ''repeat'') second_reasons
                   @ (if max_drift < drift then [('''', Drifted drift first second max_drift)] else []) in
     Inr (reasons = [], reasons))))))"

subsection \<open>What agreement of a repeat means\<close>

lemma throttle_drift_sym: "throttle_drift a b = throttle_drift b a"
  by (simp add: throttle_drift_def Let_def add.commute abs_minus_commute)

text \<open>The drift is a fraction of the mean, so it is between 0 and 2.\<close>

lemma throttle_drift_bounds:
  assumes "throttle_drift a b = Inr d"
  shows "0 \<le> a \<and> 0 \<le> b \<and> 0 \<le> d \<and> d \<le> 2 \<and> 2 * \<bar>a - b\<bar> = d * (a + b)"
proof -
  from assms have ab: "0 \<le> a" "0 \<le> b"
    and d: "d = (if a + b = 0 then 0 else \<bar>a - b\<bar> / ((a + b) / 2))"
    by (auto simp: throttle_drift_def Let_def split: if_splits)
  show ?thesis
  proof (cases "a + b = 0")
    case True
    with ab d show ?thesis by auto
  next
    case False
    with ab have pos: "0 < a + b" by linarith
    have "\<bar>a - b\<bar> \<le> a + b" using ab by linarith
    with pos have "\<bar>a - b\<bar> / ((a + b) / 2) \<le> 2" by (simp add: pos_divide_le_eq)
    moreover have "0 \<le> \<bar>a - b\<bar> / ((a + b) / 2)" using pos by (intro divide_nonneg_nonneg) simp_all
    moreover have "2 * \<bar>a - b\<bar> = (\<bar>a - b\<bar> / ((a + b) / 2)) * (a + b)" using pos by simp
    ultimately show ?thesis unfolding d if_not_P [OF False] using ab by blast
  qed
qed

lemma throttle_drift_total: "0 \<le> a \<Longrightarrow> 0 \<le> b \<Longrightarrow> \<exists>d. throttle_drift a b = Inr d"
  by (simp add: throttle_drift_def Let_def)

lemma consistent_parts:
  assumes "repeat_is_consistent d required run repeat = Inr (True, rs)"
  shows "\<exists>a b x y drift. rs = []
    \<and> is_citable None required (fst run) (snd run) = Inr (True, [])
    \<and> is_citable None required (fst repeat) (snd repeat) = Inr (True, [])
    \<and> throttle_delta (fst run) (snd run) = Inr (a, x)
    \<and> throttle_delta (fst repeat) (snd repeat) = Inr (b, y)
    \<and> throttle_drift a b = Inr drift \<and> drift \<le> d"
proof -
  have verdict: "ok = (reasons = [])" if "is_citable None required s t = Inr (ok, reasons)" for s t ok reasons
    using that by (auto simp: is_citable_def sum_bind_eq_Inr Let_def)
  from assms show ?thesis
    by (auto simp: repeat_is_consistent_def sum_bind_eq_Inr Let_def not_less split: if_splits
        dest: verdict)
qed

text \<open>A repeat that is called consistent really met the same machine. Both runs pass their own checks,
  their throttle counts grew by amounts that differ by at most the factor (2 + d) / (2 - d) of the limit d
  (21/19 at the default of 10%), and the verdict does not depend on which of the two is called the
  repeat.
\<close>

theorem consistent_repeat_bound:
  assumes "repeat_is_consistent d required run repeat = Inr (True, rs)"
  shows "\<exists>a b x y. throttle_delta (fst run) (snd run) = Inr (a, x)
    \<and> throttle_delta (fst repeat) (snd repeat) = Inr (b, y)
    \<and> 0 \<le> a \<and> 0 \<le> b \<and> (2 - d) * max a b \<le> (2 + d) * min a b
    \<and> is_citable None required (fst run) (snd run) = Inr (True, [])
    \<and> is_citable None required (fst repeat) (snd repeat) = Inr (True, [])
    \<and> repeat_is_consistent d required repeat run = Inr (True, [])"
proof -
  obtain a b x y drift where
    citable: "is_citable None required (fst run) (snd run) = Inr (True, [])"
      "is_citable None required (fst repeat) (snd repeat) = Inr (True, [])"
    and delta: "throttle_delta (fst run) (snd run) = Inr (a, x)"
      "throttle_delta (fst repeat) (snd repeat) = Inr (b, y)"
    and drift: "throttle_drift a b = Inr drift" "drift \<le> d"
    using consistent_parts [OF assms] by blast
  from throttle_drift_bounds [OF drift(1)] have ab: "0 \<le> a" "0 \<le> b" "2 * \<bar>a - b\<bar> = drift * (a + b)"
    by simp_all
  have "drift * (a + b) \<le> d * (a + b)" using ab(1,2) drift(2) by (intro mult_right_mono) simp_all
  with ab(3) have "2 * \<bar>a - b\<bar> \<le> d * (a + b)" by simp
  then have "(2 - d) * max a b \<le> (2 + d) * min a b"
    by (cases "a \<le> b") (simp_all add: max_def min_def algebra_simps)
  moreover have "repeat_is_consistent d required repeat run = Inr (True, [])"
    using citable delta drift
    by (simp add: repeat_is_consistent_def throttle_drift_sym [of b a])
  ultimately show ?thesis using citable delta ab(1,2) by blast
qed

definition demo_snapshot :: "int \<Rightarrow> snapshot" where
  "demo_snapshot n =
     [(''ac_online'', JBool True), (''power_profile'', JStr ''performance''), (''k6_cpuset'', JStr ''12-19''),
      (''package_throttle_count'', JInt n), (''core_throttle_count'', JInt 0)]"

lemma demo_consistent:
  "repeat_is_consistent (1 / 10) [''ac_online'', ''k6_cpuset'']
     (demo_snapshot 100, demo_snapshot 200) (demo_snapshot 300, demo_snapshot 405) = Inr (True, [])"
  by (simp add: repeat_is_consistent_def is_citable_def validate_def demo_snapshot_def entry_at_def
      entry_or_none_def py_equal_def moved_def throttle_delta_def difference_at_def throttle_drift_def)

theorem consistent_repeat_bound_witness:
  "repeat_is_consistent (1 / 10) [''ac_online'', ''k6_cpuset'']
     (demo_snapshot 300, demo_snapshot 405) (demo_snapshot 100, demo_snapshot 200) = Inr (True, [])"
  using consistent_repeat_bound [OF demo_consistent] by blast

end
