(* ===== verification/Faults.thy ===== *)
theory Faults
  imports Session
begin

text \<open>
  \<open>scripts/inject_fault.py\<close>: the toxic of a named fault, the client of the Toxiproxy API and the exit
  codes of the command line. The HTTP transport is a parameter; \<open>proxy_laws\<close> states what Toxiproxy
  documents of the three requests the client makes. A \<open>URLError\<close> is \<open>OtherException\<close> with that name;
  \<open>argparse\<close> has already refused unknown targets and faults. Names of toxics are texts, as the API
  documents. Printing is not modelled.
\<close>

subsection \<open>The toxics\<close>

definition FAULTS :: "string list" where
  "FAULTS = [''latency'', ''timeout'', ''blackhole'', ''reset_peer'']"

definition TARGETS :: "string list" where "TARGETS = [''mysql'', ''redis'']"

definition TIMED_FAULTS :: "string list" where "TIMED_FAULTS = [''latency'', ''timeout'']"

text \<open>The left value is the message of a \<open>FaultError\<close>.\<close>

definition toxic_for :: "string \<Rightarrow> int option \<Rightarrow> int \<Rightarrow> string + json" where
  "toxic_for kind ms jitter_ms =
     (if kind \<notin> set FAULTS then Inl (''unknown fault '' @ kind)
      else if kind \<in> set TIMED_FAULTS \<and> (case ms of None \<Rightarrow> True | Some t \<Rightarrow> t < 0)
      then Inl (''the '' @ kind @ '' fault needs a duration: pass --ms with a value of 0 or more'')
      else
        let t = (case ms of None \<Rightarrow> 0 | Some t \<Rightarrow> t);
            attributes =
              (if kind = ''latency'' then [(''latency'', JInt t), (''jitter'', JInt jitter_ms)]
               else if kind = ''timeout'' then [(''timeout'', JInt t)]
               else [(''timeout'', JInt 0)]) in
        Inr (JObj
          [(''name'', JStr kind),
           (''type'', JStr (if kind = ''blackhole'' then ''timeout'' else kind)),
           (''stream'', JStr ''downstream''),
           (''toxicity'', JFloat 1),
           (''attributes'', JObj attributes)]))"

subsection \<open>The client\<close>

type_synonym 'w transport = "string \<Rightarrow> string \<Rightarrow> json option \<Rightarrow> ('w, json) command"

definition url_error :: exn where "url_error = OtherException ''URLError''"

definition raised :: "py_error \<Rightarrow> exn" where
  "raised e = (case e of PyKeyError \<Rightarrow> KeyError ''name'' | _ \<Rightarrow> OtherException ''TypeError'')"

definition toxics_path :: "string \<Rightarrow> string" where
  "toxics_path target = ''/proxies/'' @ target @ ''/toxics''"

definition toxic_path :: "string \<Rightarrow> string \<Rightarrow> string" where
  "toxic_path target name = toxics_path target @ ''/'' @ name"

text \<open>A comprehension over the toxics: \<open>[toxic["name"] for toxic in toxics]\<close>\<close>

fun names_in :: "json list \<Rightarrow> exn + json list" where
  "names_in [] = Inr []"
| "names_in (x # xs) =
     (case json_item x ''name'' of
        Inl e \<Rightarrow> Inl (raised e)
      | Inr n \<Rightarrow> sum_bind (names_in xs) (\<lambda>ns. Inr (n # ns)))"

text \<open>\<open>any(existing["name"] == name for existing in toxics)\<close> stops at the first hit.\<close>

fun any_named :: "json \<Rightarrow> json list \<Rightarrow> exn + bool" where
  "any_named name [] = Inr False"
| "any_named name (x # xs) =
     (case json_item x ''name'' of
        Inl e \<Rightarrow> Inl (raised e)
      | Inr n \<Rightarrow> if n = name then Inr True else any_named name xs)"

fun json_text :: "json \<Rightarrow> string" where
  "json_text (JStr s) = s"
| "json_text _ = []"

definition lift_sum :: "exn + 'a \<Rightarrow> ('w, 'a) command" where
  "lift_sum x w = (x, w)"

definition active :: "'w transport \<Rightarrow> string \<Rightarrow> ('w, json list) command" where
  "active transport target =
     bind_cmd (transport ''GET'' (toxics_path target) None) (\<lambda>toxics.
     if \<not> json_truthy toxics then return_cmd []
     else case json_iter toxics of Inl e \<Rightarrow> raise_cmd (raised e) | Inr xs \<Rightarrow> return_cmd xs)"

definition apply_toxic :: "'w transport \<Rightarrow> string \<Rightarrow> json \<Rightarrow> ('w, unit) command" where
  "apply_toxic transport target toxic =
     bind_cmd (active transport target) (\<lambda>existing.
     case json_item toxic ''name'' of
       Inl e \<Rightarrow> if existing = [] then bind_cmd (transport ''POST'' (toxics_path target) (Some toxic)) (\<lambda>_. return_cmd ())
                else raise_cmd (raised e)
     | Inr name \<Rightarrow>
         bind_cmd (lift_sum (any_named name existing)) (\<lambda>hit.
         bind_cmd (if hit then bind_cmd (transport ''DELETE'' (toxic_path target (json_text name)) None) (\<lambda>_. return_cmd ())
                   else return_cmd ()) (\<lambda>_.
         bind_cmd (transport ''POST'' (toxics_path target) (Some toxic)) (\<lambda>_. return_cmd ()))))"

fun delete_all :: "'w transport \<Rightarrow> string \<Rightarrow> json list \<Rightarrow> ('w, unit) command" where
  "delete_all transport target [] = return_cmd ()"
| "delete_all transport target (n # ns) =
     bind_cmd (transport ''DELETE'' (toxic_path target (json_text n)) None)
       (\<lambda>_. delete_all transport target ns)"

definition clear_toxics :: "'w transport \<Rightarrow> string \<Rightarrow> ('w, json list) command" where
  "clear_toxics transport target =
     bind_cmd (active transport target) (\<lambda>toxics.
     bind_cmd (lift_sum (names_in toxics)) (\<lambda>names.
     bind_cmd (delete_all transport target names) (\<lambda>_. return_cmd names)))"

subsection \<open>The command line\<close>

record fault_args =
  arg_target :: string
  arg_fault :: "string option"
  arg_ms :: "int option"
  arg_jitter_ms :: int
  arg_clear :: bool
  arg_list :: bool

text \<open>What printing a toxic reads: \<open>toxic.get(...)\<close> and \<open>toxic["name"]\<close>.\<close>

definition printable :: "json list \<Rightarrow> exn + unit" where
  "printable toxics =
     (if \<exists>x \<in> set toxics. (case x of JObj _ \<Rightarrow> False | _ \<Rightarrow> True)
      then Inl (OtherException ''AttributeError'')
      else sum_bind (names_in toxics) (\<lambda>_. Inr ()))"

definition run_action :: "'w transport \<Rightarrow> fault_args \<Rightarrow> ('w, int) command" where
  "run_action transport args =
     (if arg_list args then
        bind_cmd (active transport (arg_target args)) (\<lambda>toxics.
        bind_cmd (lift_sum (printable toxics)) (\<lambda>_. return_cmd 0))
      else if arg_clear args then
        bind_cmd (clear_toxics transport (arg_target args)) (\<lambda>_. return_cmd 0)
      else
        case arg_fault args of
          None \<Rightarrow> return_cmd 2
        | Some kind \<Rightarrow>
            (case toxic_for kind (arg_ms args) (arg_jitter_ms args) of
               Inl message \<Rightarrow> return_cmd 2
             | Inr toxic \<Rightarrow>
                 bind_cmd (apply_toxic transport (arg_target args) toxic) (\<lambda>_. return_cmd 0)))"

definition fault_main :: "'w transport \<Rightarrow> fault_args \<Rightarrow> ('w, int) command" where
  "fault_main transport args w =
     (case run_action transport args w of
        (Inl e, w') \<Rightarrow> if e = url_error then (Inr 3, w') else (Inl e, w')
      | (Inr code, w') \<Rightarrow> (Inr code, w'))"

subsection \<open>What Toxiproxy documents\<close>

text \<open>
  \<open>toxics\<close> reads the toxics of a proxy out of the state. Names of proxies and toxics have no slash.
  Listing answers them; deleting a name that is
  there removes it; creating a toxic whose name is free adds it at the end. Nothing touches another proxy.
\<close>

definition named :: "string \<Rightarrow> json \<Rightarrow> bool" where
  "named name x \<longleftrightarrow> json_item x ''name'' = Inr (JStr name)"

definition plain :: "string \<Rightarrow> bool" where
  "plain s \<longleftrightarrow> CHR ''/'' \<notin> set s"

definition proxy_laws :: "'w transport \<Rightarrow> ('w \<Rightarrow> string \<Rightarrow> json list) \<Rightarrow> bool" where
  "proxy_laws transport toxics \<longleftrightarrow>
     (\<forall>target w. plain target \<longrightarrow>
        (\<exists>w'. transport ''GET'' (toxics_path target) None w = (Inr (JList (toxics w target)), w')
          \<and> toxics w' = toxics w))
     \<and> (\<forall>target name w. plain target \<and> plain name \<and> (\<exists>x \<in> set (toxics w target). named name x)
         \<longrightarrow> (\<exists>r w'. transport ''DELETE'' (toxic_path target name) None w = (Inr r, w')
               \<and> toxics w' = (toxics w)(target := filter (\<lambda>x. \<not> named name x) (toxics w target))))
     \<and> (\<forall>target name toxic w. plain target \<and> named name toxic
           \<and> (\<forall>x \<in> set (toxics w target). \<not> named name x)
         \<longrightarrow> (\<exists>r w'. transport ''POST'' (toxics_path target) (Some toxic) w = (Inr r, w')
               \<and> toxics w' = (toxics w)(target := toxics w target @ [toxic])))"

definition well_named :: "json list \<Rightarrow> bool" where
  "well_named xs \<longleftrightarrow> (\<exists>ns. distinct ns \<and> (\<forall>n \<in> set ns. plain n) \<and> map (\<lambda>x. json_item x ''name'') xs = map (Inr \<circ> JStr) ns)"

lemma proxy_get:
  assumes "proxy_laws transport toxics" and "plain target"
  shows "\<exists>w'. active transport target w = (Inr (toxics w target), w') \<and> toxics w' = toxics w"
proof -
  obtain w' where "transport ''GET'' (toxics_path target) None w = (Inr (JList (toxics w target)), w')"
    "toxics w' = toxics w" using assms unfolding proxy_laws_def by blast
  then show ?thesis by (auto simp: active_def)
qed

lemma proxy_delete:
  assumes "proxy_laws transport toxics" and "plain target" and "plain n"
    and "\<exists>x \<in> set (toxics w target). named n x"
  shows "\<exists>r w'. transport ''DELETE'' (toxic_path target n) None w = (Inr r, w')
    \<and> toxics w' = (toxics w)(target := filter (\<lambda>x. \<not> named n x) (toxics w target))"
  using conjunct1 [OF conjunct2 [OF assms(1) [unfolded proxy_laws_def]], rule_format, OF conjI [OF assms(2) conjI [OF assms(3,4)]]] .

lemma any_named_correct:
  assumes "well_named xs"
  shows "any_named (JStr name) xs = Inr (\<exists>x \<in> set xs. named name x)"
proof -
  have "any_named (JStr name) xs = Inr (\<exists>x \<in> set xs. named name x)"
    if "map (\<lambda>x. json_item x ''name'') xs = map (Inr \<circ> JStr) ns" for ns
    using that
  proof (induction xs arbitrary: ns)
    case (Cons x xs)
    then obtain m ms where "ns = m # ms" by (cases ns) auto
    with Cons show ?case by (auto simp: named_def)
  qed simp
  with assms show ?thesis by (auto simp: well_named_def)
qed

lemma names_in_correct:
  "map (\<lambda>x. json_item x ''name'') xs = map (Inr \<circ> JStr) ns \<Longrightarrow> names_in xs = Inr (map JStr ns)"
proof (induction xs arbitrary: ns)
  case (Cons x xs)
  then obtain m ms where "ns = m # ms" by (cases ns) auto
  with Cons show ?case by auto
qed simp

text \<open>Deleting the names in turn leaves what has none of them.\<close>

lemma delete_all_correct:
  assumes laws: "proxy_laws transport toxics" "plain target" and "distinct ns" and "\<forall>n \<in> set ns. plain n"
    and "\<forall>n \<in> set ns. \<exists>x \<in> set (toxics w target). named n x"
  shows "\<exists>w'. delete_all transport target (map JStr ns) w = (Inr (), w')
    \<and> toxics w' = (toxics w)(target := filter (\<lambda>x. \<forall>n \<in> set ns. \<not> named n x) (toxics w target))"
  using assms(3,4,5)
proof (induction ns arbitrary: w)
  case (Cons n ns)
  then have "\<exists>x \<in> set (toxics w target). named n x" by simp
  from proxy_delete [OF laws _ this] Cons.prems(2) obtain r w1 where w1: "transport ''DELETE'' (toxic_path target n) None w = (Inr r, w1)"
    "toxics w1 = (toxics w)(target := filter (\<lambda>x. \<not> named n x) (toxics w target))"
    by auto
  have "\<forall>m \<in> set ns. \<exists>x \<in> set (toxics w1 target). named m x"
  proof
    fix m assume m: "m \<in> set ns"
    with Cons.prems obtain x where x: "x \<in> set (toxics w target)" "named m x" by auto
    have "m \<noteq> n" using Cons.prems(1) m by auto
    with x(2) have "\<not> named n x" by (simp add: named_def)
    with x w1(2) show "\<exists>x \<in> set (toxics w1 target). named m x" by auto
  qed
  moreover have "distinct ns" "\<forall>m \<in> set ns. plain m" using Cons.prems by simp_all
  ultimately obtain w2 where w2:
    "delete_all transport target (map JStr ns) w1 = (Inr (), w2)"
    "toxics w2 = (toxics w1)(target := filter (\<lambda>x. \<forall>m \<in> set ns. \<not> named m x) (toxics w1 target))"
    using Cons.IH [of w1] by blast
  have "filter (\<lambda>x. \<forall>m \<in> set ns. \<not> named m x) (toxics w1 target)
      = filter (\<lambda>x. \<forall>m \<in> set (n # ns). \<not> named m x) (toxics w target)"
    using w1(2) by (auto intro: filter_cong)
  moreover have "delete_all transport target (map JStr (n # ns)) w = (Inr (), w2)"
    using w1(1) w2(1) by simp
  moreover have "toxics w2 = (toxics w)(target := filter (\<lambda>x. \<forall>m \<in> set ns. \<not> named m x) (toxics w1 target))"
    unfolding w2(2) unfolding w1(2) fun_upd_upd by (rule refl)
  ultimately show ?case by (intro exI [of _ w2] conjI) simp_all
qed auto

lemma toxic_for_named:
  assumes "toxic_for kind ms jitter = Inr toxic"
  shows "json_item toxic ''name'' = Inr (JStr kind)" and "plain kind"
proof -
  have "\<forall>f \<in> set FAULTS. plain f" by (simp add: FAULTS_def plain_def)
  with assms show "json_item toxic ''name'' = Inr (JStr kind)" and "plain kind"
    by (auto simp: toxic_for_def Let_def split: if_splits)
qed

lemma apply_toxic_correct:
  assumes laws: "proxy_laws transport toxics" "plain target" and names: "well_named (toxics w target)"
    and toxic: "json_item toxic ''name'' = Inr (JStr kind)" "plain kind"
  shows "\<exists>w'. apply_toxic transport target toxic w = (Inr (), w')
    \<and> toxics w' = (toxics w)(target := filter (\<lambda>x. \<not> named kind x) (toxics w target) @ [toxic])"
proof -
  obtain w1 where w1: "active transport target w = (Inr (toxics w target), w1)" "toxics w1 = toxics w"
    using proxy_get [OF laws] by blast
  have hit: "any_named (JStr kind) (toxics w target) = Inr (\<exists>x \<in> set (toxics w target). named kind x)"
    by (rule any_named_correct [OF names])
  have own: "named kind toxic" using toxic(1) by (simp add: named_def)
  have post: "\<exists>r w3. transport ''POST'' (toxics_path target) (Some toxic) w2 = (Inr r, w3)
      \<and> toxics w3 = (toxics w2)(target := toxics w2 target @ [toxic])"
    if "\<forall>x \<in> set (toxics w2 target). \<not> named kind x" for w2
    using laws own that unfolding proxy_laws_def by blast
  show ?thesis
  proof (cases "\<exists>x \<in> set (toxics w target). named kind x")
    case True
    then have "\<exists>x \<in> set (toxics w1 target). named kind x" using w1(2) by simp
    from proxy_delete [OF laws toxic(2) this] obtain r w2 where w2: "transport ''DELETE'' (toxic_path target kind) None w1 = (Inr r, w2)"
      "toxics w2 = (toxics w1)(target := filter (\<lambda>x. \<not> named kind x) (toxics w1 target))"
      by blast
    then have "\<forall>x \<in> set (toxics w2 target). \<not> named kind x" by simp
    from post [OF this] obtain r' w3 where w3:
      "transport ''POST'' (toxics_path target) (Some toxic) w2 = (Inr r', w3)"
      "toxics w3 = (toxics w2)(target := toxics w2 target @ [toxic])" by blast
    from True have "any_named (JStr kind) (toxics w target) = Inr True" using hit by simp
    with w1 w2 w3 toxic(1) show ?thesis by (simp add: apply_toxic_def lift_sum_def bind_cmd_def)
  next
    case False
    then have "\<forall>x \<in> set (toxics w1 target). \<not> named kind x" using w1(2) by simp
    from post [OF this] obtain r' w3 where w3:
      "transport ''POST'' (toxics_path target) (Some toxic) w1 = (Inr r', w3)"
      "toxics w3 = (toxics w1)(target := toxics w1 target @ [toxic])" by blast
    from False have "any_named (JStr kind) (toxics w target) = Inr False" using hit by simp
    moreover have "filter (\<lambda>x. \<not> named kind x) (toxics w target) = toxics w target"
      using False by (auto simp: filter_id_conv)
    ultimately show ?thesis using w1 w3 toxic(1) by (simp add: apply_toxic_def lift_sum_def bind_cmd_def)
  qed
qed

lemma clear_toxics_correct:
  assumes laws: "proxy_laws transport toxics" "plain target" and names: "well_named (toxics w target)"
  shows "\<exists>removed w'. clear_toxics transport target w = (Inr removed, w')
    \<and> toxics w' = (toxics w)(target := [])"
proof -
  obtain w1 where w1: "active transport target w = (Inr (toxics w target), w1)" "toxics w1 = toxics w"
    using proxy_get [OF laws] by blast
  obtain ns where ns: "distinct ns" "\<forall>n \<in> set ns. plain n"
    "map (\<lambda>x. json_item x ''name'') (toxics w target) = map (Inr \<circ> JStr) ns"
    using names by (auto simp: well_named_def)
  have names: "(\<lambda>x. json_item x ''name'') ` set (toxics w target) = (\<lambda>n. Inr (JStr n)) ` set ns"
    using arg_cong [OF ns(3), of set] by simp
  have each: "\<exists>n \<in> set ns. named n x" if "x \<in> set (toxics w target)" for x
    using imageI [OF that, of "\<lambda>x. json_item x ''name''"] unfolding names named_def by blast
  have "\<exists>x \<in> set (toxics w target). named n x" if "n \<in> set ns" for n
  proof -
    from imageI [OF that, of "\<lambda>n. Inr (JStr n) :: py_error + json"]
    have "Inr (JStr n) \<in> (\<lambda>x. json_item x ''name'') ` set (toxics w target)" unfolding names .
    then obtain x where "Inr (JStr n) = json_item x ''name''" "x \<in> set (toxics w target)" by (rule imageE)
    then show ?thesis by (auto simp: named_def)
  qed
  then have "\<forall>n \<in> set ns. \<exists>x \<in> set (toxics w1 target). named n x" unfolding w1(2) by blast
  from delete_all_correct [OF laws ns(1,2) this] obtain w2 where w2:
    "delete_all transport target (map JStr ns) w1 = (Inr (), w2)"
    "toxics w2 = (toxics w1)(target := filter (\<lambda>x. \<forall>n \<in> set ns. \<not> named n x) (toxics w1 target))" by blast
  have "filter (\<lambda>x. \<forall>n \<in> set ns. \<not> named n x) (toxics w1 target) = []"
    using each w1(2) by (auto simp: filter_empty_conv)
  with w1 w2 names_in_correct [OF ns(3)] show ?thesis
    by (simp add: clear_toxics_def lift_sum_def bind_cmd_def)
qed

lemma well_named_replace:
  assumes "well_named xs" and "json_item toxic ''name'' = Inr (JStr kind)" and "plain kind"
  shows "well_named (filter (\<lambda>x. \<not> named kind x) xs @ [toxic])"
proof -
  from assms(1) obtain ns where d: "distinct ns" "\<forall>n \<in> set ns. plain n"
    and ns: "map (\<lambda>x. json_item x ''name'') xs = map (Inr \<circ> JStr) ns" by (auto simp: well_named_def)
  from ns have "map (\<lambda>x. json_item x ''name'') (filter (\<lambda>x. \<not> named kind x) xs)
      = map (Inr \<circ> JStr) (filter (\<lambda>n. n \<noteq> kind) ns)"
  proof (induction xs arbitrary: ns)
    case (Cons x xs)
    then obtain m ms where m: "ns = m # ms" "json_item x ''name'' = Inr (JStr m)" by (cases ns) auto
    with Cons have "map (\<lambda>x. json_item x ''name'') xs = map (Inr \<circ> JStr) ms" by simp
    from Cons.IH [OF this] m show ?case by (simp add: named_def)
  qed simp
  then have "map (\<lambda>x. json_item x ''name'') (filter (\<lambda>x. \<not> named kind x) xs @ [toxic])
      = map (Inr \<circ> JStr) (filter (\<lambda>n. n \<noteq> kind) ns @ [kind])" using assms(2) by simp
  moreover have "distinct (filter (\<lambda>n. n \<noteq> kind) ns @ [kind])"
    "\<forall>n \<in> set (filter (\<lambda>n. n \<noteq> kind) ns @ [kind]). plain n" using d assms(3) by simp_all
  ultimately show ?thesis unfolding well_named_def by blast
qed

text \<open>Injecting a fault and clearing it. On a proxy that behaves as documented the command exits with 0
  and leaves on the target exactly the toxics it held under other names and the new one, so the same fault
  at a new value replaces the old; clearing then leaves nothing on the target, and at no point does the
  other dependency change.
\<close>

theorem inject_then_clear:
  assumes laws: "proxy_laws transport toxics" and names: "\<forall>t. well_named (toxics w t)"
    and target: "arg_target args \<in> set TARGETS" and mode: "\<not> arg_list args" "\<not> arg_clear args" and kind: "arg_fault args = Some kind"
    and toxic: "toxic_for kind (arg_ms args) (arg_jitter_ms args) = Inr toxic"
  shows "\<exists>w1 w2. fault_main transport args w = (Inr 0, w1)
    \<and> toxics w1 = (toxics w)(arg_target args :=
          filter (\<lambda>x. \<not> named kind x) (toxics w (arg_target args)) @ [toxic])
    \<and> (\<forall>t. well_named (toxics w1 t))
    \<and> fault_main transport (args\<lparr>arg_clear := True\<rparr>) w1 = (Inr 0, w2)
    \<and> toxics w2 = (toxics w)(arg_target args := [])"
proof -
  let ?t = "arg_target args"
  note item = toxic_for_named [OF toxic]
  have laws: "proxy_laws transport toxics" "plain ?t"
    using laws target by (auto simp: TARGETS_def plain_def)
  from names have "well_named (toxics w ?t)" by blast
  from apply_toxic_correct [OF laws this item] obtain w1 where
    w1: "apply_toxic transport ?t toxic w = (Inr (), w1)"
    and after: "toxics w1 = (toxics w)(?t := filter (\<lambda>x. \<not> named kind x) (toxics w ?t) @ [toxic])" by blast
  have run: "fault_main transport args w = (Inr 0, w1)"
    using mode kind toxic w1 by (simp add: fault_main_def run_action_def)
  have ok: "well_named (toxics w1 t)" for t
    using names well_named_replace [OF _ item] by (cases "t = ?t") (simp_all add: after)
  from clear_toxics_correct [OF laws ok] obtain removed w2 where
    w2: "clear_toxics transport ?t w1 = (Inr removed, w2)" and gone: "toxics w2 = (toxics w1)(?t := [])" by blast
  have "fault_main transport (args\<lparr>arg_clear := True\<rparr>) w1 = (Inr 0, w2)"
    using mode w2 by (simp add: fault_main_def run_action_def)
  moreover have "toxics w2 = (toxics w)(?t := [])" unfolding gone after by simp
  ultimately show ?thesis using run after ok by blast
qed

text \<open>Arguments that build no toxic send nothing, and an unreachable proxy is exit code 3.\<close>

lemma refused_sends_nothing:
  assumes "\<not> arg_list args" and "\<not> arg_clear args"
    and "case arg_fault args of None \<Rightarrow> True
         | Some kind \<Rightarrow> \<exists>message. toxic_for kind (arg_ms args) (arg_jitter_ms args) = Inl message"
  shows "fault_main transport args w = (Inr 2, w)"
  using assms by (auto simp: fault_main_def run_action_def split: option.splits)

lemma unreachable_exit:
  assumes "run_action transport args w = (Inl url_error, w')"
  shows "fault_main transport args w = (Inr 3, w')"
  using assms by (simp add: fault_main_def)

subsection \<open>A proxy in memory\<close>

type_synonym memory_proxy = "string \<Rightarrow> json list"

definition path_target :: "string \<Rightarrow> string" where
  "path_target path = takeWhile (\<lambda>c. c \<noteq> CHR ''/'') (drop 9 path)"

definition path_name :: "string \<Rightarrow> string" where
  "path_name path = drop 8 (dropWhile (\<lambda>c. c \<noteq> CHR ''/'') (drop 9 path))"

definition memory_transport :: "memory_proxy transport" where
  "memory_transport verb path payload w =
     (let t = path_target path in
      if verb = ''GET'' then (Inr (JList (w t)), w)
      else if verb = ''POST'' then (Inr JNull, w(t := w t @ [the payload]))
      else (Inr JNull, w(t := filter (\<lambda>x. \<not> named (path_name path) x) (w t))))"

lemma memory_paths:
  assumes "plain t"
  shows "path_target (toxics_path t) = t" and "path_target (toxic_path t n) = t"
    and "path_name (toxic_path t n) = n"
proof -
  have t: "\<forall>c \<in> set t. c \<noteq> CHR ''/''" using assms by (auto simp: plain_def)
  show "path_target (toxics_path t) = t" and "path_target (toxic_path t n) = t"
    and "path_name (toxic_path t n) = n"
    by (simp_all add: path_target_def path_name_def toxics_path_def toxic_path_def
        takeWhile_append_stop [OF t] dropWhile_append_stop [OF t])
qed

lemma memory_proxy_laws: "proxy_laws memory_transport (\<lambda>w. w)"
  by (simp add: proxy_laws_def memory_transport_def memory_paths)

theorem inject_then_clear_witness:
  "\<exists>w1. fault_main memory_transport
      \<lparr>arg_target = ''mysql'', arg_fault = Some ''latency'', arg_ms = Some 800, arg_jitter_ms = 0,
       arg_clear = False, arg_list = False\<rparr> (\<lambda>_. []) = (Inr 0, w1) \<and> length (w1 ''mysql'') = 1"
proof -
  let ?args = "\<lparr>arg_target = ''mysql'', arg_fault = Some ''latency'', arg_ms = Some 800, arg_jitter_ms = 0,
       arg_clear = False, arg_list = False\<rparr>"
  obtain toxic where toxic: "toxic_for ''latency'' (Some 800) 0 = Inr toxic"
    by (simp add: toxic_for_def FAULTS_def Let_def)
  have "well_named []" by (simp add: well_named_def)
  with inject_then_clear [OF memory_proxy_laws, of "\<lambda>_. []" ?args "''latency''" toxic] toxic
  show ?thesis by (auto simp: TARGETS_def)
qed

end
