(* ===== verification/Charts.thy ===== *)
theory Charts
  imports LoadSummary Settings
begin

text \<open>
  \<open>scripts/plot_load_results.py\<close>: the chart as the SVG text it renders, and the range query it is drawn
  from. The HTTP fetch of a URL, decoded as JSON, is the parameter \<open>fetch\<close>; \<open>float(text)\<close> is
  \<open>float_of\<close>. Coordinates are exact until they are printed. Reading the command line and writing the file
  are not modelled.
\<close>

subsection \<open>Geometry\<close>

definition WIDTH :: int where "WIDTH = 760"
definition HEIGHT :: int where "HEIGHT = 300"
definition PAD_LEFT :: int where "PAD_LEFT = 64"
definition PAD_RIGHT :: int where "PAD_RIGHT = 16"
definition PAD_TOP :: int where "PAD_TOP = 44"
definition PAD_BOTTOM :: int where "PAD_BOTTOM = 52"

definition PALETTE :: "string list" where
  "PALETTE = [''#1f77b4'', ''#d62728'', ''#2ca02c'', ''#9467bd'', ''#ff7f0e'']"

record series =
  series_name :: string
  series_points :: "(rat \<times> rat) list"
  series_color :: string

text \<open>\<open>value or 1.0\<close>\<close>

definition or_one :: "rat \<Rightarrow> rat" where "or_one x = (if x = 0 then 1 else x)"

definition project ::
  "(rat \<times> rat) list \<Rightarrow> rat \<times> rat \<Rightarrow> rat \<Rightarrow> int \<times> int \<Rightarrow> (rat \<times> rat) list" where
  "project points x_range y_max box =
     (let (w, h) = box; (x_lo, x_hi) = x_range;
          x_span = or_one (x_hi - x_lo); y_span = or_one y_max in
      map (\<lambda>(x, y). (of_int w * (x - x_lo) / x_span, of_int h * (1 - y / y_span))) points)"

definition ticks :: "rat \<Rightarrow> nat \<Rightarrow> rat list" where
  "ticks y_max n = map (\<lambda>step. y_max * of_nat step / of_nat n) [0..<Suc n]"

definition format_tick :: "rat \<Rightarrow> string" where
  "format_tick v = (if 100 \<le> v then fixed 0 v else if 10 \<le> v then fixed 1 v else fixed 2 v)"

subsection \<open>Text\<close>

definition escape :: "string \<Rightarrow> string" where
  "escape t =
     replace_char (CHR 0x22) ''&quot;'' (replace_char CHR ''>'' ''&gt;''
       (replace_char CHR ''<'' ''&lt;'' (replace_char CHR ''&'' ''&amp;'' t)))"

subsection \<open>The document\<close>

definition STYLE :: string where
  \<open>STYLE =
     ''<style>.bg{fill:#ffffff}.fg{fill:#1a1a1a}.grid{stroke:#d8d8d8}''
     @ ''.tick{fill:#5a5a5a;font-size:11px}.ttl{font-size:14px;font-weight:600}''
     @ ''.lbl{font-size:11px}''
     @ ''text{font-family:-apple-system,Segoe UI,Roboto,sans-serif}''
     @ ''@media (prefers-color-scheme: dark){''
     @ ''.bg{fill:#161616}.fg{fill:#ededed}.grid{stroke:#3a3a3a}.tick{fill:#a8a8a8}}</style>''\<close>

definition head_parts :: "string \<Rightarrow> int \<Rightarrow> int \<Rightarrow> string list" where
  \<open>head_parts label w h =
     [''<svg xmlns="http://www.w3.org/2000/svg" viewBox="0 0 '' @ str_int w @ '' '' @ str_int h
        @ ''" width="100%" role="img" aria-label="'' @ escape label @ ''">'',
      STYLE,
      ''<rect class="bg" width="'' @ str_int w @ ''" height="'' @ str_int h @ ''"/>'',
      ''<text class="fg ttl" x="'' @ str_int PAD_LEFT @ ''" y="24">'' @ escape label @ ''</text>'']\<close>

definition tick_parts :: "int \<times> int \<Rightarrow> rat \<Rightarrow> rat \<Rightarrow> string list" where
  \<open>tick_parts box y_max tick =
     (let y = of_int PAD_TOP + of_int (snd box) * (1 - tick / or_one y_max) in
      [''<line class="grid" x1="'' @ str_int PAD_LEFT @ ''" y1="'' @ fixed 1 y @ ''" x2="''
         @ str_int (PAD_LEFT + fst box) @ ''" y2="'' @ fixed 1 y @ ''"/>'',
       ''<text class="tick" x="'' @ str_int (PAD_LEFT - 8) @ ''" y="'' @ fixed 1 (y + 4)
         @ ''" text-anchor="end">'' @ format_tick tick @ ''</text>''])\<close>

definition drawn :: "(rat \<times> rat) list \<Rightarrow> string" where
  "drawn coords =
     join_with '' '' (map (\<lambda>(x, y). fixed 1 (of_int PAD_LEFT + x) @ '','' @ fixed 1 (of_int PAD_TOP + y)) coords)"

definition line_parts ::
  "rat \<times> rat \<Rightarrow> rat \<Rightarrow> int \<times> int \<Rightarrow> int \<Rightarrow> nat \<times> series \<Rightarrow> string list" where
  \<open>line_parts x_range y_max box h indexed =
     (let (index, line) = indexed;
          legend_x = PAD_LEFT + int index * 170;
          legend_y = h - 14 in
      [''<polyline fill="none" stroke="'' @ series_color line @ ''" stroke-width="2" stroke-linejoin="round" points="''
         @ drawn (project (series_points line) x_range y_max box) @ ''"/>'',
       ''<rect x="'' @ str_int legend_x @ ''" y="'' @ str_int (legend_y - 9)
         @ ''" width="10" height="10" fill="'' @ series_color line @ ''"/>'',
       ''<text class="fg lbl" x="'' @ str_int (legend_x + 16) @ ''" y="'' @ str_int legend_y @ ''">''
         @ escape (series_name line) @ ''</text>''])\<close>

definition foot_parts :: "string \<Rightarrow> string \<Rightarrow> int \<times> int \<Rightarrow> int \<Rightarrow> string list" where
  \<open>foot_parts x_label y_label box h =
     (let middle = fixed 0 (of_int PAD_TOP + of_int (snd box) / 2) in
      [''<text class="fg lbl" x="'' @ str_int PAD_LEFT @ ''" y="'' @ str_int (h - 32) @ ''">''
         @ escape x_label @ ''</text>'',
       ''<text class="fg lbl" x="14" y="'' @ middle @ ''" transform="rotate(-90 14 '' @ middle
         @ '')" text-anchor="middle">'' @ escape y_label @ ''</text>'',
       ''</svg>''])\<close>

definition chart_box :: "int \<Rightarrow> int \<Rightarrow> int \<times> int" where
  "chart_box w h = (w - PAD_LEFT - PAD_RIGHT, h - PAD_TOP - PAD_BOTTOM)"

definition all_points :: "series list \<Rightarrow> (rat \<times> rat) list" where
  "all_points lines = concat (map series_points lines)"

definition x_range_of :: "series list \<Rightarrow> rat \<times> rat" where
  "x_range_of lines = (Min (fst ` set (all_points lines)), Max (fst ` set (all_points lines)))"

definition y_max_of :: "series list \<Rightarrow> rat" where
  "y_max_of lines = Max (snd ` set (all_points lines))"

definition render_chart ::
  "series list \<Rightarrow> string \<Rightarrow> string \<Rightarrow> string \<Rightarrow> int \<Rightarrow> int \<Rightarrow> exn + string" where
  "render_chart lines label y_label x_label w h =
     (if lines = [] then Inl (ValueError ''a chart needs at least one series'')
      else
        case filter (\<lambda>line. series_points line = []) lines of
          line # _ \<Rightarrow> Inl (ValueError (''series '' @ series_name line @ '' carries no points: the query returned nothing''))
        | [] \<Rightarrow>
            (let box = chart_box w h; y_max = y_max_of lines in
             Inr (join_with [CHR 0x0A]
                    (head_parts label w h
                     @ concat (map (tick_parts box y_max) (ticks y_max 4))
                     @ concat (map (line_parts (x_range_of lines) y_max box h) (List.enumerate 0 lines))
                     @ foot_parts x_label y_label box h)
                  @ [CHR 0x0A])))"

subsection \<open>The query\<close>

definition query_url :: "string \<Rightarrow> rat \<Rightarrow> rat \<Rightarrow> int \<Rightarrow> string \<Rightarrow> string" where
  "query_url expression start finish step base_url =
     base_url @ ''/api/v1/query_range?query='' @ quote_plus expression
     @ ''&start='' @ quote_plus (fixed 3 start) @ ''&end='' @ quote_plus (fixed 3 finish)
     @ ''&step='' @ quote_plus (str_int step)"

definition raised_by :: "py_error \<Rightarrow> exn" where
  "raised_by e =
     (case e of PyKeyError \<Rightarrow> KeyError '''' | PyValueError \<Rightarrow> ValueError ''''
      | PyIndexError \<Rightarrow> OtherException ''IndexError'' | _ \<Rightarrow> OtherException ''TypeError'')"

definition py_raise :: "py_error + 'a \<Rightarrow> exn + 'a" where
  "py_raise x = (case x of Inl e \<Rightarrow> Inl (raised_by e) | Inr a \<Rightarrow> Inr a)"

fun read_points :: "(string \<Rightarrow> rat option) \<Rightarrow> rat \<Rightarrow> json list \<Rightarrow> exn + (rat \<times> rat) list" where
  "read_points float_of start [] = Inr []"
| "read_points float_of start (p # ps) =
     sum_bind (py_raise (json_iter p)) (\<lambda>parts.
     case parts of
       [stamp, v] \<Rightarrow>
         sum_bind (json_float float_of stamp) (\<lambda>x.
         sum_bind (json_float float_of v) (\<lambda>y.
         sum_bind (read_points float_of start ps) (\<lambda>rest. Inr ((x - start, y) # rest))))
     | _ \<Rightarrow> Inl (ValueError ''not enough or too many values to unpack''))"

definition range_query ::
  "(string \<Rightarrow> rat option) \<Rightarrow> (string \<Rightarrow> exn + json) \<Rightarrow> string \<Rightarrow> rat \<Rightarrow> rat \<Rightarrow> int \<Rightarrow> string
   \<Rightarrow> exn + (rat \<times> rat) list" where
  "range_query float_of fetch expression start finish step base_url =
     sum_bind (fetch (query_url expression start finish step base_url)) (\<lambda>payload.
     sum_bind (json_get payload ''status'' JNull) (\<lambda>status.
     if status \<noteq> JStr ''success''
     then Inl (ValueError (''prometheus rejected the query: '' @ expression))
     else
       sum_bind (py_raise (json_item payload ''data'')) (\<lambda>data.
       sum_bind (py_raise (json_item data ''result'')) (\<lambda>results.
       if \<not> json_truthy results
       then Inl (ValueError (''prometheus returned no series for: '' @ expression))
       else
         sum_bind (py_raise (json_nth results 0)) (\<lambda>first.
         sum_bind (py_raise (json_item first ''values'')) (\<lambda>listed.
         sum_bind (py_raise (json_iter listed)) (read_points float_of start)))))))"

text \<open>The loop of \<open>main\<close> over \<open>NAME=PROMQL\<close> pairs.\<close>

fun chart_series ::
  "(string \<Rightarrow> rat option) \<Rightarrow> (string \<Rightarrow> exn + json) \<Rightarrow> rat \<Rightarrow> rat \<Rightarrow> int \<Rightarrow> rat \<Rightarrow> string
   \<Rightarrow> nat \<Rightarrow> string list \<Rightarrow> exn + series list" where
  "chart_series float_of fetch start finish step scale base_url index [] = Inr []"
| "chart_series float_of fetch start finish step scale base_url index (pair # pairs) =
     (let (name, _, expression) = partition_char CHR ''='' pair in
      sum_bind (range_query float_of fetch expression start finish step base_url) (\<lambda>points.
      sum_bind (chart_series float_of fetch start finish step scale base_url (Suc index) pairs) (\<lambda>more.
      Inr (\<lparr>series_name = name, series_points = map (\<lambda>(x, y). (x, y * scale)) points,
            series_color = PALETTE ! (index mod length PALETTE)\<rparr> # more))))"

definition plot_main ::
  "(string \<Rightarrow> rat option) \<Rightarrow> (string \<Rightarrow> exn + json) \<Rightarrow> rat \<Rightarrow> rat \<Rightarrow> int \<Rightarrow> rat \<Rightarrow> string \<Rightarrow> string list
   \<Rightarrow> string \<Rightarrow> string \<Rightarrow> exn + string" where
  "plot_main float_of fetch start finish step scale base_url queries label y_label =
     sum_bind (chart_series float_of fetch start finish step scale base_url 0 queries) (\<lambda>lines.
     render_chart lines label y_label ''seconds into the run'' WIDTH HEIGHT)"

subsection \<open>Labels are text\<close>

definition escape_char :: "char \<Rightarrow> string" where
  "escape_char c =
     (if c = CHR ''&'' then ''&amp;'' else if c = CHR ''<'' then ''&lt;'' else if c = CHR ''>'' then ''&gt;''
      else if c = CHR 0x22 then ''&quot;'' else [c])"

text \<open>The four replacements in a row are one replacement per character, because \<open>&\<close> goes first.\<close>

lemma escape_concat: "escape t = concat (map escape_char t)"
  by (induction t) (simp_all add: escape_def escape_char_def)

lemma escape_set: "set (escape t) \<inter> {CHR ''<'', CHR ''>'', CHR 0x22} = {}"
  by (auto simp: escape_concat escape_char_def split: if_splits)

text \<open>What an XML reader makes of the five characters' entities, as far as \<open>escape\<close> writes them.\<close>

fun unescape :: "string \<Rightarrow> string" where
  "unescape [] = []"
| "unescape (c # s) =
     (if c = CHR ''&'' then
        (if startswith s ''amp;'' then CHR ''&'' # unescape (drop 4 s)
         else if startswith s ''lt;'' then CHR ''<'' # unescape (drop 3 s)
         else if startswith s ''gt;'' then CHR ''>'' # unescape (drop 3 s)
         else if startswith s ''quot;'' then CHR 0x22 # unescape (drop 5 s)
         else c # unescape s)
      else c # unescape s)"

lemma unescape_char: "unescape (escape_char c @ s) = c # unescape s"
  by (simp add: escape_char_def startswith_def)

text \<open>
  Escaping is exact: what it writes contains none of the characters that open a tag or close an
  attribute, and reading the entities back gives the label again, so no two labels look alike.
\<close>

theorem escape_roundtrip:
  "unescape (escape t) = t \<and> set (escape t) \<inter> {CHR ''<'', CHR ''>'', CHR 0x22} = {}"
proof -
  have "unescape (concat (map escape_char t)) = t" by (induction t) (simp_all add: unescape_char)
  then show ?thesis by (simp only: escape_concat [symmetric] escape_set)
qed

subsection \<open>Markup\<close>

text \<open>The number of tags a part opens: its \<open><\<close> characters.\<close>

definition tags :: "string \<Rightarrow> nat" where "tags s = count_list s CHR ''<''"

lemma tags_simps [simp]:
  "tags [] = 0" "tags (s @ t) = tags s + tags t"
  "tags (c # s) = (if c = CHR ''<'' then 1 else 0) + tags s"
  by (simp_all add: tags_def)

lemma tags_escape [simp]: "tags (escape t) = 0"
  using escape_set [of t] by (auto simp: tags_def intro: count_list_none)

lemma tags_fixed [simp]: "tags (fixed k x) = 0"
  by (simp add: tags_def fixed_clean is_ascii_digit_def)

lemma tags_str_int [simp]: "tags (str_int i) = 0"
  using str_int_chars [of "CHR ''<''" i] by (auto simp: tags_def is_ascii_digit_def intro: count_list_none)

lemma tags_join [simp]: "tags (join_with sep ys) = sum_list (map tags ys) + (length ys - 1) * tags sep"
  by (cases "ys = []") (simp_all add: tags_def [abs_def] count_join)

lemma tags_drawn [simp]: "tags (drawn coords) = 0"
  by (simp add: drawn_def o_def split_def)

lemma tags_format_tick [simp]: "tags (format_tick v) = 0"
  by (simp add: format_tick_def)

lemma head_tags: "sum_list (map tags (head_parts label w h)) = 6"
  by (simp add: head_parts_def STYLE_def)

lemma tick_tags: "sum_list (map tags (tick_parts box y_max tick)) = 3"
  by (simp add: tick_parts_def Let_def)

lemma line_tags:
  "tags (series_color line) = 0 \<Longrightarrow> sum_list (map tags (line_parts r y_max box h (i, line))) = 4"
  by (simp add: line_parts_def Let_def)

lemma foot_tags: "sum_list (map tags (foot_parts x_label y_label box h)) = 5"
  by (simp add: foot_parts_def Let_def)

lemma all_line_tags:
  "\<forall>line \<in> set lines. tags (series_color line) = 0
    \<Longrightarrow> sum_list (map tags (concat (map (line_parts r y_max box h) (List.enumerate n lines)))) = 4 * length lines"
  by (induction lines arbitrary: n) (simp_all add: line_tags)

lemma all_tick_tags:
  "sum_list (map tags (concat (map (tick_parts box y_max) ts))) = 3 * length ts"
  by (induction ts) (simp_all add: tick_tags)

lemma length_ticks: "length (ticks y_max n) = Suc n"
  by (simp add: ticks_def)

text \<open>No label can inject markup: whatever the title, the axis labels, the names of the series and the data
  are, the chart has the 26 tags of its frame and four per series, provided the colours come from the
  palette or contain no tag themselves.
\<close>

theorem labels_cannot_inject:
  assumes "render_chart lines label y_label x_label w h = Inr svg"
    and "\<forall>line \<in> set lines. series_color line \<in> set PALETTE"
  shows "count_list svg CHR ''<'' = 26 + 4 * length lines"
proof -
  let ?box = "chart_box w h" and ?y = "y_max_of lines"
  let ?parts = "head_parts label w h @ concat (map (tick_parts ?box ?y) (ticks ?y 4))
    @ concat (map (line_parts (x_range_of lines) ?y ?box h) (List.enumerate 0 lines))
    @ foot_parts x_label y_label ?box h"
  have svg: "svg = join_with [CHR 0x0A] ?parts @ [CHR 0x0A]"
    using assms(1) by (simp add: render_chart_def Let_def split: if_splits list.splits)
  have "\<forall>c \<in> set PALETTE. tags c = 0" by (simp add: PALETTE_def)
  with assms(2) have colours: "\<forall>line \<in> set lines. tags (series_color line) = 0" by blast
  have "tags (join_with [CHR 0x0A] ?parts) = sum_list (map tags ?parts)" by simp
  also have "\<dots> = 26 + 4 * length lines"
    by (simp add: head_tags foot_tags all_tick_tags all_line_tags [OF colours] length_ticks
        del: tags_simps map_concat)
  finally show ?thesis by (simp add: svg tags_def)
qed

definition demo_series :: series where
  "demo_series = \<lparr>series_name = ''a<b'', series_points = [(0, 0), (15, 42)], series_color = ''#1f77b4''\<rparr>"

lemma demo_chart: "\<exists>svg. render_chart [demo_series] ''<script>'' ''ms'' ''s'' 760 300 = Inr svg"
  by (simp add: render_chart_def demo_series_def Let_def)

theorem labels_cannot_inject_witness:
  "\<exists>svg. render_chart [demo_series] ''<script>'' ''ms'' ''s'' 760 300 = Inr svg \<and> count_list svg CHR ''<'' = 30"
proof -
  obtain svg where svg: "render_chart [demo_series] ''<script>'' ''ms'' ''s'' 760 300 = Inr svg"
    using demo_chart by blast
  from labels_cannot_inject [OF this] have "count_list svg CHR ''<'' = 30"
    by (simp add: demo_series_def PALETTE_def)
  with svg show ?thesis by blast
qed

subsection \<open>Points and the box\<close>

lemma scaled_in:
  assumes "0 \<le> (a :: rat)" and "a \<le> b" and "0 \<le> (k :: rat)"
  shows "0 \<le> k * a / or_one b \<and> k * a / or_one b \<le> k"
proof (cases "b = 0")
  case True
  with assms show ?thesis by (simp add: or_one_def)
next
  case False
  with assms have "0 < b" by linarith
  moreover have "k * a \<le> k * b" using assms by (intro mult_left_mono) simp_all
  ultimately show ?thesis using assms by (simp add: or_one_def pos_divide_le_eq)
qed

lemma point_in_chart:
  assumes "line \<in> set lines" and "(x, y) \<in> set (series_points line)"
  shows "fst (x_range_of lines) \<le> x \<and> x \<le> snd (x_range_of lines) \<and> y \<le> y_max_of lines"
proof -
  have p: "(x, y) \<in> set (all_points lines)" using assms by (auto simp: all_points_def)
  then have "x \<in> fst ` set (all_points lines)" and "y \<in> snd ` set (all_points lines)" by force+
  then show ?thesis by (simp add: x_range_of_def y_max_of_def)
qed

text \<open>
  Nothing is drawn outside the drawing box: in a chart of non-negative values every point of every
  series is mapped into the box, and the axis starts at zero: a value of zero lies on the lower edge and
  the largest value on the upper one.
\<close>

theorem points_in_box:
  assumes pos: "\<forall>(x, y) \<in> set (all_points lines). 0 \<le> y"
    and size: "PAD_LEFT + PAD_RIGHT \<le> w" "PAD_TOP + PAD_BOTTOM \<le> h"
  shows "(\<forall>line \<in> set lines.
      \<forall>(u, v) \<in> set (project (series_points line) (x_range_of lines) (y_max_of lines) (chart_box w h)).
      0 \<le> u \<and> u \<le> of_int (fst (chart_box w h)) \<and> 0 \<le> v \<and> v \<le> of_int (snd (chart_box w h)))
    \<and> (\<forall>x. \<exists>u. project [(x, 0)] (x_range_of lines) (y_max_of lines) (chart_box w h)
          = [(u, of_int (snd (chart_box w h)))])
    \<and> (y_max_of lines \<noteq> 0 \<longrightarrow> (\<forall>x. \<exists>u.
          project [(x, y_max_of lines)] (x_range_of lines) (y_max_of lines) (chart_box w h) = [(u, 0)]))"
proof -
  let ?w = "of_int (fst (chart_box w h)) :: rat" and ?h = "of_int (snd (chart_box w h)) :: rat"
  have wh: "0 \<le> ?w" "0 \<le> ?h" using size by (simp_all add: chart_box_def)
  have "0 \<le> ?w * (x - fst (x_range_of lines)) / or_one (snd (x_range_of lines) - fst (x_range_of lines))
      \<and> ?w * (x - fst (x_range_of lines)) / or_one (snd (x_range_of lines) - fst (x_range_of lines)) \<le> ?w
      \<and> 0 \<le> ?h * (1 - y / or_one (y_max_of lines)) \<and> ?h * (1 - y / or_one (y_max_of lines)) \<le> ?h"
    if line: "line \<in> set lines" and p: "(x, y) \<in> set (series_points line)" for line x y
  proof -
    have "0 \<le> y" using pos line p by (force simp: all_points_def)
    with point_in_chart [OF line p] scaled_in [of y "y_max_of lines" ?h] wh
    have "0 \<le> ?h * y / or_one (y_max_of lines) \<and> ?h * y / or_one (y_max_of lines) \<le> ?h" by simp
    moreover have "?h * (1 - y / or_one (y_max_of lines)) = ?h - ?h * y / or_one (y_max_of lines)"
      by (simp add: right_diff_distrib)
    ultimately show ?thesis
      using point_in_chart [OF line p] wh scaled_in
        [of "x - fst (x_range_of lines)" "snd (x_range_of lines) - fst (x_range_of lines)" ?w] by simp
  qed
  then have "\<forall>line \<in> set lines.
      \<forall>(u, v) \<in> set (project (series_points line) (x_range_of lines) (y_max_of lines) (chart_box w h)).
      0 \<le> u \<and> u \<le> ?w \<and> 0 \<le> v \<and> v \<le> ?h"
    by (auto simp: project_def split_def Let_def)
  moreover have "\<exists>u. project [(x, 0)] (x_range_of lines) (y_max_of lines) (chart_box w h) = [(u, ?h)]" for x
    by (simp add: project_def split_def Let_def)
  moreover have "\<exists>u. project [(x, y_max_of lines)] (x_range_of lines) (y_max_of lines) (chart_box w h) = [(u, 0)]"
    if "y_max_of lines \<noteq> 0" for x
    using that by (simp add: project_def split_def Let_def or_one_def)
  ultimately show ?thesis by blast
qed

theorem points_in_box_witness:
  "\<forall>(u, v) \<in> set (project (series_points demo_series) (x_range_of [demo_series]) (y_max_of [demo_series])
      (chart_box WIDTH HEIGHT)). 0 \<le> u \<and> u \<le> 680 \<and> 0 \<le> v \<and> v \<le> 204"
proof -
  have "\<forall>(x, y) \<in> set (all_points [demo_series]). 0 \<le> y" by (simp add: all_points_def demo_series_def)
  from points_in_box [OF this, of WIDTH HEIGHT] show ?thesis
    by (simp add: PAD_LEFT_def PAD_RIGHT_def PAD_TOP_def PAD_BOTTOM_def WIDTH_def HEIGHT_def chart_box_def)
qed

end
