(* ===== verification/Migrations.thy ===== *)
theory Migrations
  imports ArticleRepo
begin

text \<open>
  \<open>migrations/versions/*.py\<close>: the schema operations of the four revisions, up and down. An operation
  is a value of type \<open>ddl\<close>; \<open>run_ddl\<close> is what Alembic's operation does on MySQL, as far as the
  revisions rely on it, with the InnoDB rules the docstring of revision 0004 names: a foreign key is
  backed by an index that starts with its columns, one is made when there is none, an explicit index that
  can do the job replaces the one so made, and an index a foreign key needs cannot be dropped (error
  1553). Of the rows of the tables only the role names are kept, and which of them an account holds.
\<close>

subsection \<open>Schemas\<close>

datatype sql_type = TINYINT_UNSIGNED | BIGINT_UNSIGNED | STRING nat | MEDIUMTEXT | DATETIME6

record sql_column =
  sql_name :: string
  sql_type :: sql_type
  autoincrement :: bool
  server_default :: "string option"
  nullable :: bool

record foreign_key =
  fk_name :: string
  fk_columns :: "string list"
  fk_table :: string
  fk_references :: "string list"
  fk_ondelete :: string
  fk_onupdate :: string

record sql_index =
  index_name :: string
  index_columns :: "string list"
  index_implicit :: bool      \<comment> \<open>made by InnoDB for a foreign key\<close>

record sql_table =
  sql_columns :: "sql_column list"
  primary_key :: "string \<times> string list"
  unique_keys :: "(string \<times> string list) list"
  foreign_keys :: "foreign_key set"
  sql_indexes :: "sql_index set"
  table_options :: "(string \<times> string) list"

record database =
  tables :: "(string \<times> sql_table) list"
  role_rows :: "string set"
  roles_in_use :: "string set"

datatype ddl =
    CreateTable string sql_table
  | DropTable string
  | CreateIndex string string "string list"
  | DropIndex string string
  | DropForeignKey string string
  | CreateForeignKey string foreign_key
  | InsertRoles "string list"
  | DeleteRoles "string list"

subsection \<open>The revisions\<close>

definition MYSQL_TABLE_KWARGS :: "(string \<times> string) list" where
  "MYSQL_TABLE_KWARGS =
     [(''mysql_engine'', ''InnoDB''), (''mysql_charset'', ''utf8mb4''),
      (''mysql_collate'', ''utf8mb4_0900_ai_ci'')]"

definition CURRENT_TIMESTAMP_6 :: string where "CURRENT_TIMESTAMP_6 = ''CURRENT_TIMESTAMP(6)''"

definition ON_UPDATE_CURRENT_TIMESTAMP_6 :: string where
  "ON_UPDATE_CURRENT_TIMESTAMP_6 = ''CURRENT_TIMESTAMP(6) ON UPDATE CURRENT_TIMESTAMP(6)''"

definition plain_column :: "string \<Rightarrow> sql_type \<Rightarrow> sql_column" where
  "plain_column name kind =
     \<lparr>sql_name = name, sql_type = kind, autoincrement = False, server_default = None, nullable = False\<rparr>"

definition id_column :: "sql_type \<Rightarrow> sql_column" where
  "id_column kind = (plain_column ''id'' kind)\<lparr>autoincrement := True\<rparr>"

definition time_column :: "string \<Rightarrow> string \<Rightarrow> sql_column" where
  "time_column name stamp = (plain_column name DATETIME6)\<lparr>server_default := Some stamp\<rparr>"

definition restrict_key :: "string \<Rightarrow> string \<Rightarrow> string \<Rightarrow> foreign_key" where
  "restrict_key name here target =
     \<lparr>fk_name = name, fk_columns = [here], fk_table = target, fk_references = [''id''],
      fk_ondelete = ''RESTRICT'', fk_onupdate = ''RESTRICT''\<rparr>"

definition roles_table :: sql_table where
  "roles_table =
     \<lparr>sql_columns =
        [id_column TINYINT_UNSIGNED, plain_column ''name'' (STRING 32),
         time_column ''created_at'' CURRENT_TIMESTAMP_6],
      primary_key = (''pk_roles'', [''id'']), unique_keys = [(''uq_roles_name'', [''name''])],
      foreign_keys = {}, sql_indexes = {}, table_options = MYSQL_TABLE_KWARGS\<rparr>"

definition users_table :: sql_table where
  "users_table =
     \<lparr>sql_columns =
        [id_column BIGINT_UNSIGNED, plain_column ''email'' (STRING 254),
         plain_column ''password_hash'' (STRING 255), plain_column ''role_id'' TINYINT_UNSIGNED,
         time_column ''created_at'' CURRENT_TIMESTAMP_6,
         time_column ''updated_at'' ON_UPDATE_CURRENT_TIMESTAMP_6],
      primary_key = (''pk_users'', [''id'']), unique_keys = [(''uq_users_email'', [''email''])],
      foreign_keys = {restrict_key ''fk_users_role_id'' ''role_id'' ''roles''},
      sql_indexes = {}, table_options = MYSQL_TABLE_KWARGS\<rparr>"

definition author_key :: foreign_key where
  "author_key = restrict_key ''fk_articles_author_id'' ''author_id'' ''users''"

definition articles_table :: sql_table where
  "articles_table =
     \<lparr>sql_columns =
        [id_column BIGINT_UNSIGNED, plain_column ''author_id'' BIGINT_UNSIGNED,
         plain_column ''title'' (STRING 255), plain_column ''body'' MEDIUMTEXT,
         time_column ''created_at'' CURRENT_TIMESTAMP_6,
         time_column ''updated_at'' ON_UPDATE_CURRENT_TIMESTAMP_6,
         (plain_column ''deleted_at'' DATETIME6)\<lparr>nullable := True\<rparr>],
      primary_key = (''pk_articles'', [''id'']), unique_keys = [],
      foreign_keys = {author_key}, sql_indexes = {}, table_options = MYSQL_TABLE_KWARGS\<rparr>"

definition upgrade_0001 :: "ddl list" where
  "upgrade_0001 =
     [CreateTable ''roles'' roles_table, CreateTable ''users'' users_table,
      CreateTable ''articles'' articles_table]"

definition downgrade_0001 :: "ddl list" where
  "downgrade_0001 = [DropTable ''articles'', DropTable ''users'', DropTable ''roles'']"

definition upgrade_0002 :: "ddl list" where "upgrade_0002 = [InsertRoles [''user'', ''admin'']]"

definition downgrade_0002 :: "ddl list" where "downgrade_0002 = [DeleteRoles [''user'', ''admin'']]"

definition upgrade_0003 :: "ddl list" where
  "upgrade_0003 = [CreateIndex ''idx_articles_deleted_created'' ''articles'' [''deleted_at'', ''created_at'']]"

definition downgrade_0003 :: "ddl list" where
  "downgrade_0003 = [DropIndex ''idx_articles_deleted_created'' ''articles'']"

definition upgrade_0004 :: "ddl list" where
  "upgrade_0004 =
     [CreateIndex ''idx_articles_author_deleted_created'' ''articles''
        [''author_id'', ''deleted_at'', ''created_at'']]"

definition downgrade_0004 :: "ddl list" where
  "downgrade_0004 =
     [DropForeignKey ''fk_articles_author_id'' ''articles'',
      DropIndex ''idx_articles_author_deleted_created'' ''articles'',
      CreateForeignKey ''articles'' author_key]"

definition revisions :: "(ddl list \<times> ddl list) list" where
  "revisions =
     [(upgrade_0001, downgrade_0001), (upgrade_0002, downgrade_0002),
      (upgrade_0003, downgrade_0003), (upgrade_0004, downgrade_0004)]"

subsection \<open>What the operations do\<close>

definition ER_DROP_INDEX_FK :: string where "ER_DROP_INDEX_FK = ''1553''"

text \<open>\<open>keep P A\<close> is the part of a set that satisfies \<open>P\<close>; on a set written out it computes.\<close>

definition keep :: "('a \<Rightarrow> bool) \<Rightarrow> 'a set \<Rightarrow> 'a set" where
  "keep P A = {x \<in> A. P x}"

lemma keep_simps [simp]:
  "keep P {} = {}" "keep P (insert a A) = (if P a then insert a (keep P A) else keep P A)"
  "x \<in> keep P A \<longleftrightarrow> x \<in> A \<and> P x"
  by (auto simp: keep_def)

definition covers :: "string list \<Rightarrow> foreign_key \<Rightarrow> bool" where
  "covers cols fk \<longleftrightarrow> take (length (fk_columns fk)) cols = fk_columns fk"

definition keys_of :: "sql_table \<Rightarrow> string list set" where
  "keys_of t = insert (snd (primary_key t)) (snd ` set (unique_keys t) \<union> index_columns ` sql_indexes t)"

definition backed :: "sql_table \<Rightarrow> foreign_key \<Rightarrow> bool" where
  "backed t fk \<longleftrightarrow> (\<exists>cols \<in> keys_of t. covers cols fk)"

definition implicit_index :: "foreign_key \<Rightarrow> sql_index" where
  "implicit_index fk =
     \<lparr>index_name = fk_name fk, index_columns = fk_columns fk, index_implicit = True\<rparr>"

definition back_key :: "foreign_key \<Rightarrow> sql_table \<Rightarrow> sql_table" where
  "back_key fk t =
     (if backed t fk then t else t\<lparr>sql_indexes := insert (implicit_index fk) (sql_indexes t)\<rparr>)"

definition back_keys :: "sql_table \<Rightarrow> sql_table" where
  "back_keys t =
     t\<lparr>sql_indexes := sql_indexes t \<union> implicit_index ` keep (\<lambda>fk. \<not> backed t fk) (foreign_keys t)\<rparr>"

definition put_table :: "string \<Rightarrow> sql_table \<Rightarrow> database \<Rightarrow> database" where
  "put_table name t d = d\<lparr>tables := map (\<lambda>(n, u). if n = name then (n, t) else (n, u)) (tables d)\<rparr>"

definition on_table ::
  "string \<Rightarrow> (sql_table \<Rightarrow> string + sql_table) \<Rightarrow> database \<Rightarrow> string + database" where
  "on_table name change d =
     (case map_of (tables d) name of
        None \<Rightarrow> Inl (''no table '' @ name)
      | Some t \<Rightarrow> sum_bind (change t) (\<lambda>t'. Inr (put_table name t' d)))"

definition create_index :: "string \<Rightarrow> string list \<Rightarrow> sql_table \<Rightarrow> string + sql_table" where
  "create_index name cols t =
     (if name \<in> index_name ` sql_indexes t then Inl (''duplicate index '' @ name)
      else
        let redundant = (\<lambda>i. index_implicit i \<and> take (length (index_columns i)) cols = index_columns i) in
        Inr (t\<lparr>sql_indexes :=
               insert \<lparr>index_name = name, index_columns = cols, index_implicit = False\<rparr>
                 (keep (\<lambda>i. \<not> redundant i) (sql_indexes t))\<rparr>))"

definition drop_index :: "string \<Rightarrow> sql_table \<Rightarrow> string + sql_table" where
  "drop_index name t =
     (if name \<notin> index_name ` sql_indexes t then Inl (''no index '' @ name)
      else
        let t' = t\<lparr>sql_indexes := keep (\<lambda>i. index_name i \<noteq> name) (sql_indexes t)\<rparr> in
        if \<forall>fk \<in> foreign_keys t'. backed t' fk then Inr t' else Inl ER_DROP_INDEX_FK)"

definition drop_foreign_key :: "string \<Rightarrow> sql_table \<Rightarrow> string + sql_table" where
  "drop_foreign_key name t =
     (if name \<notin> fk_name ` foreign_keys t then Inl (''no foreign key '' @ name)
      else Inr (t\<lparr>foreign_keys := keep (\<lambda>fk. fk_name fk \<noteq> name) (foreign_keys t)\<rparr>))"

definition create_foreign_key :: "foreign_key \<Rightarrow> sql_table \<Rightarrow> string + sql_table" where
  "create_foreign_key fk t =
     (if fk_name fk \<in> fk_name ` foreign_keys t then Inl (''duplicate foreign key '' @ fk_name fk)
      else Inr (back_key fk (t\<lparr>foreign_keys := insert fk (foreign_keys t)\<rparr>)))"

definition table_names :: "database \<Rightarrow> string set" where
  "table_names d = fst ` set (tables d)"

fun run_ddl :: "ddl \<Rightarrow> database \<Rightarrow> string + database" where
  "run_ddl (CreateTable name t) d =
     (if name \<in> table_names d then Inl (''table exists: '' @ name)
      else if \<not> fk_table ` foreign_keys t \<subseteq> insert name (table_names d) then Inl ''missing parent table''
      else Inr (d\<lparr>tables := tables d @ [(name, back_keys t)]\<rparr>))"
| "run_ddl (DropTable name) d =
     (if name \<notin> table_names d then Inl (''no table '' @ name)
      else if \<exists>(n, t) \<in> set (tables d). n \<noteq> name \<and> name \<in> fk_table ` foreign_keys t
      then Inl (''referenced by a foreign key: '' @ name)
      else Inr (d\<lparr>tables := filter (\<lambda>(n, _). n \<noteq> name) (tables d),
                 role_rows := (if name = ''roles'' then {} else role_rows d)\<rparr>))"
| "run_ddl (CreateIndex name tbl cols) d = on_table tbl (create_index name cols) d"
| "run_ddl (DropIndex name tbl) d = on_table tbl (drop_index name) d"
| "run_ddl (DropForeignKey name tbl) d = on_table tbl (drop_foreign_key name) d"
| "run_ddl (CreateForeignKey tbl fk) d =
     (if fk_table fk \<notin> table_names d then Inl ''missing parent table''
      else on_table tbl (create_foreign_key fk) d)"
| "run_ddl (InsertRoles names) d =
     (if ''roles'' \<notin> table_names d then Inl ''no table roles''
      else Inr (d\<lparr>role_rows := role_rows d \<union> set names\<rparr>))"
| "run_ddl (DeleteRoles names) d =
     (if ''roles'' \<notin> table_names d then Inl ''no table roles''
      else if set names \<inter> roles_in_use d \<noteq> {} then Inl ''referenced by a foreign key: roles''
      else Inr (d\<lparr>role_rows := role_rows d - set names\<rparr>))"

fun run_all :: "ddl list \<Rightarrow> database \<Rightarrow> string + database" where
  "run_all [] d = Inr d"
| "run_all (op # ops) d = sum_bind (run_ddl op d) (run_all ops)"

lemma run_all_append: "run_all (xs @ ys) d = sum_bind (run_all xs d) (run_all ys)"
  by (induction xs arbitrary: d) (simp_all add: sum_bind_def split: sum.splits)

subsection \<open>Up and down again\<close>

lemma covers_author [simp]: "covers cols author_key \<longleftrightarrow> take 1 cols = [''author_id'']"
  by (simp add: covers_def author_key_def restrict_key_def)

lemma put_table_same:
  assumes "distinct (map fst (tables d))" and "map_of (tables d) name = Some t"
  shows "put_table name t (put_table name u d) = d" and "put_table name t d = d"
proof -
  have "map (\<lambda>(n, u). if n = name then (n, t) else (n, u)) ts = ts"
    if "distinct (map fst ts)" "map_of ts name = Some t" for ts :: "(string \<times> sql_table) list"
    using that
  proof (induction ts)
    case (Cons x ts)
    obtain n v where x: "x = (n, v)" by fastforce
    show ?case
    proof (cases "n = name")
      case True
      then have "map (\<lambda>(n, u). if n = name then (n, t) else (n, u)) ts = ts"
        using Cons.prems(1) x by (intro map_idI) force
      with True Cons.prems x show ?thesis by simp
    next
      case False
      with Cons x show ?thesis by simp
    qed
  qed simp
  from this [OF assms] show same: "put_table name t d = d" by (simp add: put_table_def)
  have "(\<lambda>(n, u). if n = name then (n, t) else (n, u)) \<circ> (\<lambda>(n, v). if n = name then (n, u) else (n, v))
      = (\<lambda>(n, u). if n = name then (n, t) else (n, u))"
    by (auto simp: fun_eq_iff)
  then have "put_table name t (put_table name u d) = put_table name t d"
    by (simp add: put_table_def)
  with same show "put_table name t (put_table name u d) = d" by simp
qed

lemma map_of_put_table:
  "map_of (tables d) name = Some t \<Longrightarrow> map_of (tables (put_table name u d)) name = Some u"
proof -
  have "map_of (map (\<lambda>(n, v). if n = name then (n, u) else (n, v)) ts) name = Some u"
    if "map_of ts name = Some t" for ts :: "(string \<times> sql_table) list"
    using that by (induction ts) (auto split: if_splits)
  then show "map_of (tables d) name = Some t \<Longrightarrow> map_of (tables (put_table name u d)) name = Some u"
    by (simp add: put_table_def)
qed

text \<open>
  The articles table as revision 0003 leaves it, as far as 0004 depends on it: its one foreign key is the
  author's, the implicit index is the only one that can back it, and the new name is free.
\<close>

definition author_indexed :: "sql_table \<Rightarrow> bool" where
  "author_indexed t \<longleftrightarrow>
     foreign_keys t = {author_key} \<and> implicit_index author_key \<in> sql_indexes t
     \<and> (\<forall>i \<in> sql_indexes t. (index_implicit i \<longrightarrow> i = implicit_index author_key)
          \<and> (i \<noteq> implicit_index author_key \<longrightarrow> \<not> covers (index_columns i) author_key))
     \<and> (\<forall>cols \<in> insert (snd (primary_key t)) (snd ` set (unique_keys t)). \<not> covers cols author_key)
     \<and> ''idx_articles_author_deleted_created'' \<notin> index_name ` sql_indexes t"

definition author_index :: sql_index where
  "author_index =
     \<lparr>index_name = ''idx_articles_author_deleted_created'',
      index_columns = [''author_id'', ''deleted_at'', ''created_at''], index_implicit = False\<rparr>"

lemma create_author_index:
  assumes "author_indexed t"
  shows "create_index (index_name author_index) (index_columns author_index) t
    = Inr (t\<lparr>sql_indexes := insert author_index (sql_indexes t - {implicit_index author_key})\<rparr>)"
proof -
  let ?imp = "implicit_index author_key"
  have cols: "index_columns ?imp = [''author_id'']"
    by (simp add: implicit_index_def author_key_def restrict_key_def)
  have imp: "index_implicit ?imp" by (simp add: implicit_index_def)
  have "keep (\<lambda>i. \<not> (index_implicit i
        \<and> take (length (index_columns i)) (index_columns author_index) = index_columns i)) (sql_indexes t)
      = sql_indexes t - {?imp}"
    using assms cols imp by (auto simp: keep_def author_indexed_def author_index_def)
  moreover have "index_name author_index \<notin> index_name ` sql_indexes t"
    using assms by (simp add: author_indexed_def author_index_def)
  moreover have "\<lparr>index_name = index_name author_index, index_columns = index_columns author_index,
      index_implicit = False\<rparr> = author_index" by (simp add: author_index_def)
  ultimately show ?thesis by (simp add: create_index_def Let_def)
qed

lemma drop_author_index:
  assumes "author_indexed t"
  defines "t1 \<equiv> t\<lparr>sql_indexes := insert author_index (sql_indexes t - {implicit_index author_key})\<rparr>"
  shows "drop_index (index_name author_index) t1 = Inl ER_DROP_INDEX_FK"
    and "sum_bind (drop_foreign_key (fk_name author_key) t1) (\<lambda>u.
         sum_bind (drop_index (index_name author_index) u) (create_foreign_key author_key)) = Inr t"
proof -
  let ?rest = "sql_indexes t - {implicit_index author_key}"
  have fresh: "\<forall>i \<in> sql_indexes t. index_name i \<noteq> index_name author_index"
    using assms(1) by (force simp: author_indexed_def author_index_def)
  have filter: "keep (\<lambda>i. index_name i \<noteq> index_name author_index) ?rest = ?rest"
    using fresh by (auto simp: keep_def)
  have fks: "foreign_keys t = {author_key}" using assms(1) by (simp add: author_indexed_def)
  have alone: "\<not> backed (t\<lparr>sql_indexes := ?rest\<rparr>) author_key"
    using assms(1) by (auto simp: backed_def keys_of_def author_indexed_def)
  then have bare: "\<not> backed (u\<lparr>sql_indexes := ?rest, foreign_keys := f\<rparr>) author_key"
    if "primary_key u = primary_key t" "unique_keys u = unique_keys t" for u f
    using that by (simp add: backed_def keys_of_def)
  from alone show "drop_index (index_name author_index) t1 = Inl ER_DROP_INDEX_FK"
    by (simp add: drop_index_def t1_def filter Let_def fks)
  have "keep (\<lambda>fk. fk_name fk \<noteq> fk_name author_key) {author_key} = {}" by auto
  then have one: "drop_foreign_key (fk_name author_key) t1 = Inr (t1\<lparr>foreign_keys := {}\<rparr>)"
    by (simp add: drop_foreign_key_def t1_def fks)
  have two: "drop_index (index_name author_index) (t1\<lparr>foreign_keys := {}\<rparr>)
      = Inr (t\<lparr>sql_indexes := ?rest, foreign_keys := {}\<rparr>)"
    by (simp add: drop_index_def t1_def filter Let_def)
  have "insert (implicit_index author_key) ?rest = sql_indexes t"
    using assms(1) by (auto simp: author_indexed_def)
  with bare [of t "{author_key}"] fks
  have "create_foreign_key author_key (t\<lparr>sql_indexes := ?rest, foreign_keys := {}\<rparr>) = Inr t"
    by (simp add: create_foreign_key_def back_key_def)
  with one two show "sum_bind (drop_foreign_key (fk_name author_key) t1) (\<lambda>u.
         sum_bind (drop_index (index_name author_index) u) (create_foreign_key author_key)) = Inr t"
    by simp
qed

lemma author_index_cycle:
  assumes d: "distinct (map fst (tables d))" "map_of (tables d) ''articles'' = Some t"
    and parent: "''users'' \<in> table_names d" and t: "author_indexed t"
  shows "\<exists>d1. run_all upgrade_0004 d = Inr d1 \<and> run_all downgrade_0004 d1 = Inr d
    \<and> run_ddl (DropIndex ''idx_articles_author_deleted_created'' ''articles'') d1 = Inl ER_DROP_INDEX_FK"
proof -
  let ?t1 = "t\<lparr>sql_indexes := insert author_index (sql_indexes t - {implicit_index author_key})\<rparr>"
  let ?d1 = "put_table ''articles'' ?t1 d"
  have names: "index_name author_index = ''idx_articles_author_deleted_created''"
      "index_columns author_index = [''author_id'', ''deleted_at'', ''created_at'']"
      "fk_name author_key = ''fk_articles_author_id''" "fk_table author_key = ''users''"
    by (simp_all add: author_index_def author_key_def restrict_key_def)
  note at = map_of_put_table [OF d(2)]
  have up: "run_all upgrade_0004 d = Inr ?d1"
    using create_author_index [OF t] d(2) names by (simp add: upgrade_0004_def on_table_def)
  have refused: "run_ddl (DropIndex ''idx_articles_author_deleted_created'' ''articles'') ?d1 = Inl ER_DROP_INDEX_FK"
    using drop_author_index(1) [OF t] at names by (simp add: on_table_def)
  from drop_author_index(2) [OF t] obtain t2 t3 where
    steps: "drop_foreign_key (fk_name author_key) ?t1 = Inr t2"
      "drop_index (index_name author_index) t2 = Inr t3" "create_foreign_key author_key t3 = Inr t"
    by (auto simp: sum_bind_eq_Inr)
  have again: "put_table ''articles'' u (put_table ''articles'' v d) = put_table ''articles'' u d" for u v
  proof -
    have "(\<lambda>(n, w). if n = ''articles'' then (n, u) else (n, w))
        \<circ> (\<lambda>(n, w). if n = ''articles'' then (n, v) else (n, w))
        = (\<lambda>(n, w). if n = ''articles'' then (n, u) else (n, w))" by (auto simp: fun_eq_iff)
    then show ?thesis by (simp add: put_table_def)
  qed
  have kept: "table_names (put_table ''articles'' u d) = table_names d" for u
    by (force simp: table_names_def put_table_def)
  have "run_all downgrade_0004 ?d1 = Inr (put_table ''articles'' t d)"
    using steps at names parent by (simp add: downgrade_0004_def on_table_def again kept)
  then have "run_all downgrade_0004 ?d1 = Inr d" using put_table_same(2) [OF d] by simp
  with up refused show ?thesis by blast
qed

subsection \<open>The whole chain\<close>

definition empty_database :: database where
  "empty_database = \<lparr>tables = [], role_rows = {}, roles_in_use = {}\<rparr>"

definition schema_at :: "nat \<Rightarrow> string + database" where
  "schema_at k = run_all (concat (map fst (take k revisions))) empty_database"

lemma schema_at_Suc:
  assumes "k < 4" and "schema_at k = Inr d"
  shows "schema_at (Suc k) = run_all (fst (revisions ! k)) d"
proof -
  have "k < length revisions" using assms(1) by (simp add: revisions_def)
  with assms(2) show ?thesis by (simp add: schema_at_def take_Suc_conv_app_nth run_all_append)
qed

definition users_created :: sql_table where
  "users_created =
     users_table\<lparr>sql_indexes := {implicit_index (restrict_key ''fk_users_role_id'' ''role_id'' ''roles'')}\<rparr>"

definition articles_created :: "sql_index set \<Rightarrow> sql_table" where
  "articles_created extra = articles_table\<lparr>sql_indexes := insert (implicit_index author_key) extra\<rparr>"

definition deleted_created :: sql_index where
  "deleted_created =
     \<lparr>index_name = ''idx_articles_deleted_created'', index_columns = [''deleted_at'', ''created_at''],
      index_implicit = False\<rparr>"

lemma back_keys_one:
  assumes "foreign_keys t = {fk}" and "\<not> backed t fk"
  shows "back_keys t = t\<lparr>sql_indexes := insert (implicit_index fk) (sql_indexes t)\<rparr>"
proof -
  have "keep (\<lambda>fk. \<not> backed t fk) (foreign_keys t) = {fk}" using assms by auto
  then show ?thesis by (simp add: back_keys_def)
qed

lemma table_keys:
  "fk_table ` foreign_keys roles_table = {}" "fk_table ` foreign_keys users_table = {''roles''}"
  "fk_table ` foreign_keys articles_table = {''users''}"
  "fk_table ` foreign_keys users_created = {''roles''}"
  "fk_table ` foreign_keys (articles_created extra) = {''users''}"
  by (simp_all add: roles_table_def users_table_def articles_table_def users_created_def
      articles_created_def restrict_key_def author_key_def)

lemma tables_backed:
  "back_keys roles_table = roles_table" "back_keys users_table = users_created"
  "back_keys articles_table = articles_created {}"
proof -
  show "back_keys roles_table = roles_table" by (simp add: back_keys_def roles_table_def)
  have "\<not> backed users_table (restrict_key ''fk_users_role_id'' ''role_id'' ''roles'')"
    by (simp add: backed_def keys_of_def covers_def users_table_def restrict_key_def)
  from back_keys_one [OF _ this] show "back_keys users_table = users_created"
    by (simp add: users_created_def users_table_def)
  have "\<not> backed articles_table author_key"
    by (simp add: backed_def keys_of_def articles_table_def)
  from back_keys_one [OF _ this] show "back_keys articles_table = articles_created {}"
    by (simp add: articles_created_def articles_table_def)
qed

definition database_with :: "string set \<Rightarrow> sql_index set \<Rightarrow> database" where
  "database_with names extra =
     \<lparr>tables = [(''roles'', roles_table), (''users'', users_created), (''articles'', articles_created extra)],
      role_rows = names, roles_in_use = {}\<rparr>"

lemma schema_0: "schema_at 0 = Inr empty_database"
  by (simp add: schema_at_def)

lemma up_0001: "run_all upgrade_0001 empty_database = Inr (database_with {} {})"
  by (simp add: upgrade_0001_def empty_database_def table_names_def tables_backed database_with_def
      table_keys)

lemma down_0001: "run_all downgrade_0001 (database_with {} {}) = Inr empty_database"
  by (simp add: downgrade_0001_def empty_database_def table_names_def database_with_def table_keys)

lemma up_0002: "run_all upgrade_0002 (database_with {} {}) = Inr (database_with {''user'', ''admin''} {})"
  by (simp add: upgrade_0002_def database_with_def table_names_def)

lemma down_0002: "run_all downgrade_0002 (database_with {''user'', ''admin''} {}) = Inr (database_with {} {})"
  by (simp add: downgrade_0002_def database_with_def table_names_def)

lemma up_0003:
  "run_all upgrade_0003 (database_with names {}) = Inr (database_with names {deleted_created})"
  by (simp add: upgrade_0003_def database_with_def on_table_def put_table_def create_index_def
      articles_created_def articles_table_def implicit_index_def author_key_def restrict_key_def
      deleted_created_def Let_def insert_commute)

lemma down_0003:
  "run_all downgrade_0003 (database_with names {deleted_created}) = Inr (database_with names {})"
  by (simp add: downgrade_0003_def database_with_def on_table_def put_table_def drop_index_def
      articles_created_def articles_table_def implicit_index_def author_key_def restrict_key_def
      deleted_created_def Let_def backed_def keys_of_def covers_def)

lemma schema_author_indexed: "author_indexed (articles_created {deleted_created})"
  by (simp add: author_indexed_def articles_created_def articles_table_def deleted_created_def
      implicit_index_def author_key_def restrict_key_def covers_def)

text \<open>C40. Every migration is reversible where the chain runs it: from the empty database the four upgrades
  succeed one after the other, and the downgrade of each takes the database it made back to exactly the
  one before, implicit indexes included. The extra steps of downgrade 0004 are needed: dropping its index
  alone is refused with error 1553.
\<close>

theorem migrations_reversible:
  "(\<forall>k < 4. \<exists>d d'. schema_at k = Inr d \<and> schema_at (Suc k) = Inr d'
      \<and> run_all (snd (revisions ! k)) d' = Inr d)
   \<and> (\<exists>d. schema_at 4 = Inr d
      \<and> run_ddl (DropIndex ''idx_articles_author_deleted_created'' ''articles'') d = Inl ER_DROP_INDEX_FK)"
proof -
  let ?d3 = "database_with {''user'', ''admin''} {deleted_created}"
  have at1: "schema_at 1 = Inr (database_with {} {})"
    using schema_at_Suc [OF _ schema_0] up_0001 by (simp add: revisions_def)
  have at2: "schema_at 2 = Inr (database_with {''user'', ''admin''} {})"
    using schema_at_Suc [OF _ at1] up_0002 by (simp add: revisions_def numeral_2_eq_2)
  have at3: "schema_at 3 = Inr ?d3"
    using schema_at_Suc [OF _ at2] up_0003 by (simp add: revisions_def numeral_3_eq_3 numeral_2_eq_2)
  obtain d4 where d4: "run_all upgrade_0004 ?d3 = Inr d4" "run_all downgrade_0004 d4 = Inr ?d3"
    "run_ddl (DropIndex ''idx_articles_author_deleted_created'' ''articles'') d4 = Inl ER_DROP_INDEX_FK"
    using author_index_cycle [of ?d3 "articles_created {deleted_created}"] schema_author_indexed
    by (auto simp: database_with_def table_names_def)
  have at4: "schema_at 4 = Inr d4"
    using schema_at_Suc [OF _ at3] d4(1) by (simp add: revisions_def numeral_3_eq_3 eval_nat_numeral)
  have "\<exists>d d'. schema_at k = Inr d \<and> schema_at (Suc k) = Inr d' \<and> run_all (snd (revisions ! k)) d' = Inr d"
    if "k < 4" for k
  proof -
    from that consider "k = 0" | "k = 1" | "k = 2" | "k = 3" by linarith
    then show ?thesis
      using schema_0 at1 at2 at3 at4 down_0001 down_0002 down_0003 d4(2)
      by cases (auto simp: revisions_def eval_nat_numeral)
  qed
  with at4 d4(3) show ?thesis by blast
qed

theorem migrations_reversible_witness: "\<exists>d. schema_at 4 = Inr d"
  using migrations_reversible by blast

end
