(* ===== verification/Resources.thy ===== *)
theory Resources
  imports Settings Session
begin

text \<open>
  The objects a process holds for its lifetime: the settings (\<open>get_settings\<close> of \<open>app/config.py\<close>), the
  engine and the session maker (\<open>app/db/session.py\<close>) and the Redis client (\<open>app/cache/client.py\<close>), each
  behind \<open>functools.lru_cache\<close>, and the pool collector that resolves the engine at scrape time. Reading
  the environment and constructing an engine or a client are the parameter \<open>libraries\<close>; what has been
  constructed is kept in the lists \<open>engines_made\<close> and \<open>clients_made\<close>.
\<close>

definition async_database_url :: "settings \<Rightarrow> string" where
  "async_database_url s = database_url str_int ''aiomysql'' s"

definition sync_database_url :: "settings \<Rightarrow> string" where
  "sync_database_url s = database_url str_int ''pymysql'' s"

record sql_engine =
  engine_url :: string
  engine_options :: engine_kwargs
  engine_events :: engine_hooks

record redis_pool =
  client_url :: string
  client_options :: redis_kwargs

record session_maker =
  maker_bind :: sql_engine
  expire_on_commit :: bool

record process_state =
  settings_memo :: "settings option"
  engine_memo :: "sql_engine option"
  maker_memo :: "session_maker option"
  redis_memo :: "redis_pool option"
  engines_made :: "(string \<times> engine_kwargs) list"
  clients_made :: "(string \<times> redis_kwargs) list"
  collectors :: "collector list"

text \<open>\<open>Settings()\<close>, \<open>create_async_engine\<close> and \<open>Redis.from_url\<close>: they answer, or raise, by what the process
  has around it.\<close>

record 'm libraries =
  read_settings :: "'m process_state_scheme \<Rightarrow> exn + settings"
  engine_error :: "string \<Rightarrow> engine_kwargs \<Rightarrow> 'm process_state_scheme \<Rightarrow> exn option"
  client_error :: "string \<Rightarrow> redis_kwargs \<Rightarrow> 'm process_state_scheme \<Rightarrow> exn option"
  pool_numbers :: "sql_engine \<Rightarrow> 'm process_state_scheme \<Rightarrow> (int \<times> int \<times> int) option"

definition create_async_engine ::
  "'m libraries \<Rightarrow> string \<Rightarrow> engine_kwargs \<Rightarrow> ('m process_state_scheme, sql_engine) command" where
  "create_async_engine lib url kwargs w =
     (case engine_error lib url kwargs w of
        Some e \<Rightarrow> (Inl e, w)
      | None \<Rightarrow>
          let engine = \<lparr>engine_url = url, engine_options = kwargs,
                        engine_events = \<lparr>listeners_attached = False, listener_pairs = 0\<rparr>\<rparr> in
          (Inr engine, w\<lparr>engines_made := engines_made w @ [(url, kwargs)]\<rparr>))"

definition redis_from_url ::
  "'m libraries \<Rightarrow> string \<Rightarrow> redis_kwargs \<Rightarrow> ('m process_state_scheme, redis_pool) command" where
  "redis_from_url lib url kwargs w =
     (case client_error lib url kwargs w of
        Some e \<Rightarrow> (Inl e, w)
      | None \<Rightarrow>
          let client = \<lparr>client_url = url, client_options = kwargs\<rparr> in
          (Inr client, w\<lparr>clients_made := clients_made w @ [(url, kwargs)]\<rparr>))"

text \<open>\<open>functools.lru_cache\<close> on a function of no arguments: a result is kept, an exception is not.\<close>

definition lru_cache ::
  "('w \<Rightarrow> 'a option) \<Rightarrow> ('a \<Rightarrow> 'w \<Rightarrow> 'w) \<Rightarrow> ('w, 'a) command \<Rightarrow> ('w, 'a) command" where
  "lru_cache memo keep_result f w =
     (case memo w of
        Some a \<Rightarrow> (Inr a, w)
      | None \<Rightarrow>
          (case f w of
             (Inl e, w') \<Rightarrow> (Inl e, w')
           | (Inr a, w') \<Rightarrow> (Inr a, keep_result a w')))"

definition get_settings :: "'m libraries \<Rightarrow> ('m process_state_scheme, settings) command" where
  "get_settings lib =
     lru_cache settings_memo (\<lambda>s w. w\<lparr>settings_memo := Some s\<rparr>) (\<lambda>w. (read_settings lib w, w))"

text \<open>The bodies of the three accessors, and the accessors themselves.\<close>

definition make_engine :: "'m libraries \<Rightarrow> ('m process_state_scheme, sql_engine) command" where
  "make_engine lib =
       (bind_cmd (get_settings lib) (\<lambda>s.
        bind_cmd (\<lambda>w. (build_engine_kwargs s, w)) (\<lambda>kwargs.
        bind_cmd (create_async_engine lib (async_database_url s) kwargs) (\<lambda>engine.
        return_cmd (engine\<lparr>engine_events := attach_query_metrics (engine_events engine)\<rparr>)))))"

definition get_engine :: "'m libraries \<Rightarrow> ('m process_state_scheme, sql_engine) command" where
  "get_engine lib = lru_cache engine_memo (\<lambda>e w. w\<lparr>engine_memo := Some e\<rparr>) (make_engine lib)"

definition get_sessionmaker :: "'m libraries \<Rightarrow> ('m process_state_scheme, session_maker) command" where
  "get_sessionmaker lib =
     lru_cache maker_memo (\<lambda>k w. w\<lparr>maker_memo := Some k\<rparr>)
       (bind_cmd (get_engine lib) (\<lambda>engine.
        return_cmd \<lparr>maker_bind = engine, expire_on_commit = False\<rparr>))"

definition make_redis :: "'m libraries \<Rightarrow> ('m process_state_scheme, redis_pool) command" where
  "make_redis lib =
       (bind_cmd (get_settings lib) (\<lambda>s.
        bind_cmd (get_settings lib) (\<lambda>s'.
        bind_cmd (\<lambda>w. (build_redis_kwargs s', w)) (\<lambda>kwargs.
        redis_from_url lib (redis_url s) kwargs))))"

definition get_redis :: "'m libraries \<Rightarrow> ('m process_state_scheme, redis_pool) command" where
  "get_redis lib = lru_cache redis_memo (\<lambda>r w. w\<lparr>redis_memo := Some r\<rparr>) (make_redis lib)"

text \<open>The import of \<open>app.db.session\<close> registers the collector and constructs nothing.\<close>

definition import_session :: "'m process_state_scheme \<Rightarrow> 'm process_state_scheme" where
  "import_session w = w\<lparr>collectors := register_pool_metrics (collectors w)\<rparr>"

text \<open>\<open>_PoolCollector.collect\<close> with \<open>get_engine\<close> as its factory: whatever raises, no sample is given.\<close>

definition scrape_pool ::
  "'m libraries \<Rightarrow> 'm process_state_scheme \<Rightarrow> (string \<times> int) list option \<times> 'm process_state_scheme" where
  "scrape_pool lib w =
     (case get_engine lib w of
        (Inl e, w') \<Rightarrow> (None, w')
      | (Inr engine, w') \<Rightarrow> (pool_collect (pool_numbers lib engine w'), w'))"

subsection \<open>A memoised accessor\<close>

text \<open>What \<open>lru_cache\<close> promises to the callers of an accessor.\<close>

locale memoised =
  fixes call :: "('w, 'a) command" and memo :: "'w \<Rightarrow> 'a option"
  assumes hit: "memo w = Some a \<Longrightarrow> call w = (Inr a, w)"
    and kept: "call w = (Inr a, w') \<Longrightarrow> memo w' = Some a"
    and raised: "call w = (Inl e, w') \<Longrightarrow> memo w = None \<and> memo w' = None"
begin

text \<open>The second call answers what the first did, and does nothing.\<close>

lemma again: "call w = (Inr a, w') \<Longrightarrow> call w' = (Inr a, w')"
  using hit kept by blast

text \<open>A memo once set is what every later call of any kind that keeps it answers.\<close>

lemma answers: "memo w = Some a \<Longrightarrow> memo w' = memo w \<Longrightarrow> fst (call w') = Inr a"
  using hit by (metis fst_conv)

lemma memo_after: "memo (snd (call w)) = (case fst (call w) of Inl e \<Rightarrow> None | Inr a \<Rightarrow> Some a)"
  using kept raised by (cases "call w"; cases "fst (call w)") auto

end

text \<open>Commands that leave a part of the state alone.\<close>

definition keeps :: "('w \<Rightarrow> 'd) \<Rightarrow> ('w, 'a) command \<Rightarrow> bool" where
  "keeps part cmd \<longleftrightarrow> (\<forall>w. part (snd (cmd w)) = part w)"

lemma keepsD: "keeps part cmd \<Longrightarrow> cmd w = (r, w') \<Longrightarrow> part w' = part w"
  unfolding keeps_def by (metis snd_conv)

lemma keeps_bind: "keeps part m \<Longrightarrow> (\<And>a. keeps part (f a)) \<Longrightarrow> keeps part (bind_cmd m f)"
  by (auto simp: keeps_def bind_cmd_def split: prod.split sum.split) (metis snd_conv)+

lemma keeps_pure: "keeps part (\<lambda>w. (g w, w))" "keeps part (Pair x)" "keeps part (return_cmd a)"
  by (simp_all add: keeps_def)

lemma keeps_lru_cache:
  "keeps part f \<Longrightarrow> (\<And>a w. part (put a w) = part w) \<Longrightarrow> keeps part (lru_cache memo put f)"
  by (auto simp: keeps_def lru_cache_def split: option.split prod.split sum.split) (metis snd_conv)+

lemma memoised_lru_cache:
  assumes "\<And>a w. memo (put a w) = Some a" and "keeps memo f"
  shows "memoised (lru_cache memo put f) memo"
proof (unfold_locales)
  fix w e w'
  assume "lru_cache memo put f w = (Inl e, w')"
  then have "memo w = None" "f w = (Inl e, w')"
    by (auto simp: lru_cache_def split: option.splits prod.splits sum.splits)
  with assms(2) show "memo w = None \<and> memo w' = None" unfolding keeps_def by (metis snd_conv)
qed (use assms(1) in \<open>auto simp: lru_cache_def split: option.splits prod.splits sum.splits\<close>)

lemma keeps_create_engine:
  assumes "\<And>w es. part (w\<lparr>engines_made := es\<rparr>) = part w"
  shows "keeps part (create_async_engine lib u k)"
  using assms by (simp add: keeps_def create_async_engine_def Let_def split: option.split)

lemma keeps_from_url:
  assumes "\<And>w es. part (w\<lparr>clients_made := es\<rparr>) = part w"
  shows "keeps part (redis_from_url lib u k)"
  using assms by (simp add: keeps_def redis_from_url_def Let_def split: option.split)

lemma keeps_get_settings:
  "(\<And>w x. part (w\<lparr>settings_memo := x\<rparr>) = part w) \<Longrightarrow> keeps part (get_settings lib)"
  unfolding get_settings_def by (rule keeps_lru_cache) (simp_all add: keeps_pure)

lemmas keeps_rules = keeps_bind keeps_pure keeps_create_engine keeps_from_url keeps_get_settings

interpretation settings: memoised "get_settings lib" settings_memo for lib
  unfolding get_settings_def by (rule memoised_lru_cache) (simp_all add: keeps_def)

interpretation engine: memoised "get_engine lib" engine_memo for lib
  unfolding get_engine_def make_engine_def
  by (rule memoised_lru_cache) (simp, (intro keeps_rules; simp))

interpretation client: memoised "get_redis lib" redis_memo for lib
  unfolding get_redis_def make_redis_def
  by (rule memoised_lru_cache) (simp, (intro keeps_rules; simp))

lemma keeps_get_engine:
  assumes "\<And>w x. part (w\<lparr>settings_memo := x\<rparr>) = part w" "\<And>w x. part (w\<lparr>engine_memo := x\<rparr>) = part w"
    "\<And>w x. part (w\<lparr>engines_made := x\<rparr>) = part w"
  shows "keeps part (get_engine lib)"
  unfolding get_engine_def make_engine_def
  by (rule keeps_lru_cache, intro keeps_rules) (simp_all add: assms)

interpretation maker: memoised "get_sessionmaker lib" maker_memo for lib
  unfolding get_sessionmaker_def
  by (rule memoised_lru_cache) (simp, (intro keeps_rules keeps_get_engine; simp))

subsection \<open>One of each\<close>

datatype resource_use = UseSettings | UseEngine | UseSessions | UseRedis | ScrapePool

fun use_resource ::
  "'m libraries \<Rightarrow> resource_use \<Rightarrow> 'm process_state_scheme \<Rightarrow> 'm process_state_scheme" where
  "use_resource lib UseSettings w = snd (get_settings lib w)"
| "use_resource lib UseEngine w = snd (get_engine lib w)"
| "use_resource lib UseSessions w = snd (get_sessionmaker lib w)"
| "use_resource lib UseRedis w = snd (get_redis lib w)"
| "use_resource lib ScrapePool w = snd (scrape_pool lib w)"

definition engine_ok :: "'m process_state_scheme \<Rightarrow> bool" where
  "engine_ok w \<longleftrightarrow>
     (case engine_memo w of
        None \<Rightarrow> engines_made w = []
      | Some e \<Rightarrow> engines_made w = [(engine_url e, engine_options e)]
          \<and> listener_pairs (engine_events e) = 1
          \<and> (\<exists>s. settings_memo w = Some s \<and> engine_url e = async_database_url s
               \<and> build_engine_kwargs s = Inr (engine_options e)))"

definition client_ok :: "'m process_state_scheme \<Rightarrow> bool" where
  "client_ok w \<longleftrightarrow>
     (case redis_memo w of
        None \<Rightarrow> clients_made w = []
      | Some r \<Rightarrow> clients_made w = [(client_url r, client_options r)]
          \<and> (\<exists>s. settings_memo w = Some s \<and> client_url r = redis_url s
               \<and> build_redis_kwargs s = Inr (client_options r)))"

definition maker_ok :: "'m process_state_scheme \<Rightarrow> bool" where
  "maker_ok w \<longleftrightarrow>
     (\<forall>k. maker_memo w = Some k \<longrightarrow> engine_memo w = Some (maker_bind k) \<and> \<not> expire_on_commit k)"

definition resources_ok :: "'m process_state_scheme \<Rightarrow> bool" where
  "resources_ok w \<longleftrightarrow> engine_ok w \<and> client_ok w \<and> maker_ok w"

lemma get_settings_ok:
  assumes "resources_ok w"
  shows "resources_ok (snd (get_settings lib w))"
  using assms
  by (auto simp: resources_ok_def engine_ok_def client_ok_def maker_ok_def get_settings_def lru_cache_def
      split: option.splits sum.splits)

text \<open>Constructing the engine, when there is none, from the settings the process has.\<close>

lemma get_engine_ok:
  assumes ok: "resources_ok w"
  shows "resources_ok (snd (get_engine lib w))"
proof (cases "engine_memo w")
  case (Some e)
  with ok show ?thesis by (simp add: get_engine_def lru_cache_def)
next
  case None
  obtain r w1 where g: "get_settings lib w = (r, w1)" by fastforce
  have ok1: "resources_ok w1" using get_settings_ok [OF ok, of lib] g by simp
  have none: "engine_memo w1 = None"
    using keepsD [OF keeps_get_settings g, of engine_memo] None by simp
  show ?thesis
  proof (cases r)
    case (Inl e)
    with g ok1 None show ?thesis by (simp add: get_engine_def make_engine_def lru_cache_def)
  next
    case (Inr s)
    have memo: "settings_memo w1 = Some s" using settings.kept g Inr by blast
    have made: "engines_made w1 = []" using ok1 none by (simp add: resources_ok_def engine_ok_def)
    show ?thesis
      using ok1 None none memo made g Inr
      by (auto simp: get_engine_def make_engine_def lru_cache_def bind_cmd_def create_async_engine_def
          attach_query_metrics_def resources_ok_def engine_ok_def client_ok_def maker_ok_def Let_def
          split: sum.splits option.splits)
  qed
qed

lemma get_redis_ok:
  assumes ok: "resources_ok w"
  shows "resources_ok (snd (get_redis lib w))"
proof (cases "redis_memo w")
  case (Some e)
  with ok show ?thesis by (simp add: get_redis_def lru_cache_def)
next
  case None
  obtain r w1 where g: "get_settings lib w = (r, w1)" by fastforce
  have ok1: "resources_ok w1" using get_settings_ok [OF ok, of lib] g by simp
  have none: "redis_memo w1 = None"
    using keepsD [OF keeps_get_settings g, of redis_memo] None by simp
  show ?thesis
  proof (cases r)
    case (Inl e)
    with g ok1 None show ?thesis by (simp add: get_redis_def make_redis_def lru_cache_def)
  next
    case (Inr s)
    have memo: "settings_memo w1 = Some s" using settings.kept g Inr by blast
    have twice: "get_settings lib w1 = (Inr s, w1)" using settings.again g Inr by blast
    have made: "clients_made w1 = []" using ok1 none by (simp add: resources_ok_def client_ok_def)
    show ?thesis
      using ok1 None none memo made g Inr twice
      by (auto simp: get_redis_def make_redis_def lru_cache_def bind_cmd_def redis_from_url_def
          resources_ok_def engine_ok_def client_ok_def maker_ok_def Let_def
          split: sum.splits option.splits)
  qed
qed

lemma get_sessionmaker_ok:
  assumes ok: "resources_ok w"
  shows "resources_ok (snd (get_sessionmaker lib w))"
proof (cases "maker_memo w")
  case (Some e)
  with ok show ?thesis by (simp add: get_sessionmaker_def lru_cache_def)
next
  case None
  obtain r w1 where g: "get_engine lib w = (r, w1)" by fastforce
  have ok1: "resources_ok w1" using get_engine_ok [OF ok, of lib] g by simp
  show ?thesis
  proof (cases r)
    case (Inl e)
    with g ok1 None show ?thesis by (simp add: get_sessionmaker_def lru_cache_def)
  next
    case (Inr e)
    have "engine_memo w1 = Some e" using engine.kept g Inr by blast
    with ok1 None g Inr show ?thesis
      by (auto simp: get_sessionmaker_def lru_cache_def bind_cmd_def
          resources_ok_def engine_ok_def client_ok_def maker_ok_def split: option.splits)
  qed
qed

lemma scrape_pool_state: "snd (scrape_pool lib w) = snd (get_engine lib w)"
  by (simp add: scrape_pool_def split: prod.split sum.split)

lemma use_resource_ok: "resources_ok w \<Longrightarrow> resources_ok (use_resource lib u w)"
  by (cases u)
    (simp_all add: get_settings_ok get_engine_ok get_redis_ok get_sessionmaker_ok scrape_pool_state)

lemma uses_ok: "resources_ok w \<Longrightarrow> resources_ok (fold (use_resource lib) us w)"
  by (induction us arbitrary: w) (simp_all add: use_resource_ok)

definition fresh_process :: process_state where
  "fresh_process =
     \<lparr>settings_memo = None, engine_memo = None, maker_memo = None, redis_memo = None,
      engines_made = [], clients_made = [], collectors = []\<rparr>"

lemma fresh_ok: "resources_ok (import_session fresh_process)"
  by (simp add: resources_ok_def engine_ok_def client_ok_def maker_ok_def import_session_def
      fresh_process_def)

text \<open>Accepted options are bounded: no unlimited overflow, no endless wait, no unbounded pool.\<close>

lemma engine_options_bounded:
  "build_engine_kwargs s = Inr k \<Longrightarrow> 0 < pool_timeout k \<and> 0 \<le> max_overflow k"
  by (auto simp: build_engine_kwargs_def Let_def split: if_splits)

lemma redis_options_bounded: "build_redis_kwargs s = Inr k \<Longrightarrow> 0 < max_connections k"
  by (auto simp: build_redis_kwargs_def split: if_splits)


end
