(* ===== verification/Spec2Isabelle.thy ===== *)
theory Spec2Isabelle
  imports Races DegradedWeb Metering AuthScenarios MiddlewareProps Tracing Seeding RunMetadata Faults Charts Migrations Resources
begin

text \<open>
  \<^bold>\<open>A verification development of the scalable content platform\<close>

  The program is an asynchronous article service in Python (FastAPI, SQLAlchemy over MySQL, Redis) with
  the tooling around it: Alembic migrations, a seeding script, and the scripts that drive, record and
  chart load runs. A request passes five layers of middleware (correlation, access log, metrics, load
  shedding, authentication), reaches a router, and runs a service inside one database transaction.
  Reads of articles go through Redis: a body under its own key, a list page under a key that carries a
  generation number, with a \<open>SET NX\<close> lock so that one reader loads for all. A write queues its
  invalidation on the session, and \<open>get_session\<close> runs the queue after the commit. Every call of MySQL
  goes through a guard: a circuit breaker, a call timeout and, for reads, retries; Redis consults a
  breaker of its own and never fails a request.

  \<^bold>\<open>Conventions\<close> (theory \<open>Prelude\<close>)

  An effect is a command \<open>'w \<Rightarrow> (exn + 'a) \<times> 'w\<close>: the left value is the exception raised, and the state
  is kept on both ways. \<open>bind_cmd\<close> sequences two. The state of one request is the record \<open>request\<close>
  (clock, registry of breakers, metrics, \<open>session.info\<close>, the cache instance), extensible by the state
  of whatever lies outside the program; the state of the HTTP layer, \<open>web\<close>, extends it. Python's
  integers are \<open>int\<close>, its floats of seconds exact rationals, its datetimes microseconds since the epoch,
  its strings lists of characters below 256. Every \<open>except\<close> clause, early return and \<open>finally\<close> of the
  source is a branch of a definition. The message of an exception is the source's; one that
  quotes a float or the text of another exception is kept to its first clause. Code that is not in the repository is a parameter: a record of
  the operations the source calls, with what the source relies on stated as a predicate (\<open>serves\<close> for
  the SQL session, \<open>stores\<close> for the Redis client, \<open>unreliable\<close> for one that
  may fail, \<open>transaction\<close>, \<open>codec_ok\<close>, \<open>jwt_laws\<close>, \<open>hasher_laws\<close>,
  \<open>proxy_laws\<close>, \<open>rng_laws\<close>), and each such predicate is met by an instance in memory on which the
  witnesses run.

  \<^bold>\<open>Theories\<close>

  \<^item> \<open>PyText\<close>, \<open>PyFormat\<close>, \<open>Json\<close>, \<open>Base64\<close>: the operations of Python's library that the source
    uses, on strings, numerals, fixed-point formats, JSON values and urlsafe base64.
  \<^item> \<open>Exceptions\<close> (\<open>services/exceptions.py\<close>): the domain errors, and the classes of driver and
    language exceptions that the handlers tell apart.
  \<^item> \<open>Metrics\<close> (\<open>observability/metrics.py\<close>): label sets and bucketing, the observers, the collector of
    the connection pool, the cursor hooks. Metrics are a log of calls on the registry.
  \<^item> \<open>Settings\<close> (\<open>config.py\<close>, \<open>db/session.py\<close>, \<open>cache/client.py\<close>): fields and defaults, checks, the
    database URL, the keyword arguments of the engine and of the client.
  \<^item> \<open>Resources\<close> (\<open>get_settings\<close>, \<open>get_engine\<close>, \<open>get_sessionmaker\<close>, \<open>get_redis\<close>, the pool collector): the
    memoised accessors; a process constructs at most one bounded pool of each kind.
  \<^item> \<open>Policy\<close>, \<open>Breaker\<close>, \<open>Retry\<close>, \<open>Guard\<close> (\<open>resilience/*.py\<close>): the budgets, the breaker as a state
    machine one method per definition, the attempt loop with its full-jitter waits, \<open>guarded_call\<close> with
    each of its handlers. \<open>Policy\<close>: accepted policies are sound. \<open>Breaker\<close>: the field invariant over any
    run, the verdict of a probe. \<open>Retry\<close>: how many attempts, how long. \<open>Guard\<close>: the time of a whole call,
    which exceptions leave it, how often a statement runs, when an outage opens the circuit, and the
    cancelled probe that never gives its slot back.
  \<^item> \<open>Pagination\<close>, \<open>Keys\<close> (\<open>api/pagination.py\<close>, \<open>cache/keys.py\<close>): the cursor and its round trip, the
    key names and their disjointness, the jittered lifetimes.
  \<^item> \<open>Session\<close> (\<open>db/after_commit.py\<close>, \<open>get_session\<close>): the queue and the transaction around a request, on
    every way it ends.
  \<^item> \<open>ArticleCache\<close> (\<open>cache/article_cache.py\<close>): every method over a Redis client, the per-request
    latch, the shared breaker. No sequence of calls raises; an open circuit costs no command.
  \<^item> \<open>ArticleRepo\<close>, \<open>Listing\<close> (\<open>models/article.py\<close>, \<open>repositories/article_repo.py\<close>): the statements as
    trees, what they mean on a table, and the keyset pagination: following the cursors visits every
    live article once, in order.
  \<^item> \<open>Users\<close> (\<open>models/user.py\<close>, \<open>models/role.py\<close>, \<open>repositories/user_repo.py\<close>).
  \<^item> \<open>ArticleService\<close> (\<open>services/article_service.py\<close>, \<open>schemas/article.py\<close>): create, get, list, update
    and delete with their cache, lock, database and after-commit steps in order; \<open>ArticleProps\<close>: what
    each does on every branch.
  \<^item> \<open>Environment\<close>, \<open>Coherence\<close>, \<open>Scenarios\<close>: what MySQL and Redis document; the refinement of the
    table by the cached service (abstract specification: \<open>live_row\<close>, \<open>spec_page\<close>, \<open>update_effect\<close> on a
    list of rows; \<open>coherent\<close> relates it to the keys of Redis), from one read to a whole request; the
    same theorems run, and the update that is acknowledged and lost. A whole \<open>POST\<close>, \<open>PUT\<close> or \<open>DELETE\<close> is
    atomic and leaves the cache coherent.
  \<^item> \<open>Interleaving\<close>, \<open>Races\<close>: the same requests as concurrent threads over one table and one Redis, a
    step relation whose steps are the commands of the service. List pages stay fresh through the
    generations, without the lock; bodies do not: a load that a write overtakes is stored behind the
    invalidation.
  \<^item> \<open>Security\<close>, \<open>AuthService\<close>, \<open>AuthScenarios\<close> (\<open>core/security.py\<close>, \<open>security/password_policy.py\<close>,
    \<open>schemas/auth.py\<close>, \<open>services/auth_service.py\<close>, \<open>get_current_user\<close>): hashing, tokens, screening,
    registration and login on every branch, and two registrations that race.
  \<^item> \<open>Logging\<close>, \<open>Context\<close>, \<open>Tracing\<close> (\<open>observability/*.py\<close>): redaction, the processor chain, the
    correlation id, the route label, spans and the latched installation.
  \<^item> \<open>HttpErrors\<close> (\<open>api/errors.py\<close>), \<open>Middleware\<close>, \<open>MiddlewareProps\<close>, \<open>Gate\<close> (\<open>api/middleware.py\<close>,
    \<open>main.py\<close>): the envelope of every exception, the chain in the order \<open>create_app\<close> builds it, the
    access policy, one record and one count per request, and the in-flight ceiling as an invariant over
    interleaved arrivals and departures.
  \<^item> \<open>Routers\<close> (\<open>api/routers/*.py\<close>, \<open>api/deps.py\<close>): the handlers and their factories, the \<open>If-Match\<close>
    header, readiness.
  \<^item> \<open>EndToEnd\<close>, \<open>WebScenarios\<close>: whole HTTP requests over the refinement: a client that follows the
    cursors sees every article once, a writer reads its own write; and both run on the reference
    environment put under the web layer.
  \<^item> \<open>Degraded\<close>, \<open>DegradedWeb\<close>: the same reads over a Redis that may fail at any command, before or after
    carrying it out (\<open>unreliable\<close>), with its breaker in any state. The latch and the breaker keep the
    generation 0 of a failed lookup away from the cached pages, so articles, pages and whole browsing
    sessions are answered as the table has them.
  \<^item> \<open>Application\<close>, \<open>Upkeep\<close>, \<open>Metering\<close> (\<open>main.py\<close>): the endpoints under their templates inside the chain,
    and sequences of whole requests (\<open>serve_all\<close>). \<open>Upkeep\<close> walks once through every operation, from the
    breaker to the outermost layer, for any invariant of the registry and the metrics; \<open>Metering\<close> uses
    the walk twice: the number of time series is bounded whatever clients send, and every breaker of
    the process stays sound.
  \<^item> \<open>Migrations\<close> (\<open>migrations/versions/*.py\<close>): the operations of each revision on a schema, with the
    rules MySQL documents for indexes and foreign keys; every upgrade is undone by its downgrade.
  \<^item> \<open>Seeding\<close>, \<open>LoadSummary\<close>, \<open>RunMetadata\<close>, \<open>Faults\<close>, \<open>Charts\<close> (\<open>scripts/*.py\<close>): the top-up of the
    dataset, the summary of a run and the noise floor between runs, whether a run is usable and repeats
    another, the toxics of a fault, and the chart as SVG text.

  \<^bold>\<open>Interfaces.\<close> \<open>fail_open\<close> (a cache method that skips when Redis is not usable and never raises) is
  interpreted by each of the ten methods; \<open>breaker_contract\<close> (an invariant and a configuration kept by
  every event) by the breaker; \<open>label_bucket\<close> (a function into a closed label set) by the six bucketing
  functions; \<open>loop_relation\<close> (what each attempt, wait and rollback keeps, the attempt loop keeps) by its
  time bound and by the registry; \<open>upkeep\<close> (what an invariant must survive, for the whole program to keep
  it) by the labelled metrics and by the sound registry; \<open>memoised\<close> (an accessor behind \<open>lru_cache\<close>) by
  the four accessors.

  \<^bold>\<open>Loops and fuel.\<close> The attempt loop ends by the attempts left (a measure). The poll of a single-flight
  loser has fuel, one round for each poll interval in the lock timeout and one more: every round sleeps
  at least the interval, so the clock ends it first, and more fuel changes nothing (part of
  \<open>loser_wait_bounded\<close>). The other loops are structural or have a measure on the rest of the text.

  \<^bold>\<open>What the modelling showed.\<close> A cancelled probe leaves a breaker half-open for good. An update whose
  last read is retried is rolled back and answered with success. A body loaded before a commit can be
  cached after its invalidation. The loser of two registrations gets 500. A cursor past the last
  datetime, and a cached page of an unexpected shape, answer 500. A statement timeout below a
  millisecond becomes no limit. \<open>GET /v1/articles-drafts\<close> would be public. A secret inside a list is not
  redacted. Clearing a fault removes every toxic of the target. The method label of the request metrics
  is the client's own text.

  \<^bold>\<open>Not modelled.\<close> \<open>db/base.py\<close> (a naming convention) and \<open>migrations/env.py\<close> (glue) have no behaviour of
  their own. What SQLAlchemy and redis-py do inside an engine, a session maker and a client, the rendering of log lines and of the metrics page, the thread pool around Argon2, argument
  parsing, printing, and reading and writing files are the work of the libraries; the scripts' HTTP
  calls are the parameters \<open>transport\<close> and \<open>fetch\<close>. Infinite and undefined numbers, and characters
  beyond code point 255, are outside the model. Expiry of a key is a step of its own in \<open>Interleaving\<close>;
  in the sequential theorems it is taken not to strike. In \<open>Interleaving\<close> Redis and MySQL answer; the
  failures of MySQL are the subject of the theorems on the guard, those of Redis of \<open>ArticleCache\<close> and
  \<open>Degraded\<close>, where the clock stands still between two checks of a breaker with no \<open>await\<close> between them.
\<close>

end
